(* ===== verification/Prelude.thy ===== *)
theory Prelude
  imports Main "HOL-Library.Word" "HOL-Library.Signed_Division" "HOL-Library.While_Combinator"
    "HOL-Library.List_Lexorder" "HOL-Library.Char_ord"
begin

text \<open>
  Shared vocabulary of the development: the ways a Dittosuite process can stop early, the
  computations that thread the process state through a program, fixed-width integers, and
  the operations of \<^verbatim>\<open>std::string\<close> and of stream formatting that the sources use.

  \<^item> \<open>err\<close> lists the abnormal ends of a process: the logging macros \<^verbatim>\<open>LOGF\<close> and
    \<^verbatim>\<open>PLOGF\<close> of \<^verbatim>\<open>include/ditto/logger.h\<close>, which call \<^verbatim>\<open>exit(EXIT_FAILURE)\<close>, an
    \<^verbatim>\<open>LOGE\<close> followed by \<^verbatim>\<open>exit\<close>, an exit with a status after a message, the exceptions of
    \<^verbatim>\<open>std::get\<close> on a variant and of \<^verbatim>\<open>std::string::substr\<close>, the behaviours that the C++ standard
    leaves undefined, and a loop that never ends.
  \<^item> \<open>'a res\<close> is the result of a pure C++ function, \<open>('s, 'a) comp\<close> of one that also
    acts on a state \<open>'s\<close>; an early end keeps the state reached so far.
\<close>

section \<open>How a process can end early\<close>

datatype ub =
    SignedOverflow | DivisionByZero | OutOfBounds | BadConversion | EmptyRange
  | StalePointer | NullPointer | EmptyContainer | Uninitialised

datatype err =
    Logf string
  | Plogf string
  | Loge_exit string
  | Exit_with int string
  | Bad_variant_access
  | Out_of_range
  | Undefined ub
  | Diverges
  | Unbounded_tree

type_synonym 'a res = "err + 'a"
type_synonym ('s, 'a) comp = "'s \<Rightarrow> 'a res \<times> 's"

named_theorems comp_simps \<open>unfolding the sequencing of computations\<close>
named_theorems width_simps \<open>fixed-width integers whose value is in range\<close>

section \<open>Sequencing\<close>

definition bindR :: "'a res \<Rightarrow> ('a \<Rightarrow> 'b res) \<Rightarrow> 'b res" where
  "bindR r k = (case r of Inl e \<Rightarrow> Inl e | Inr x \<Rightarrow> k x)"

lemma bindR_simps [simp]:
  "bindR (Inl e) k = Inl e"
  "bindR (Inr x) k = k x"
  by (simp_all add: bindR_def)

lemma bindR_Inr_iff: "bindR r k = Inr y \<longleftrightarrow> (\<exists>x. r = Inr x \<and> k x = Inr y)"
  by (cases r) auto

lemma bindR_Inl_iff:
  "bindR r k = Inl e \<longleftrightarrow> r = Inl e \<or> (\<exists>x. r = Inr x \<and> k x = Inl e)"
  by (cases r) auto

fun mapR :: "('a \<Rightarrow> 'b res) \<Rightarrow> 'a list \<Rightarrow> 'b list res" where
  "mapR f [] = Inr []"
| "mapR f (x # xs) = bindR (f x) (\<lambda>y. bindR (mapR f xs) (\<lambda>ys. Inr (y # ys)))"

fun foldR :: "('b \<Rightarrow> 'a \<Rightarrow> 'b res) \<Rightarrow> 'b \<Rightarrow> 'a list \<Rightarrow> 'b res" where
  "foldR f b [] = Inr b"
| "foldR f b (x # xs) = bindR (f b x) (\<lambda>b'. foldR f b' xs)"

lemma mapR_Inr_map:
  "(\<And>x. x \<in> set xs \<Longrightarrow> f x = Inr (g x)) \<Longrightarrow> mapR f xs = Inr (map g xs)"
  by (induction xs) auto

lemma mapR_length: "mapR f xs = Inr ys \<Longrightarrow> length ys = length xs"
  by (induction xs arbitrary: ys) (auto simp: bindR_Inr_iff)

lemma mapR_nth: "mapR f xs = Inr ys \<Longrightarrow> i < length xs \<Longrightarrow> f (xs ! i) = Inr (ys ! i)"
  by (induction xs arbitrary: ys i) (auto simp: bindR_Inr_iff nth_Cons split: nat.splits)

lemma mapR_ex: "(\<And>x. x \<in> set xs \<Longrightarrow> \<exists>y. f x = Inr y) \<Longrightarrow> \<exists>ys. mapR f xs = Inr ys"
  by (induction xs) (fastforce simp: bindR_Inr_iff)+

lemma mapR_cong [fundef_cong]:
  "xs = ys \<Longrightarrow> (\<And>x. x \<in> set ys \<Longrightarrow> f x = g x) \<Longrightarrow> mapR f xs = mapR g ys"
  by (induction ys arbitrary: xs) auto

lemma foldR_append:
  "foldR f b (xs @ ys) = bindR (foldR f b xs) (\<lambda>b'. foldR f b' ys)"
proof (induction xs arbitrary: b)
  case (Cons x xs)
  then show ?case by (cases "f b x") simp_all
qed simp

definition returnC :: "'a \<Rightarrow> ('s, 'a) comp" where
  "returnC x = (\<lambda>s. (Inr x, s))"

definition failC :: "err \<Rightarrow> ('s, 'a) comp" where
  "failC e = (\<lambda>s. (Inl e, s))"

definition bindC :: "('s, 'a) comp \<Rightarrow> ('a \<Rightarrow> ('s, 'b) comp) \<Rightarrow> ('s, 'b) comp" where
  "bindC m k = (\<lambda>s. case m s of (Inl e, t) \<Rightarrow> (Inl e, t) | (Inr x, t) \<Rightarrow> k x t)"

definition thenC :: "('s, 'a) comp \<Rightarrow> ('s, 'b) comp \<Rightarrow> ('s, 'b) comp" where
  "thenC m n = bindC m (\<lambda>_. n)"

definition liftR :: "'a res \<Rightarrow> ('s, 'a) comp" where
  "liftR r = (\<lambda>s. (r, s))"

definition getC :: "('s \<Rightarrow> 'a) \<Rightarrow> ('s, 'a) comp" where
  "getC f = (\<lambda>s. (Inr (f s), s))"

definition modifyC :: "('s \<Rightarrow> 's) \<Rightarrow> ('s, unit) comp" where
  "modifyC f = (\<lambda>s. (Inr (), f s))"

text \<open>\<open>if (b) <fatal log>;\<close>, the shape of almost every check in the sources.\<close>

definition fail_ifC :: "bool \<Rightarrow> err \<Rightarrow> ('s, unit) comp" where
  "fail_ifC b e = (if b then failC e else returnC ())"

fun mapC :: "('a \<Rightarrow> ('s, 'b) comp) \<Rightarrow> 'a list \<Rightarrow> ('s, 'b list) comp" where
  "mapC f [] = returnC []"
| "mapC f (x # xs) = bindC (f x) (\<lambda>y. bindC (mapC f xs) (\<lambda>ys. returnC (y # ys)))"

fun foldC :: "('b \<Rightarrow> 'a \<Rightarrow> ('s, 'b) comp) \<Rightarrow> 'b \<Rightarrow> 'a list \<Rightarrow> ('s, 'b) comp" where
  "foldC f b [] = returnC b"
| "foldC f b (x # xs) = bindC (f b x) (\<lambda>b'. foldC f b' xs)"

lemma comp_basic [simp]:
  "returnC x s = (Inr x, s)"
  "failC e s = (Inl e, s)"
  "liftR r s = (r, s)"
  "getC f s = (Inr (f s), s)"
  "modifyC g s = (Inr (), g s)"
  by (simp_all add: returnC_def failC_def liftR_def getC_def modifyC_def)

lemma bindC_app [comp_simps]:
  "bindC m k s = (case m s of (Inl e, t) \<Rightarrow> (Inl e, t) | (Inr x, t) \<Rightarrow> k x t)"
  by (simp add: bindC_def)

lemma thenC_app [comp_simps]:
  "thenC m n s = (case m s of (Inl e, t) \<Rightarrow> (Inl e, t) | (Inr x, t) \<Rightarrow> n t)"
  by (simp add: thenC_def bindC_def)

lemma fail_ifC_app [comp_simps]:
  "fail_ifC b e s = (if b then (Inl e, s) else (Inr (), s))"
  by (simp add: fail_ifC_def)

lemma bindC_Inr_iff:
  "bindC m k s = (Inr y, t) \<longleftrightarrow> (\<exists>x u. m s = (Inr x, u) \<and> k x u = (Inr y, t))"
  by (auto simp: bindC_def split: prod.splits sum.splits)

lemma thenC_Inr_iff:
  "thenC m n s = (Inr y, t) \<longleftrightarrow> (\<exists>x u. m s = (Inr x, u) \<and> n u = (Inr y, t))"
  by (simp add: thenC_def bindC_Inr_iff)

lemma bindC_Inl_iff:
  "bindC m k s = (Inl e, t) \<longleftrightarrow>
     m s = (Inl e, t) \<or> (\<exists>x u. m s = (Inr x, u) \<and> k x u = (Inl e, t))"
  by (auto simp: bindC_def split: prod.splits sum.splits)

lemma not_isl_Inr: "\<not> isl (fst p) \<Longrightarrow> p = (Inr (projr (fst p)), snd p)"
  by (cases p; cases "fst p") auto

lemma bindC_step: "m s = (Inr x, t) \<Longrightarrow> bindC m k s = k x t"
  by (simp add: bindC_def)

lemma bindC_stop: "m s = (Inl e, t) \<Longrightarrow> bindC m k s = (Inl e, t)"
  by (simp add: bindC_def)

lemma bindC_cong_first: "m s = m' s \<Longrightarrow> bindC m k s = bindC m' k s"
  by (simp add: bindC_def)

lemma bindC_cong:
  "m s = m' s \<Longrightarrow> (\<And>x t. m' s = (Inr x, t) \<Longrightarrow> k x t = k' x t) \<Longrightarrow> bindC m k s = bindC m' k' s"
  by (auto simp: bindC_def split: prod.splits sum.splits)

lemma fail_ifC_Inr_iff: "fail_ifC b e s = (Inr x, t) \<longleftrightarrow> \<not> b \<and> t = s"
  by (cases x) (auto simp: fail_ifC_def)

lemmas comp_Inr_iffs = bindC_Inr_iff thenC_Inr_iff fail_ifC_Inr_iff

lemma bindC_return_left [simp]:
  "bindC (returnC x) k = k x"
  "bindC (Pair (Inr x)) k = k x"
  by (simp_all add: bindC_def)

lemma bindC_fail_left [simp]:
  "bindC (failC e) k = failC e"
  "bindC (Pair (Inl e)) k = Pair (Inl e)"
  by (simp_all add: bindC_def failC_def)

lemma bindC_return_right [simp]:
  "bindC m returnC = m"
  "bindC m (\<lambda>x. Pair (Inr x)) = m"
  by (rule ext, simp add: bindC_def split: prod.splits sum.splits)+

lemma bindC_assoc: "bindC (bindC m k) l = bindC m (\<lambda>x. bindC (k x) l)"
  by (rule ext) (simp add: bindC_def split: prod.splits sum.splits)

lemma mapC_append:
  "mapC f (xs @ ys) = bindC (mapC f xs) (\<lambda>us. bindC (mapC f ys) (\<lambda>vs. returnC (us @ vs)))"
  by (induction xs) (simp_all add: bindC_assoc)

lemma mapC_cong_on:
  "(\<And>x s. x \<in> set xs \<Longrightarrow> f x s = g x s) \<Longrightarrow> mapC f xs s = mapC g xs s"
proof (induction xs arbitrary: s)
  case (Cons x xs)
  have "f x s = g x s" using Cons.prems by simp
  moreover have "mapC f xs t = mapC g xs t" for t
    using Cons.prems by (intro Cons.IH) simp
  ultimately show ?case by (simp add: bindC_def split: prod.splits sum.splits)
qed simp

text \<open>A property that each element's computation keeps in relation to its result.\<close>

lemma mapC_list_all2:
  assumes "\<And>x s y t. x \<in> set xs \<Longrightarrow> f x s = (Inr y, t) \<Longrightarrow> R x y"
    and "mapC f xs s = (Inr ys, t)"
  shows "list_all2 R xs ys"
  using assms
proof (induction xs arbitrary: s ys)
  case (Cons x xs)
  from Cons.prems(2) obtain y ys' u where *: "ys = y # ys'" "f x s = (Inr y, u)"
      "mapC f xs u = (Inr ys', t)"
    by (auto simp: bindC_Inr_iff)
  then show ?case using Cons.IH [of u ys'] Cons.prems(1) by auto
qed simp

section \<open>Loops that may not end\<close>

text \<open>
  \<^verbatim>\<open>do { b = body } while (b)\<close> over a state: the body says whether to go round again. A
  loop that never stops is the value \<open>Diverges\<close>.
\<close>

definition do_whileC :: "('s, bool) comp \<Rightarrow> ('s, unit) comp" where
  "do_whileC body s =
     (case while_option (\<lambda>(r, _). r = Inr True) (\<lambda>(_, s). body s) (Inr True, s) of
        None \<Rightarrow> (Inl Diverges, s)
      | Some (Inl e, t) \<Rightarrow> (Inl e, t)
      | Some (Inr _, t) \<Rightarrow> (Inr (), t))"

lemma do_whileC_unfold:
  "do_whileC body s =
     (case body s of
        (Inl e, t) \<Rightarrow> (Inl e, t)
      | (Inr False, t) \<Rightarrow> (Inr (), t)
      | (Inr True, t) \<Rightarrow> (case do_whileC body t of
            (Inl Diverges, u) \<Rightarrow> do_whileC body s
          | r \<Rightarrow> r))"
proof -
  let ?W = "while_option (\<lambda>(r, _). r = Inr True) (\<lambda>(_, s). body s)"
  have W: "?W (Inr True, s) = ?W (body s)" for s
    by (subst while_option_unfold) simp
  obtain r t where b: "body s = (r, t)" by (cases "body s")
  show ?thesis
  proof (cases "r = Inr True")
    case True
    then show ?thesis
      using b by (auto simp: do_whileC_def W split: option.splits sum.splits err.splits)
  next
    case False
    then have "?W (body s) = Some (body s)"
      using b by (subst while_option_unfold) simp
    with b False show ?thesis
      by (auto simp: do_whileC_def W split: sum.splits bool.splits)
  qed
qed

lemma do_whileC_stop: "body s = (Inr False, t) \<Longrightarrow> do_whileC body s = (Inr (), t)"
  by (subst do_whileC_unfold) simp

lemma do_whileC_fail: "body s = (Inl e, t) \<Longrightarrow> do_whileC body s = (Inl e, t)"
  by (subst do_whileC_unfold) simp

lemma do_whileC_again:
  "body s = (Inr True, t) \<Longrightarrow> do_whileC body t = (Inr (), u) \<Longrightarrow> do_whileC body s = (Inr (), u)"
  by (subst do_whileC_unfold) simp

text \<open>Total correctness: an invariant and a measure that every further round decreases.\<close>

lemma do_whileC_total:
  assumes "I s"
    and "\<And>s. I s \<Longrightarrow> \<exists>b t. body s = (Inr b, t) \<and> (if b then I t \<and> m t < (m s :: nat) else Q t)"
  shows "\<exists>t. do_whileC body s = (Inr (), t) \<and> Q t"
  using assms(1)
proof (induction "m s" arbitrary: s rule: less_induct)
  case less
  obtain b t where b: "body s = (Inr b, t)" "if b then I t \<and> m t < m s else Q t"
    using assms(2) [OF less.prems] by blast
  show ?case
  proof (cases b)
    case True
    with b less.hyps obtain u where "do_whileC body t = (Inr (), u)" "Q u" by auto
    with b True show ?thesis by (auto intro: do_whileC_again)
  next
    case False
    with b show ?thesis by (auto intro: do_whileC_stop)
  qed
qed

section \<open>Computations that move along a preorder\<close>

text \<open>Computations that only move along a preorder of states.\<close>

locale preorder_steps =
  fixes R :: "'s \<Rightarrow> 's \<Rightarrow> bool"
  assumes R_refl: "R s s"
    and R_trans: "R s t \<Longrightarrow> R t u \<Longrightarrow> R s u"
begin

definition moves :: "('s, 'a) comp \<Rightarrow> bool" where
  "moves m \<longleftrightarrow> (\<forall>s. R s (snd (m s)))"

lemma movesD: "moves m \<Longrightarrow> m s = (r, t) \<Longrightarrow> R s t"
  unfolding moves_def by (metis snd_conv)

lemma moves_pure [intro]:
  "moves (returnC x)" "moves (failC e)" "moves (liftR r)" "moves (getC f)" "moves (fail_ifC b e)" "moves (Pair q)"
  by (auto simp: moves_def R_refl fail_ifC_def)

lemma moves_bindC [intro]: "moves m \<Longrightarrow> (\<And>x. moves (k x)) \<Longrightarrow> moves (bindC m k)"
  unfolding moves_def bindC_def using R_trans
  by (simp split: prod.splits sum.splits) (metis snd_conv)

lemma moves_mapC: "(\<And>x. x \<in> set xs \<Longrightarrow> moves (f x)) \<Longrightarrow> moves (mapC f xs)"
  by (induction xs) auto

lemma moves_foldC: "(\<And>b x. x \<in> set xs \<Longrightarrow> moves (f b x)) \<Longrightarrow> moves (foldC f b xs)"
  by (induction xs arbitrary: b) auto

lemma moves_do_whileC:
  assumes "moves body"
  shows "moves (do_whileC body)"
  unfolding moves_def
proof
  fix s
  have step: "R t (snd (body t))" for t using assms by (simp add: moves_def)
  show "R s (snd (do_whileC body s))"
  proof (cases "while_option (\<lambda>(r, _). r = Inr True) (\<lambda>(_, s). body s) (Inr True, s)")
    case (Some q)
    have "R s (snd q)"
      by (rule while_option_rule [where P = "\<lambda>q. R s (snd q)", OF _ Some])
        (auto simp: R_refl intro: R_trans [OF _ step])
    then show ?thesis using Some by (auto simp: do_whileC_def split: sum.splits prod.splits)
  qed (simp add: do_whileC_def R_refl)
qed

end

section \<open>Fixed-width integers\<close>

text \<open>
  A C++ \<^verbatim>\<open>int64_t\<close> is an \<open>int\<close> between \<open>- 2^63\<close> and \<open>2^63 - 1\<close>; arithmetic on it that
  leaves that range is undefined. Unsigned 64-bit values are \<open>64 word\<close>, which wraps.
\<close>

type_synonym u64 = "64 word"
type_synonym u32 = "32 word"

definition in_i64 :: "int \<Rightarrow> bool" where
  "in_i64 x \<longleftrightarrow> - (2 ^ 63) \<le> x \<and> x < 2 ^ 63"

definition in_i32 :: "int \<Rightarrow> bool" where
  "in_i32 x \<longleftrightarrow> - (2 ^ 31) \<le> x \<and> x < 2 ^ 31"

definition chk64 :: "int \<Rightarrow> int res" where
  "chk64 x = (if in_i64 x then Inr x else Inl (Undefined SignedOverflow))"

text \<open>Conversions: to unsigned modulo \<open>2^64\<close>, back to signed and to \<^verbatim>\<open>int\<close> by keeping the low bits.\<close>

definition to_u64 :: "int \<Rightarrow> u64" where
  "to_u64 x = word_of_int x"

definition u64_to_i64 :: "u64 \<Rightarrow> int" where
  "u64_to_i64 w = sint w"

definition narrow32 :: "int \<Rightarrow> int" where
  "narrow32 x = sint (word_of_int x :: 32 word)"

text \<open>Division of signed integers truncates towards zero; a zero divisor is undefined.\<close>

definition div64 :: "int \<Rightarrow> int \<Rightarrow> int res" where
  "div64 a b = (if b = 0 then Inl (Undefined DivisionByZero) else chk64 (a sdiv b))"

lemma chk64_in [width_simps]: "in_i64 x \<Longrightarrow> chk64 x = Inr x"
  by (simp add: chk64_def)

lemma chk64_Inr_iff: "chk64 x = Inr y \<longleftrightarrow> in_i64 x \<and> y = x"
  by (auto simp: chk64_def)

lemma narrow32_in [width_simps]: "in_i32 x \<Longrightarrow> narrow32 x = x"
  unfolding narrow32_def in_i32_def
  by (simp add: signed_of_int signed_take_bit_int_eq_self)

lemma narrow32_range: "in_i32 (narrow32 x)"
proof -
  have "- (2 ^ (LENGTH(32) - 1)) \<le> sint (word_of_int x :: 32 word)"
    and "sint (word_of_int x :: 32 word) < 2 ^ (LENGTH(32) - 1)"
    by (rule sint_ge, rule sint_lt)
  then show ?thesis by (simp add: narrow32_def in_i32_def)
qed

lemma uint_to_u64 [width_simps]: "0 \<le> x \<Longrightarrow> x < 2 ^ 64 \<Longrightarrow> uint (to_u64 x) = x"
  by (simp add: to_u64_def uint_word_of_int)

lemma u64_to_i64_small [width_simps]: "uint w < 2 ^ 63 \<Longrightarrow> u64_to_i64 w = uint w"
  by (simp add: u64_to_i64_def sint_uint signed_take_bit_int_eq_self_iff order_trans [OF _ uint_ge_0])

lemma u64_to_i64_range: "in_i64 (u64_to_i64 w)"
proof -
  have "- (2 ^ (LENGTH(64) - 1)) \<le> sint w" and "sint w < 2 ^ (LENGTH(64) - 1)"
    by (rule sint_ge, rule sint_lt)
  then show ?thesis by (simp add: u64_to_i64_def in_i64_def)
qed

lemma sdiv_nonneg: "0 \<le> a \<Longrightarrow> 0 \<le> b \<Longrightarrow> (a :: int) sdiv b = a div b"
  by (cases "a = 0"; cases "b = 0") (simp_all add: signed_divide_int_def)

lemma smod_nonneg: "0 \<le> a \<Longrightarrow> 0 \<le> b \<Longrightarrow> (a :: int) smod b = a mod b"
  by (cases "a = 0") (simp_all add: signed_modulo_int_def)

lemma div64_pos: "0 \<le> a \<Longrightarrow> 0 < b \<Longrightarrow> in_i64 a \<Longrightarrow> div64 a b = Inr (a div b)"
proof -
  assume *: "0 \<le> a" "0 < b" "in_i64 a"
  have "a div b \<le> a" "0 \<le> a div b"
    using * zdiv_mono2 [of a 1 b] by (simp_all add: pos_imp_zdiv_nonneg_iff)
  then have "in_i64 (a div b)" using * by (simp add: in_i64_def)
  then show ?thesis using * by (simp add: div64_def sdiv_nonneg chk64_def)
qed

section \<open>Strings\<close>

definition digit_char :: "nat \<Rightarrow> char" where
  "digit_char d = char_of (48 + d)"

fun show_nat :: "nat \<Rightarrow> string" where
  "show_nat n = (if n < 10 then [digit_char n] else show_nat (n div 10) @ [digit_char (n mod 10)])"

declare show_nat.simps [simp del]

definition show_int :: "int \<Rightarrow> string" where
  "show_int i = (if i < 0 then CHR ''-'' # show_nat (nat (- i)) else show_nat (nat i))"

definition is_digit :: "char \<Rightarrow> bool" where
  "is_digit c \<longleftrightarrow> (48 :: nat) \<le> of_char c \<and> (of_char c :: nat) \<le> 57"

lemma digit_char_of_char: "d < 10 \<Longrightarrow> of_char (digit_char d) = 48 + d"
  by (simp add: digit_char_def)

lemma digit_char_digit: "d < 10 \<Longrightarrow> is_digit (digit_char d)"
  by (simp add: is_digit_def digit_char_of_char)

lemma show_nat_digits: "\<forall>c \<in> set (show_nat n). is_digit c"
proof (induction n rule: show_nat.induct)
  case (1 n)
  then show ?case
    by (cases "n < 10") (auto simp: show_nat.simps [of n] digit_char_digit)
qed

lemma show_nat_nonempty: "show_nat n \<noteq> []"
  by (subst show_nat.simps) simp

definition read_nat :: "string \<Rightarrow> nat" where
  "read_nat s = foldl (\<lambda>n c. 10 * n + (of_char c - 48)) 0 s"

lemma read_show_nat: "read_nat (show_nat n) = n"
proof (induction n rule: show_nat.induct)
  case (1 n)
  then show ?case
    by (cases "n < 10")
      (auto simp: show_nat.simps [of n] read_nat_def digit_char_of_char)
qed

lemma show_nat_inj: "show_nat m = show_nat n \<longleftrightarrow> m = n"
  by (metis read_show_nat)

lemma not_digit_not_in_show: "\<not> is_digit c \<Longrightarrow> c \<notin> set (show_nat n)"
  using show_nat_digits by blast

text \<open>\<^verbatim>\<open>strtoll(s, nullptr, 10)\<close>: white space, a sign, digits; the value saturates.\<close>

definition is_space :: "char \<Rightarrow> bool" where
  "is_space c \<longleftrightarrow> c \<in> {CHR '' '', CHR 0x09, CHR 0x0A, CHR 0x0B, CHR 0x0C, CHR 0x0D}"

definition strtoll :: "string \<Rightarrow> int" where
  "strtoll s =
     (let t = dropWhile is_space s;
          neg = (t \<noteq> [] \<and> hd t = CHR ''-'');
          u = (if t \<noteq> [] \<and> hd t \<in> {CHR ''-'', CHR ''+''} then tl t else t);
          v = int (read_nat (takeWhile is_digit u))
      in if neg then max (- (2 ^ 63)) (- v) else min (2 ^ 63 - 1) v)"

text \<open>\<^verbatim>\<open>std::string::find\<close>: the first position of the pattern, \<open>None\<close> for \<^verbatim>\<open>npos\<close>.\<close>

fun str_find :: "string \<Rightarrow> string \<Rightarrow> nat option" where
  "str_find pat [] = (if pat = [] then Some 0 else None)"
| "str_find pat (c # s) =
     (if take (length pat) (c # s) = pat then Some 0 else map_option Suc (str_find pat s))"

text \<open>\<^verbatim>\<open>s.replace(pos, len, by)\<close> for a position inside the string.\<close>

definition str_replace :: "string \<Rightarrow> nat \<Rightarrow> nat \<Rightarrow> string \<Rightarrow> string" where
  "str_replace s pos len by_s = take pos s @ by_s @ drop (pos + len) s"

lemma str_find_Some:
  "str_find pat s = Some i \<Longrightarrow> s = take i s @ pat @ drop (i + length pat) s"
proof (induction pat s arbitrary: i rule: str_find.induct)
  case (1 pat)
  then show ?case by (auto split: if_splits)
next
  case (2 pat c s)
  show ?case
  proof (cases "take (length pat) (c # s) = pat")
    case True
    with "2.prems" have "i = 0" by simp
    then show ?thesis using True by (metis append_Nil append_take_drop_id add_0 take0)
  next
    case False
    with "2.prems" obtain j where "i = Suc j" "str_find pat s = Some j" by auto
    with "2.IH" [OF False] show ?thesis by simp
  qed
qed

lemma str_find_bound: "str_find pat s = Some i \<Longrightarrow> i + length pat \<le> length s"
proof (induction pat s arbitrary: i rule: str_find.induct)
  case (2 pat c s)
  then show ?case
  proof (cases "take (length pat) (c # s) = pat")
    case True
    then have "length pat \<le> length (c # s)"
      by (metis length_take min.cobounded1)
    with True "2.prems" show ?thesis by simp
  qed fastforce
qed (auto split: if_splits)

text \<open>No earlier occurrence.\<close>

lemma str_find_first:
  "str_find pat s = Some i \<Longrightarrow> j < i \<Longrightarrow> take (length pat) (drop j s) \<noteq> pat"
proof (induction pat s arbitrary: i j rule: str_find.induct)
  case (1 pat)
  then show ?case by (auto split: if_splits)
next
  case (2 pat c s)
  show ?case
  proof (cases "take (length pat) (c # s) = pat")
    case False
    with "2.prems" obtain i' where "i = Suc i'" "str_find pat s = Some i'" by auto
    with "2.IH" [OF False] "2.prems" False show ?thesis by (cases j) auto
  qed (use "2.prems" in auto)
qed

text \<open>\<^verbatim>\<open>std::setw\<close> with \<^verbatim>\<open>std::setfill\<close>, aligned right (the default) and left.\<close>

definition setw_right :: "char \<Rightarrow> nat \<Rightarrow> string \<Rightarrow> string" where
  "setw_right fill w s = replicate (w - length s) fill @ s"

definition setw_left :: "char \<Rightarrow> nat \<Rightarrow> string \<Rightarrow> string" where
  "setw_left fill w s = s @ replicate (w - length s) fill"

lemma setw_right_length [simp]: "length (setw_right fill w s) = max w (length s)"
  by (simp add: setw_right_def)

lemma setw_left_length [simp]: "length (setw_left fill w s) = max w (length s)"
  by (simp add: setw_left_def)

end
