(* ===== verification/Shared_Variables.thy ===== *)
theory Shared_Variables
  imports Prelude
begin

text \<open>
  \<^verbatim>\<open>src/shared_variables.cpp\<close>: the variables that instructions share, addressed by an index
  (the key) that \<^verbatim>\<open>GetKey\<close> assigns to a name in a chain of thread scopes.

  \<^verbatim>\<open>variables_\<close> is a \<^verbatim>\<open>std::vector\<close>, and the factory keeps pointers into it
  (\<^verbatim>\<open>GetPointer\<close>), so the model keeps what decides whether such a pointer is still valid: the
  capacity, and a number for the buffer in use, which changes when a growth beyond the
  capacity moves the elements. The capacity doubles, as in libstdc++ and libc++. Keys are
  indices below the size of the vector, which is far below the range of \<^verbatim>\<open>int\<close>.

  The locale \<open>scoped_store\<close> is the interface the rest of the program relies on; it is
  interpreted on the model at the end.
\<close>

section \<open>The model\<close>

type_synonym mutex_bytes = "8 word list"

datatype variant = VInt int | VString string | VMutex mutex_bytes | VList "string list"

record shared_vars =
  sv_variables :: "variant list"
  sv_capacity :: nat
  sv_buffer :: nat
  sv_keys :: "int \<rightharpoonup> (string \<rightharpoonup> int)"

definition empty_vars :: shared_vars where
  "empty_vars = \<lparr>sv_variables = [], sv_capacity = 0, sv_buffer = 0, sv_keys = Map.empty\<rparr>"

text \<open>The scopes are searched from the last thread id to the first.\<close>

fun find_key :: "(int \<rightharpoonup> (string \<rightharpoonup> int)) \<Rightarrow> int list \<Rightarrow> string \<Rightarrow> int option" where
  "find_key keys [] name = None"
| "find_key keys (t # ts) name =
     (case keys t of
        None \<Rightarrow> find_key keys ts name
      | Some scope \<Rightarrow> (case scope name of None \<Rightarrow> find_key keys ts name | Some k \<Rightarrow> Some k))"

definition Exists :: "int list \<Rightarrow> string \<Rightarrow> shared_vars \<Rightarrow> bool" where
  "Exists thread_ids name sv \<longleftrightarrow> find_key (sv_keys sv) (rev thread_ids) name \<noteq> None"

text \<open>\<^verbatim>\<open>variables_.resize(variables_.size() + 1)\<close>: a default \<^verbatim>\<open>Variant\<close> holds \<^verbatim>\<open>int\<close> 0.\<close>

definition grow_variables :: "shared_vars \<Rightarrow> shared_vars" where
  "grow_variables sv =
     (let n = length (sv_variables sv); sv' = sv\<lparr>sv_variables := sv_variables sv @ [VInt 0]\<rparr>
      in if n < sv_capacity sv then sv'
         else sv'\<lparr>sv_capacity := max (n + 1) (2 * n), sv_buffer := Suc (sv_buffer sv)\<rparr>)"

definition insert_key :: "int \<Rightarrow> string \<Rightarrow> int \<Rightarrow> shared_vars \<Rightarrow> shared_vars" where
  "insert_key t name k sv =
     (let scope = (case sv_keys sv t of None \<Rightarrow> Map.empty | Some m \<Rightarrow> m)
      in sv\<lparr>sv_keys := (sv_keys sv)(t \<mapsto> (case scope name of None \<Rightarrow> scope(name \<mapsto> k)
                                                 | Some _ \<Rightarrow> scope))\<rparr>)"

definition GetKey :: "int list \<Rightarrow> string \<Rightarrow> (shared_vars, int) comp" where
  "GetKey thread_ids name sv =
     (case find_key (sv_keys sv) (rev thread_ids) name of
        Some k \<Rightarrow> (Inr k, sv)
      | None \<Rightarrow>
          if thread_ids = [] then (Inl (Undefined EmptyContainer), sv)
          else let key = int (length (sv_variables sv))
               in (Inr key, grow_variables (insert_key (last thread_ids) name key sv)))"

definition no_such_variable :: err where
  "no_such_variable = Logf ''Shared variable with the provided key does not exist''"

definition valid_key :: "shared_vars \<Rightarrow> int \<Rightarrow> bool" where
  "valid_key sv key \<longleftrightarrow> 0 \<le> key \<and> key < int (length (sv_variables sv))"

definition Get :: "int \<Rightarrow> (shared_vars, variant) comp" where
  "Get key sv =
     (if \<not> valid_key sv key then (Inl no_such_variable, sv)
      else (Inr (sv_variables sv ! nat key), sv))"

text \<open>A pointer into \<^verbatim>\<open>variables_\<close>: the buffer it points into and the index.\<close>

type_synonym var_ptr = "nat \<times> int"

definition GetPointer :: "int \<Rightarrow> (shared_vars, var_ptr) comp" where
  "GetPointer key sv =
     (if \<not> valid_key sv key then (Inl no_such_variable, sv)
      else (Inr (sv_buffer sv, key), sv))"

definition Get_named :: "int list \<Rightarrow> string \<Rightarrow> (shared_vars, variant) comp" where
  "Get_named thread_ids name = bindC (GetKey thread_ids name) Get"

definition SetVar :: "int \<Rightarrow> variant \<Rightarrow> (shared_vars, unit) comp" where
  "SetVar key value sv =
     (if \<not> valid_key sv key then (Inl no_such_variable, sv)
      else (Inr (), sv\<lparr>sv_variables := (sv_variables sv)[nat key := value]\<rparr>))"

definition Set_named :: "int list \<Rightarrow> string \<Rightarrow> variant \<Rightarrow> (shared_vars, unit) comp" where
  "Set_named thread_ids name value = bindC (GetKey thread_ids name) (\<lambda>k. SetVar k value)"

definition ClearKeys :: "shared_vars \<Rightarrow> shared_vars" where
  "ClearKeys sv = sv\<lparr>sv_keys := Map.empty\<rparr>"

text \<open>
  \<^verbatim>\<open>std::get<T>\<close> throws on another alternative; \<^verbatim>\<open>std::get_if\<close> on a pointer gives a null
  pointer. Using a pointer whose buffer is gone is undefined.
\<close>

definition get_int :: "variant \<Rightarrow> int res" where
  "get_int v = (case v of VInt i \<Rightarrow> Inr i | _ \<Rightarrow> Inl Bad_variant_access)"

definition get_string :: "variant \<Rightarrow> string res" where
  "get_string v = (case v of VString s \<Rightarrow> Inr s | _ \<Rightarrow> Inl Bad_variant_access)"

definition get_if_mutex :: "var_ptr \<Rightarrow> (shared_vars, var_ptr option) comp" where
  "get_if_mutex p sv =
     (if fst p \<noteq> sv_buffer sv \<or> \<not> valid_key sv (snd p) then (Inl (Undefined StalePointer), sv)
      else case sv_variables sv ! nat (snd p) of
             VMutex _ \<Rightarrow> (Inr (Some p), sv)
           | _ \<Rightarrow> (Inr None, sv))"

definition ptr_live :: "shared_vars \<Rightarrow> var_ptr \<Rightarrow> bool" where
  "ptr_live sv p \<longleftrightarrow> fst p = sv_buffer sv \<and> valid_key sv (snd p)"

section \<open>The interface\<close>

locale scoped_store =
  fixes resolve :: "int list \<Rightarrow> string \<Rightarrow> ('s, int) comp"
    and fetch :: "int \<Rightarrow> ('s, 'v) comp"
    and store :: "int \<Rightarrow> 'v \<Rightarrow> ('s, unit) comp"
    and inv :: "'s \<Rightarrow> bool"
    and valid :: "'s \<Rightarrow> int \<Rightarrow> bool"
  assumes resolve_valid:
      "inv s \<Longrightarrow> ids \<noteq> [] \<Longrightarrow> \<exists>k t. resolve ids n s = (Inr k, t) \<and> inv t \<and> valid t k"
    and resolve_keeps:
      "inv s \<Longrightarrow> ids \<noteq> [] \<Longrightarrow> resolve ids n s = (Inr k, t) \<Longrightarrow> valid s j \<Longrightarrow>
         valid t j \<and> fst (fetch j t) = fst (fetch j s)"
    and resolve_again:
      "inv s \<Longrightarrow> ids \<noteq> [] \<Longrightarrow> resolve ids n s = (Inr k, t) \<Longrightarrow> resolve ids n t = (Inr k, t)"
    and fetch_valid: "inv s \<Longrightarrow> valid s k \<Longrightarrow> \<exists>v. fetch k s = (Inr v, s)"
    and store_valid:
      "inv s \<Longrightarrow> valid s k \<Longrightarrow>
         \<exists>t. store k v s = (Inr (), t) \<and> inv t \<and> valid t = valid s \<and> fetch k t = (Inr v, t) \<and>
             (\<forall>j. j \<noteq> k \<longrightarrow> fst (fetch j t) = fst (fetch j s)) \<and>
             (\<forall>ids n. fst (resolve ids n t) = fst (resolve ids n s)) \<and>
             (\<forall>ids n j. resolve ids n s = (Inr j, s) \<longrightarrow> resolve ids n t = (Inr j, t))"
begin

definition store_named :: "int list \<Rightarrow> string \<Rightarrow> 'v \<Rightarrow> ('s, unit) comp" where
  "store_named ids n v = bindC (resolve ids n) (\<lambda>k. store k v)"

definition fetch_named :: "int list \<Rightarrow> string \<Rightarrow> ('s, 'v) comp" where
  "fetch_named ids n = bindC (resolve ids n) fetch"

text \<open>A named variable holds what was last stored under its name.\<close>

lemma named_roundtrip:
  assumes "inv s" and "ids \<noteq> []"
  shows "\<exists>t. store_named ids n v s = (Inr (), t) \<and> inv t \<and> fetch_named ids n t = (Inr v, t)"
proof -
  obtain k u where k: "resolve ids n s = (Inr k, u)" "inv u" "valid u k"
    using resolve_valid [OF assms] by blast
  have again: "resolve ids n u = (Inr k, u)" using assms k(1) by (rule resolve_again)
  obtain t where t: "store k v u = (Inr (), t)" "inv t" "fetch k t = (Inr v, t)"
      "resolve ids n u = (Inr k, u) \<longrightarrow> resolve ids n t = (Inr k, t)"
    using store_valid [OF k(2,3)] by blast
  then show ?thesis
    using k again by (simp add: store_named_def fetch_named_def bindC_def)
qed

text \<open>Storing under one name leaves every variable with another key alone.\<close>

lemma named_frame:
  assumes "inv s" and "ids \<noteq> []" and "resolve ids n s = (Inr k, s)" and "j \<noteq> k" and "valid s j"
  shows "\<exists>t. store_named ids n v s = (Inr (), t) \<and> fst (fetch j t) = fst (fetch j s)"
proof -
  have "valid s k" using resolve_valid [OF assms(1,2), of n] assms(3) by simp
  then obtain t where "store k v s = (Inr (), t)" "fst (fetch j t) = fst (fetch j s)"
    using store_valid [OF assms(1)] assms(4) by blast
  then show ?thesis using assms(3) by (simp add: store_named_def bindC_def)
qed

end

section \<open>The invariant, and that every operation keeps it\<close>

text \<open>
  Every registered key is an index of the vector, two entries never share a key, and the
  vector fits its buffer.
\<close>

definition key_of :: "shared_vars \<Rightarrow> int \<times> string \<Rightarrow> int option" where
  "key_of sv p = (case sv_keys sv (fst p) of None \<Rightarrow> None | Some m \<Rightarrow> m (snd p))"

definition vars_ok :: "shared_vars \<Rightarrow> bool" where
  "vars_ok sv \<longleftrightarrow>
     (\<forall>p k. key_of sv p = Some k \<longrightarrow> valid_key sv k) \<and>
     (\<forall>p q k. key_of sv p = Some k \<longrightarrow> key_of sv q = Some k \<longrightarrow> p = q) \<and>
     length (sv_variables sv) \<le> sv_capacity sv"

lemma find_key_Cons:
  "find_key (sv_keys sv) (t # ts) name =
     (case key_of sv (t, name) of None \<Rightarrow> find_key (sv_keys sv) ts name | Some k \<Rightarrow> Some k)"
  by (simp add: key_of_def split: option.splits)

lemma find_key_append:
  "find_key keys (xs @ ys) name =
     (case find_key keys xs name of None \<Rightarrow> find_key keys ys name | Some k \<Rightarrow> Some k)"
  by (induction xs) (auto split: option.splits)

lemma find_key_Some:
  "find_key (sv_keys sv) ts name = Some k \<Longrightarrow> \<exists>t \<in> set ts. key_of sv (t, name) = Some k"
  by (induction ts) (auto simp: find_key_Cons simp del: find_key.simps(2) split: option.splits)

lemma find_key_cong:
  "(\<And>t. t \<in> set ts \<Longrightarrow> key_of sv' (t, name) = key_of sv (t, name)) \<Longrightarrow>
     find_key (sv_keys sv') ts name = find_key (sv_keys sv) ts name"
  by (induction ts) (auto simp: find_key_Cons simp del: find_key.simps(2) split: option.splits)

lemma find_key_None:
  "find_key (sv_keys sv) ts name = None \<longleftrightarrow> (\<forall>t \<in> set ts. key_of sv (t, name) = None)"
  by (induction ts) (auto simp: key_of_def split: option.splits)

lemma key_of_insert:
  "key_of sv (t, name) = None \<Longrightarrow>
     key_of (insert_key t name k sv) p = (if p = (t, name) then Some k else key_of sv p)"
  by (cases p) (auto simp: key_of_def insert_key_def Let_def split: option.splits)

lemma insert_key_simps [simp]:
  "sv_variables (insert_key t name k sv) = sv_variables sv"
  "sv_capacity (insert_key t name k sv) = sv_capacity sv"
  "sv_buffer (insert_key t name k sv) = sv_buffer sv"
  by (simp_all add: insert_key_def Let_def)

lemma grow_simps [simp]:
  "sv_variables (grow_variables sv) = sv_variables sv @ [VInt 0]"
  "sv_keys (grow_variables sv) = sv_keys sv"
  by (simp_all add: grow_variables_def Let_def)

lemma key_of_grow: "key_of (grow_variables sv) p = key_of sv p"
  by (simp add: key_of_def)

lemma grow_capacity:
  "length (sv_variables sv) \<le> sv_capacity sv \<Longrightarrow>
     Suc (length (sv_variables sv)) \<le> sv_capacity (grow_variables sv)"
  by (simp add: grow_variables_def Let_def)

lemma valid_key_simps [simp]:
  "valid_key (insert_key t name k sv) j = valid_key sv j"
  "valid_key (grow_variables sv) j \<longleftrightarrow> 0 \<le> j \<and> j \<le> int (length (sv_variables sv))"
  by (auto simp: valid_key_def)

lemma empty_vars_ok: "vars_ok empty_vars"
  by (simp add: vars_ok_def empty_vars_def key_of_def)

lemma GetKey_cases:
  assumes "thread_ids \<noteq> []"
  obtains (found) k where "find_key (sv_keys sv) (rev thread_ids) name = Some k"
      "GetKey thread_ids name sv = (Inr k, sv)"
  | (fresh) k where "\<forall>t \<in> set thread_ids. key_of sv (t, name) = None"
      "k = int (length (sv_variables sv))"
      "GetKey thread_ids name sv =
         (Inr k, grow_variables (insert_key (last thread_ids) name k sv))"
proof (cases "find_key (sv_keys sv) (rev thread_ids) name")
  case None
  then have "\<forall>t \<in> set thread_ids. key_of sv (t, name) = None" by (simp add: find_key_None)
  moreover have "GetKey thread_ids name sv =
      (Inr (int (length (sv_variables sv))), grow_variables
        (insert_key (last thread_ids) name (int (length (sv_variables sv))) sv))"
    using None assms by (simp add: GetKey_def Let_def)
  ultimately show ?thesis using fresh by blast
next
  case (Some k)
  then show ?thesis using found by (simp add: GetKey_def)
qed

lemma register_ok:
  assumes "vars_ok sv" and "key_of sv (t, name) = None"
  shows "vars_ok (grow_variables (insert_key t name (int (length (sv_variables sv))) sv))"
  unfolding vars_ok_def
proof (intro conjI allI impI)
  let ?n = "int (length (sv_variables sv))"
  let ?sv = "grow_variables (insert_key t name ?n sv)"
  have key: "key_of ?sv p = (if p = (t, name) then Some ?n else key_of sv p)" for p
    using key_of_insert [OF assms(2)] by (simp add: key_of_grow)
  have old: "k < ?n" "0 \<le> k" if "key_of sv p = Some k" for p k
    using that assms(1) unfolding vars_ok_def valid_key_def by blast+
  show "valid_key ?sv k" if "key_of ?sv p = Some k" for p k
    using that old by (cases "p = (t, name)") (auto simp: key order_less_imp_le)
  show "p = q" if "key_of ?sv p = Some k" "key_of ?sv q = Some k" for p q k
  proof -
    have inj: "p = q" if "key_of sv p = Some k" "key_of sv q = Some k"
      using that assms(1) unfolding vars_ok_def by blast
    show ?thesis using that inj old(1) [of p] old(1) [of q] by (auto simp: key split: if_splits)
  qed
  show "length (sv_variables ?sv) \<le> sv_capacity ?sv"
    using assms(1) grow_capacity [of "insert_key t name ?n sv"] by (simp add: vars_ok_def)
qed

text \<open>
  Resolving a name gives a key inside the vector and keeps the invariant: every registered
  key is an index, and no two names of any scopes share one.
\<close>

lemma GetKey_valid:
  assumes "vars_ok sv" and "thread_ids \<noteq> []"
  shows "\<exists>k sv'. GetKey thread_ids name sv = (Inr k, sv') \<and> vars_ok sv' \<and> valid_key sv' k \<and>
           take (length (sv_variables sv)) (sv_variables sv') = sv_variables sv"
  using assms(2)
proof (cases rule: GetKey_cases [of thread_ids sv name])
  case (found k)
  then have "valid_key sv k"
    using assms(1) find_key_Some unfolding vars_ok_def by blast
  then show ?thesis using found assms(1) by simp
next
  case (fresh k)
  then show ?thesis using assms register_ok [of sv "last thread_ids" name] by simp
qed

lemma SetVar_ok: "vars_ok sv \<Longrightarrow> vars_ok (snd (SetVar k v sv))"
  by (auto simp: SetVar_def vars_ok_def valid_key_def key_of_def)

lemma Get_keeps [simp]: "snd (Get k sv) = sv"
  by (simp add: Get_def)

lemma ClearKeys_ok: "vars_ok sv \<Longrightarrow> vars_ok (ClearKeys sv)"
  by (simp add: vars_ok_def ClearKeys_def key_of_def)

section \<open>The interface holds\<close>

lemma GetKey_again:
  assumes "thread_ids \<noteq> []" and "GetKey thread_ids name sv = (Inr k, sv')"
  shows "GetKey thread_ids name sv' = (Inr k, sv')"
  using assms(1)
proof (cases rule: GetKey_cases [of thread_ids sv name])
  case (found j)
  then show ?thesis using assms(2) by simp
next
  case (fresh j)
  then have sv': "sv' = grow_variables (insert_key (last thread_ids) name j sv)" and "k = j"
    using assms(2) by simp_all
  have "key_of sv (last thread_ids, name) = None" using fresh(1) assms(1) by simp
  then have "key_of sv' (last thread_ids, name) = Some k"
    by (simp add: sv' \<open>k = j\<close> key_of_grow key_of_insert)
  then have "find_key (sv_keys sv') (rev thread_ids) name = Some k"
    using assms(1)
    by (cases thread_ids rule: rev_cases) (simp_all add: find_key_Cons del: find_key.simps(2))
  then show ?thesis by (simp add: GetKey_def)
qed

lemma GetKey_SetVar:
  "GetKey ids n (sv\<lparr>sv_variables := (sv_variables sv)[i := v]\<rparr>) =
     (case GetKey ids n sv of (r, t) \<Rightarrow> (r, t\<lparr>sv_variables := (sv_variables t)[i := v]\<rparr>))"
  if "i < length (sv_variables sv)"
  using that
  by (auto simp: GetKey_def grow_variables_def insert_key_def Let_def list_update_append
      split: option.splits)

interpretation vars: scoped_store GetKey Get SetVar vars_ok valid_key
proof (unfold_locales, goal_cases)
  case (1 s ids n)
  then show ?case using GetKey_valid by blast
next
  case (2 s ids n k t j)
  show ?case
    using \<open>ids \<noteq> []\<close> 2
    by (cases rule: GetKey_cases [of ids s n]) (auto simp: Get_def valid_key_def nth_append)
next
  case (3 s ids n k t)
  then show ?case using GetKey_again by blast
next
  case (4 s k)
  then show ?case by (simp add: Get_def)
next
  case (5 s k v)
  then have k: "nat k < length (sv_variables s)" "0 \<le> k" by (auto simp: valid_key_def)
  let ?t = "s\<lparr>sv_variables := (sv_variables s)[nat k := v]\<rparr>"
  have "fst (Get j ?t) = fst (Get j s)" if "j \<noteq> k" for j
    using that k by (auto simp: Get_def valid_key_def nth_list_update)
  moreover have "fst (GetKey ids n ?t) = fst (GetKey ids n s)" for ids n
    by (simp add: GetKey_SetVar k split: prod.splits)
  moreover have "GetKey ids n ?t = (Inr j, ?t)" if "GetKey ids n s = (Inr j, s)" for ids n j
    using that by (simp add: GetKey_SetVar k)
  moreover have "vars_ok ?t" using SetVar_ok [of s k v] 5 by (simp add: SetVar_def)
  ultimately show ?case
    using 5 k by (auto simp: SetVar_def Get_def valid_key_def fun_eq_iff)
qed

lemma store_named_eq: "vars.store_named = Set_named"
  by (simp add: fun_eq_iff vars.store_named_def Set_named_def)

lemma fetch_named_eq: "vars.fetch_named = Get_named"
  by (simp add: fun_eq_iff vars.fetch_named_def Get_named_def)

text \<open>A named variable holds what was last stored under its name.\<close>

theorem Set_Get_named:
  assumes "vars_ok sv" and "thread_ids \<noteq> []"
  shows "\<exists>sv'. Set_named thread_ids name v sv = (Inr (), sv') \<and> vars_ok sv' \<and>
           Get_named thread_ids name sv' = (Inr v, sv')"
  using vars.named_roundtrip [OF assms] by (simp add: store_named_eq fetch_named_eq)

theorem Set_Get_named_witness:
  "\<exists>sv'. Set_named [0] ''list'' (VList [''a'']) empty_vars = (Inr (), sv') \<and> vars_ok sv' \<and>
     Get_named [0] ''list'' sv' = (Inr (VList [''a'']), sv')"
  by (rule Set_Get_named) (simp_all add: empty_vars_ok)

section \<open>Scoping\<close>

text \<open>
  Thread ids form a tree: a scope always appears below the same ancestors. Two chains are
  consistent when the last scope of one, if it occurs in the other, occurs there with the same
  ancestors.
\<close>

definition consistent_chain :: "int list \<Rightarrow> int list \<Rightarrow> bool" where
  "consistent_chain ids' ids \<longleftrightarrow>
     (last ids' \<in> set ids \<longrightarrow> (\<exists>post. ids = ids' @ post \<and> last ids' \<notin> set post))"

text \<open>
  C20: once a name is resolved for a chain of threads it keeps its key, whatever any other
  thread registers later.
\<close>

theorem GetKey_stable:
  assumes "vars_ok sv" and "ids \<noteq> []" and "ids' \<noteq> []" and "consistent_chain ids' ids"
    and "find_key (sv_keys sv) (rev ids) name = Some k"
  shows "\<exists>j sv'. GetKey ids' name' sv = (Inr j, sv') \<and> GetKey ids name sv' = (Inr k, sv')"
  using assms(3)
proof (cases rule: GetKey_cases [of ids' sv name'])
  case (found j)
  then show ?thesis using assms by (simp add: GetKey_def)
next
  case (fresh j)
  let ?u = "last ids'"
  let ?sv = "grow_variables (insert_key ?u name' j sv)"
  have none: "key_of sv (?u, name') = None" using fresh(1) assms(3) by simp
  have key: "key_of ?sv p = (if p = (?u, name') then Some j else key_of sv p)" for p
    using key_of_insert [OF none] by (simp add: key_of_grow)
  have "find_key (sv_keys ?sv) (rev ids) name = Some k"
  proof (cases "name = name' \<and> ?u \<in> set ids")
    case False
    have "find_key (sv_keys ?sv) (rev ids) name = find_key (sv_keys sv) (rev ids) name"
      by (rule find_key_cong) (use False in \<open>auto simp: key\<close>)
    then show ?thesis using assms(5) by simp
  next
    case True
    then obtain post where p: "ids = ids' @ post" "?u \<notin> set post"
      using assms(4) by (auto simp: consistent_chain_def)
    have "find_key (sv_keys sv) (rev ids') name = None"
      using fresh(1) True by (simp add: find_key_None)
    then have "find_key (sv_keys sv) (rev post) name = Some k"
      using assms(5) p(1) by (simp add: find_key_append split: option.splits)
    moreover have "find_key (sv_keys ?sv) (rev post) name = find_key (sv_keys sv) (rev post) name"
      using p(2) by (intro find_key_cong) (auto simp: key)
    ultimately show ?thesis using p(1) by (simp add: find_key_append)
  qed
  then show ?thesis using fresh by (simp add: GetKey_def)
qed

theorem GetKey_stable_witness:
  "\<exists>j sv'. GetKey [0, 1] ''x'' (snd (GetKey [0] ''fd'' empty_vars)) = (Inr j, sv') \<and>
     GetKey [0] ''fd'' sv' = (Inr 0, sv')"
proof (rule GetKey_stable)
  have G: "GetKey [0] ''fd'' empty_vars =
      (Inr 0, grow_variables (insert_key 0 ''fd'' 0 empty_vars))"
    by (simp add: GetKey_def empty_vars_def)
  show "vars_ok (snd (GetKey [0] ''fd'' empty_vars))"
    using GetKey_valid [OF empty_vars_ok, of "[0]" "''fd''"] by auto
  show "find_key (sv_keys (snd (GetKey [0] ''fd'' empty_vars))) (rev [0]) ''fd'' = Some 0"
    unfolding G by (simp add: insert_key_def empty_vars_def)
qed (simp_all add: consistent_chain_def)

section \<open>Pointers into the vector\<close>

text \<open>
  C21: a pointer from \<^verbatim>\<open>GetPointer\<close> stays usable until a registration outgrows the buffer,
  and is dangling from then on: registering a new name when the buffer is full invalidates
  every pointer taken before.
\<close>

theorem GetPointer_lifetime:
  assumes "vars_ok sv" and "ids \<noteq> []" and "GetPointer key sv = (Inr p, sv)"
    and "GetKey ids name sv = (Inr k, sv')"
  shows "ptr_live sv p \<and>
         (ptr_live sv' p \<longleftrightarrow>
            find_key (sv_keys sv) (rev ids) name \<noteq> None \<or> length (sv_variables sv) < sv_capacity sv)"
proof -
  have p: "valid_key sv key" "p = (sv_buffer sv, key)"
    using assms(3) by (auto simp: GetPointer_def split: if_splits)
  have live: "ptr_live sv p" using p by (simp add: ptr_live_def)
  show ?thesis
    using assms(2)
  proof (cases rule: GetKey_cases [of ids sv name])
    case (found j)
    then show ?thesis using assms(4) live by simp
  next
    case (fresh j)
    then have "sv' = grow_variables (insert_key (last ids) name j sv)"
      using assms(4) by simp
    moreover have "find_key (sv_keys sv) (rev ids) name = None"
      using fresh(1) by (simp add: find_key_None)
    ultimately show ?thesis
      using p live by (auto simp: ptr_live_def grow_variables_def Let_def valid_key_def)
  qed
qed

theorem GetPointer_lifetime_witness:
  "let sv = snd (GetKey [0] ''m'' empty_vars)
   in ptr_live sv (1, 0) \<and> \<not> ptr_live (snd (GetKey [0] ''other'' sv)) (1, 0)"
proof -
  let ?sv = "snd (GetKey [0] ''m'' empty_vars)"
  have ok: "vars_ok ?sv" using GetKey_valid [OF empty_vars_ok, of "[0]" "''m''"] by auto
  have G: "?sv = grow_variables (insert_key 0 ''m'' 0 empty_vars)"
    by (simp add: GetKey_def empty_vars_def)
  have "GetPointer 0 ?sv = (Inr (1, 0), ?sv)"
    unfolding G by (simp add: GetPointer_def grow_variables_def empty_vars_def insert_key_def valid_key_def)
  moreover obtain k sv' where k: "GetKey [0] ''other'' ?sv = (Inr k, sv')"
    using GetKey_valid [OF ok, of "[0]" "''other''"] by auto
  ultimately have "ptr_live ?sv (1, 0) \<and>
      (ptr_live sv' (1, 0) \<longleftrightarrow> find_key (sv_keys ?sv) (rev [0]) ''other'' \<noteq> None \<or>
         length (sv_variables ?sv) < sv_capacity ?sv)"
    by (intro GetPointer_lifetime [OF ok]) simp_all
  moreover have "find_key (sv_keys ?sv) (rev [0]) ''other'' = None"
      "\<not> length (sv_variables ?sv) < sv_capacity ?sv"
    unfolding G by (simp_all add: grow_variables_def empty_vars_def insert_key_def)
  ultimately show ?thesis unfolding Let_def k snd_conv by blast
qed

end
