(* ===== verification/Float64.thy ===== *)
theory Float64
  imports Prelude Complex_Main "HOL-Library.Log_Nat"
begin

text \<open>
  The type \<^verbatim>\<open>double\<close> of the sources: IEEE 754 binary64, round to nearest with ties to even,
  which is what every platform Dittosuite builds for uses. A finite double is the rational
  number it denotes; \<open>fl\<close> rounds a rational to the nearest representable one, with the 53-bit
  significand and the subnormal range; \<open>f64_of_rat\<close> adds the overflow to infinity. The sign
  of a zero and the payload of a NaN are not kept: nothing in the sources reads them.

  What the rest of the development uses: rounding is monotone, it leaves representable
  numbers alone (in particular the integers up to \<open>2^53\<close>), so a representable bound of a
  number is a bound of its rounding.
\<close>

section \<open>Rounding a rational to an integer\<close>

definition rnd_even :: "rat \<Rightarrow> int" where
  "rnd_even x = (let f = \<lfloor>x\<rfloor>; d = x - of_int f
                 in if d < 1/2 \<or> (d = 1/2 \<and> even f) then f else f + 1)"

lemma floor_rat_numeral [simp]: "\<lfloor>numeral a / numeral b :: rat\<rfloor> = numeral a div numeral b"
  by (metis floor_divide_of_int_eq of_int_numeral)

lemma rnd_even_of_int [simp]: "rnd_even (of_int n) = n"
  by (simp add: rnd_even_def)

lemma rnd_even_cases: "rnd_even x = \<lfloor>x\<rfloor> \<or> rnd_even x = \<lfloor>x\<rfloor> + 1"
  by (simp add: rnd_even_def Let_def)

lemma rnd_even_mono: "x \<le> y \<Longrightarrow> rnd_even x \<le> rnd_even y"
proof -
  assume "x \<le> y"
  then have "\<lfloor>x\<rfloor> \<le> \<lfloor>y\<rfloor>" by (rule floor_mono)
  then consider "\<lfloor>x\<rfloor> < \<lfloor>y\<rfloor>" | "\<lfloor>x\<rfloor> = \<lfloor>y\<rfloor>" by linarith
  then show ?thesis
  proof cases
    case 1
    then show ?thesis using rnd_even_cases [of x] rnd_even_cases [of y] by linarith
  next
    case 2
    with \<open>x \<le> y\<close> show ?thesis by (auto simp: rnd_even_def Let_def)
  qed
qed

lemma rnd_even_ge: "of_int n \<le> x \<Longrightarrow> n \<le> rnd_even x"
  using rnd_even_mono [of "of_int n" x] by simp

lemma rnd_even_le: "x \<le> of_int n \<Longrightarrow> rnd_even x \<le> n"
  using rnd_even_mono [of x "of_int n"] by simp

lemma rnd_even_minus: "rnd_even (- x) = - rnd_even x"
proof (cases "x = of_int \<lfloor>x\<rfloor>")
  case True
  then show ?thesis by (metis of_int_minus rnd_even_of_int)
next
  case False
  then have c: "\<lfloor>- x\<rfloor> = - \<lfloor>x\<rfloor> - 1"
    by (metis ceiling_altdef ceiling_def add.commute diff_minus_eq_add minus_add_distrib
        minus_minus uminus_add_conv_diff)
  show ?thesis
    by (auto simp: rnd_even_def Let_def c)
qed

section \<open>The binary exponent\<close>

definition ilog2 :: "rat \<Rightarrow> int" where
  "ilog2 x = (let (p, q) = quotient_of x; e = bitlen p - bitlen q
              in if 2 powi e \<le> x then e else e - 1)"

lemma ilog2_bounds:
  assumes "0 < x"
  shows "2 powi ilog2 x \<le> x" and "x < 2 powi (ilog2 x + 1)"
proof -
  obtain p q where pq: "quotient_of x = (p, q)" by (cases "quotient_of x")
  have q: "0 < q" using pq by (rule quotient_of_denom_pos)
  have x: "x = of_int p / of_int q" using pq by (rule quotient_of_div)
  with assms q have p: "0 < p" by (simp add: zero_less_divide_iff)
  define a where "a = nat (bitlen p - 1)"
  define b where "b = nat (bitlen q - 1)"
  have bp: "bitlen p = int a + 1"
    using p bitlen_bounds [of p] by (cases "bitlen p < 1") (auto simp: a_def bitlen_alt_def)
  have bq: "bitlen q = int b + 1"
    using q bitlen_bounds [of q] by (cases "bitlen q < 1") (auto simp: b_def bitlen_alt_def)
  have p1: "2 ^ a \<le> p" "p < 2 ^ (a + 1)"
    using bitlen_bounds [OF p] bp by (simp_all add: nat_add_distrib)
  have q1: "2 ^ b \<le> q" "q < 2 ^ (b + 1)"
    using bitlen_bounds [OF q] bq by (simp_all add: nat_add_distrib)
  have p2: "(2::rat) ^ a \<le> of_int p" "(of_int p :: rat) < 2 ^ (a + 1)"
    using p1 by (metis of_int_le_iff of_int_numeral of_int_power)
      (metis p1(2) of_int_less_iff of_int_numeral of_int_power)
  have q2: "(2::rat) ^ b \<le> of_int q" "(of_int q :: rat) < 2 ^ (b + 1)"
    using q1 by (metis of_int_le_iff of_int_numeral of_int_power)
      (metis q1(2) of_int_less_iff of_int_numeral of_int_power)
  have e: "bitlen p - bitlen q = int a - int b" using bp bq by simp
  have up: "x < 2 powi (int a - int b + 1)"
  proof -
    have "x < 2 ^ (a + 1) / 2 ^ b"
      unfolding x using p2 q2 q p by (intro frac_less) auto
    also have "\<dots> = 2 powi (int a - int b + 1)"
      by (simp add: power_int_add power_int_diff)
    finally show ?thesis .
  qed
  have low: "2 powi (int a - int b - 1) \<le> x"
  proof -
    have "(2::rat) powi (int a - int b - 1) = 2 ^ a / 2 ^ (b + 1)"
      by (simp add: power_int_diff)
    also have "\<dots> \<le> x"
      unfolding x using p2 q2 q p by (intro frac_le) auto
    finally show ?thesis .
  qed
  show "2 powi ilog2 x \<le> x" and "x < 2 powi (ilog2 x + 1)"
    using up low by (auto simp: ilog2_def pq e Let_def)
qed

lemma powi_less_iff: "(2::rat) powi a < 2 powi b \<longleftrightarrow> a < b"
  by (metis linorder_not_less one_less_numeral_iff order_less_irrefl order_less_le
      power_int_strict_increasing semiring_norm(76))

lemma powi_le_iff: "(2::rat) powi a \<le> 2 powi b \<longleftrightarrow> a \<le> b"
  using powi_less_iff linorder_not_less by metis

lemma ilog2_less: "0 < x \<Longrightarrow> x < 2 powi k \<Longrightarrow> ilog2 x < k"
  using ilog2_bounds(1) [of x] powi_less_iff [of "ilog2 x" k] by (metis order_le_less_trans)

lemma ilog2_mono: "0 < x \<Longrightarrow> x \<le> y \<Longrightarrow> ilog2 x \<le> ilog2 y"
  using ilog2_less [of x "ilog2 y + 1"] ilog2_bounds(2) [of y] by simp

section \<open>Rounding to 53 bits\<close>

definition fl_expo :: "rat \<Rightarrow> int" where
  "fl_expo x = max (ilog2 \<bar>x\<bar> - 52) (- 1074)"

definition fl :: "rat \<Rightarrow> rat" where
  "fl x = (if x = 0 then 0
           else of_int (rnd_even (x / 2 powi fl_expo x)) * 2 powi fl_expo x)"

definition representable :: "rat \<Rightarrow> bool" where
  "representable r \<longleftrightarrow> (\<exists>m e. \<bar>m\<bar> \<le> 2 ^ 53 \<and> - 1074 \<le> e \<and> r = of_int m * 2 powi e)"

lemma fl_0 [simp]: "fl 0 = 0"
  by (simp add: fl_def)

lemma fl_minus: "fl (- x) = - fl x"
  by (simp add: fl_def fl_expo_def rnd_even_minus)

lemma fl_multiple: "fl_expo r \<le> e \<Longrightarrow> r = of_int m * 2 powi e \<Longrightarrow> fl r = r"
proof -
  assume e: "fl_expo r \<le> e" and r: "r = of_int m * 2 powi e"
  have "r / 2 powi fl_expo r = of_int (m * 2 ^ nat (e - fl_expo r))"
  proof -
    have "r / 2 powi fl_expo r = of_int m * 2 powi (e - fl_expo r)"
      by (subst r) (simp add: power_int_diff)
    also have "\<dots> = of_int (m * 2 ^ nat (e - fl_expo r))"
      using e by (simp add: power_int_nonneg_exp)
    finally show ?thesis .
  qed
  then have "rnd_even (r / 2 powi fl_expo r) = m * 2 ^ nat (e - fl_expo r)"
    and "r = of_int (m * 2 ^ nat (e - fl_expo r)) * 2 powi fl_expo r"
    by (simp_all only: rnd_even_of_int) (simp add: field_simps)
  then show ?thesis by (metis fl_def)
qed

lemma fl_representable: "representable r \<Longrightarrow> fl r = r"
proof -
  assume "representable r"
  then obtain m e where me: "\<bar>m\<bar> \<le> 2 ^ 53" "- 1074 \<le> e" "r = of_int m * 2 powi e"
    by (auto simp: representable_def)
  have main: "fl r = r" if *: "\<bar>m\<bar> < 2 ^ 53" "- 1074 \<le> e" "r = of_int m * 2 powi e" for m e
  proof (cases "m = 0")
    case False
    have "\<bar>r\<bar> = of_int \<bar>m\<bar> * 2 powi e" using * by (simp add: abs_mult)
    also have "\<dots> < 2 ^ 53 * 2 powi e"
      using * by (intro mult_strict_right_mono)
        (metis of_int_less_iff of_int_numeral of_int_power, simp)
    also have "\<dots> = 2 powi (e + 53)" by (simp add: power_int_add)
    finally have "ilog2 \<bar>r\<bar> < e + 53" using * False by (intro ilog2_less) auto
    then have "fl_expo r \<le> e" using * by (simp add: fl_expo_def)
    then show ?thesis using *(3) by (rule fl_multiple)
  qed (use * in simp)
  show ?thesis
  proof (cases "\<bar>m\<bar> < 2 ^ 53")
    case True
    then show ?thesis using main me by blast
  next
    case False
    then have "m = 2 ^ 53 \<or> m = - (2 ^ 53)" using me by linarith
    moreover have "(2 ^ 53 :: rat) * 2 powi e = 2 ^ 52 * 2 powi (e + 1)"
      by (simp add: power_int_add)
    ultimately have "r = of_int (2 ^ 52) * 2 powi (e + 1) \<or> r = of_int (- (2 ^ 52)) * 2 powi (e + 1)"
      using me by auto
    then show ?thesis using me main [of "2 ^ 52" "e + 1"] main [of "- (2 ^ 52)" "e + 1"] by auto
  qed
qed

lemma fl_pos_upper:
  assumes "0 < x"
  shows "fl x \<le> 2 powi (max (ilog2 x + 1) (fl_expo x))"
proof -
  let ?k = "max (ilog2 x + 1) (fl_expo x)"
  have "x / 2 powi fl_expo x \<le> of_int (2 ^ nat (?k - fl_expo x))"
  proof -
    have "x \<le> 2 powi ?k"
      using ilog2_bounds(2) [OF assms] powi_le_iff [of "ilog2 x + 1" ?k] by linarith
    then have "x / 2 powi fl_expo x \<le> 2 powi ?k / 2 powi fl_expo x"
      by (rule divide_right_mono) simp
    also have "\<dots> = 2 powi (?k - fl_expo x)" by (simp add: power_int_diff)
    finally show ?thesis by (simp add: power_int_nonneg_exp)
  qed
  then have "rnd_even (x / 2 powi fl_expo x) \<le> 2 ^ nat (?k - fl_expo x)" by (rule rnd_even_le)
  then have "of_int (rnd_even (x / 2 powi fl_expo x)) \<le> (2::rat) ^ nat (?k - fl_expo x)"
    by (metis of_int_le_iff of_int_numeral of_int_power)
  then have "fl x \<le> 2 ^ nat (?k - fl_expo x) * 2 powi fl_expo x"
    using assms by (simp add: fl_def)
  also have "\<dots> = 2 powi (?k - fl_expo x) * 2 powi fl_expo x"
    by (simp add: power_int_nonneg_exp)
  also have "\<dots> = 2 powi ?k" by (simp flip: power_int_add)
  finally show ?thesis .
qed

lemma fl_pos_lower:
  assumes "0 < x" and "fl_expo x = ilog2 x - 52"
  shows "2 powi ilog2 x \<le> fl x"
proof -
  have "of_int (2 ^ 52) \<le> x / 2 powi fl_expo x"
  proof -
    have "(2::rat) ^ 52 * 2 powi fl_expo x = 2 powi ilog2 x"
      unfolding assms(2) by (simp flip: power_int_add power_int_numeral)
    then show ?thesis using ilog2_bounds(1) [OF assms(1)] by (simp add: field_simps)
  qed
  then have "2 ^ 52 \<le> rnd_even (x / 2 powi fl_expo x)" by (rule rnd_even_ge)
  then have "(2::rat) ^ 52 \<le> of_int (rnd_even (x / 2 powi fl_expo x))"
    by (metis of_int_le_iff of_int_numeral of_int_power)
  then have "2 ^ 52 * 2 powi fl_expo x \<le> fl x" using assms(1) by (simp add: fl_def)
  moreover have "(2::rat) ^ 52 * 2 powi fl_expo x = 2 powi ilog2 x"
    unfolding assms(2) by (simp flip: power_int_add power_int_numeral)
  ultimately show ?thesis by simp
qed

lemma fl_nonneg: "0 \<le> x \<Longrightarrow> 0 \<le> fl x"
  using rnd_even_ge [of 0 "x / 2 powi fl_expo x"] by (simp add: fl_def)

lemma fl_mono_pos:
  assumes "0 < x" and "x \<le> y"
  shows "fl x \<le> fl y"
proof (cases "fl_expo x = fl_expo y")
  case True
  then have "rnd_even (x / 2 powi fl_expo x) \<le> rnd_even (y / 2 powi fl_expo y)"
    using assms by (intro rnd_even_mono) (simp add: divide_right_mono)
  then show ?thesis using assms True by (simp add: fl_def)
next
  case False
  have "ilog2 x \<le> ilog2 y" using assms by (rule ilog2_mono)
  then have lt: "fl_expo x < fl_expo y" using False assms by (auto simp: fl_expo_def)
  then have ey: "fl_expo y = ilog2 y - 52" and xy: "ilog2 x < ilog2 y"
    using assms by (auto simp: fl_expo_def split: if_splits)
  have "fl x \<le> 2 powi (max (ilog2 x + 1) (fl_expo x))" using assms by (intro fl_pos_upper)
  also have "\<dots> \<le> 2 powi ilog2 y" using lt ey xy by (simp add: powi_le_iff)
  also have "\<dots> \<le> fl y" using assms ey by (intro fl_pos_lower) auto
  finally show ?thesis .
qed

lemma fl_mono: "x \<le> y \<Longrightarrow> fl x \<le> fl y"
proof -
  assume "x \<le> y"
  then consider "0 < x" | "y < 0" | "x \<le> 0" "0 \<le> y" by linarith
  then show ?thesis
  proof cases
    case 1
    then show ?thesis using \<open>x \<le> y\<close> by (rule fl_mono_pos)
  next
    case 2
    then show ?thesis using fl_mono_pos [of "- y" "- x"] \<open>x \<le> y\<close> by (simp add: fl_minus)
  next
    case 3
    then show ?thesis using fl_nonneg [of "- x"] fl_nonneg [of y] by (simp add: fl_minus)
  qed
qed

lemma fl_ge: "representable r \<Longrightarrow> r \<le> x \<Longrightarrow> r \<le> fl x"
  using fl_mono [of r x] fl_representable [of r] by simp

lemma fl_le: "representable r \<Longrightarrow> x \<le> r \<Longrightarrow> fl x \<le> r"
  using fl_mono [of x r] fl_representable [of r] by simp

lemma representable_int: "\<bar>n\<bar> \<le> 2 ^ 53 \<Longrightarrow> representable (of_int n)"
  unfolding representable_def by (rule exI [of _ n], rule exI [of _ 0]) simp

lemma representable_fl: "representable (fl x)"
proof (cases "x = 0")
  case False
  let ?m = "rnd_even (x / 2 powi fl_expo x)"
  have xb: "\<bar>x\<bar> < 2 powi (fl_expo x + 53)"
  proof -
    have "\<bar>x\<bar> < 2 powi (ilog2 \<bar>x\<bar> + 1)" using False by (intro ilog2_bounds(2)) simp
    also have "\<dots> \<le> 2 powi (fl_expo x + 53)" unfolding powi_le_iff by (simp add: fl_expo_def)
    finally show ?thesis .
  qed
  have *: "\<bar>x / 2 powi fl_expo x\<bar> \<le> of_int (2 ^ 53)"
    using xb by (simp add: abs_divide field_simps power_int_add)
  then have "?m \<le> 2 ^ 53" by (intro rnd_even_le) linarith
  moreover have "- (2 ^ 53) \<le> ?m" using * by (intro rnd_even_ge) (unfold of_int_minus, linarith)
  ultimately show ?thesis
    unfolding representable_def using False
    by (intro exI [of _ ?m] exI [of _ "fl_expo x"]) (simp add: fl_def fl_expo_def)
next
  case True
  then show ?thesis using representable_int [of 0] by simp
qed

section \<open>Doubles\<close>

datatype f64 = Fin rat | PInf | NInf | NaN

definition f64_of_rat :: "rat \<Rightarrow> f64" where
  "f64_of_rat x = (let r = fl x
                   in if \<bar>r\<bar> < 2 ^ 1024 then Fin r else if 0 < r then PInf else NInf)"

definition f64_of_int :: "int \<Rightarrow> f64" where
  "f64_of_int n = f64_of_rat (of_int n)"

lemma f64_of_rat_bounded:
  assumes "\<bar>x\<bar> \<le> 2 ^ 1000"
  shows "f64_of_rat x = Fin (fl x)"
proof -
  have r: "representable (2 ^ 1000)"
    unfolding representable_def
    by (rule exI [of _ 1], rule exI [of _ "1000"]) simp
  have "fl x \<le> 2 ^ 1000" using assms by (intro fl_le r) simp
  moreover have "- fl x \<le> 2 ^ 1000"
    unfolding fl_minus [symmetric] using assms by (intro fl_le r) simp
  ultimately have "\<bar>fl x\<bar> \<le> 2 ^ 1000" by linarith
  also have "(2::rat) ^ 1000 < 2 ^ 1024" by (intro power_strict_increasing) simp_all
  finally show ?thesis by (simp add: f64_of_rat_def)
qed

lemma f64_of_rat_representable:
  "representable x \<Longrightarrow> \<bar>x\<bar> \<le> 2 ^ 1000 \<Longrightarrow> f64_of_rat x = Fin x"
  by (simp add: f64_of_rat_bounded fl_representable)

lemma rat_power_int_le: "\<bar>n\<bar> \<le> 2 ^ k \<Longrightarrow> \<bar>of_int n :: rat\<bar> \<le> 2 ^ k"
  by (metis of_int_abs of_int_le_iff of_int_numeral of_int_power)

lemma power_1000_ge: "k \<le> 1000 \<Longrightarrow> (2::rat) ^ k \<le> 2 ^ 1000"
  by (intro power_increasing) simp_all

lemma f64_of_int_exact: "\<bar>n\<bar> \<le> 2 ^ 53 \<Longrightarrow> f64_of_int n = Fin (of_int n)"
  unfolding f64_of_int_def
  by (intro f64_of_rat_representable representable_int)
    (auto intro: order_trans [OF rat_power_int_le [of n 53] power_1000_ge])

lemma f64_of_int_i64: "in_i64 n \<Longrightarrow> f64_of_int n = Fin (fl (of_int n))"
proof -
  assume "in_i64 n"
  then have "\<bar>n\<bar> \<le> 2 ^ 63" unfolding in_i64_def by linarith
  then show ?thesis unfolding f64_of_int_def
    by (intro f64_of_rat_bounded order_trans [OF rat_power_int_le [of n 63] power_1000_ge]) auto
qed

subsection \<open>Arithmetic and comparison\<close>

fun fadd :: "f64 \<Rightarrow> f64 \<Rightarrow> f64" where
  "fadd (Fin a) (Fin b) = f64_of_rat (a + b)"
| "fadd NaN _ = NaN"
| "fadd _ NaN = NaN"
| "fadd PInf NInf = NaN"
| "fadd NInf PInf = NaN"
| "fadd PInf _ = PInf"
| "fadd _ PInf = PInf"
| "fadd NInf _ = NInf"
| "fadd _ NInf = NInf"

fun fneg :: "f64 \<Rightarrow> f64" where
  "fneg (Fin a) = Fin (- a)"
| "fneg PInf = NInf"
| "fneg NInf = PInf"
| "fneg NaN = NaN"

definition fsub :: "f64 \<Rightarrow> f64 \<Rightarrow> f64" where
  "fsub x y = fadd x (fneg y)"

definition inf_of_sign :: "bool \<Rightarrow> f64" where
  "inf_of_sign neg = (if neg then NInf else PInf)"

fun fmul :: "f64 \<Rightarrow> f64 \<Rightarrow> f64" where
  "fmul (Fin a) (Fin b) = f64_of_rat (a * b)"
| "fmul NaN _ = NaN"
| "fmul _ NaN = NaN"
| "fmul (Fin a) y = (if a = 0 then NaN else inf_of_sign ((a < 0) \<noteq> (y = NInf)))"
| "fmul x (Fin b) = (if b = 0 then NaN else inf_of_sign ((x = NInf) \<noteq> (b < 0)))"
| "fmul x y = inf_of_sign ((x = NInf) \<noteq> (y = NInf))"

fun fdiv :: "f64 \<Rightarrow> f64 \<Rightarrow> f64" where
  "fdiv (Fin a) (Fin b) =
     (if b = 0 then (if a = 0 then NaN else inf_of_sign (a < 0)) else f64_of_rat (a / b))"
| "fdiv NaN _ = NaN"
| "fdiv _ NaN = NaN"
| "fdiv (Fin a) _ = Fin 0"
| "fdiv x (Fin b) = inf_of_sign ((x = NInf) \<noteq> (b < 0))"
| "fdiv _ _ = NaN"

instantiation f64 :: ord
begin

fun less_f64 :: "f64 \<Rightarrow> f64 \<Rightarrow> bool" where
  "less_f64 (Fin a) (Fin b) = (a < b)"
| "less_f64 NaN _ = False"
| "less_f64 _ NaN = False"
| "less_f64 NInf y = (y \<noteq> NInf)"
| "less_f64 (Fin _) PInf = True"
| "less_f64 _ _ = False"

definition less_eq_f64 :: "f64 \<Rightarrow> f64 \<Rightarrow> bool" where
  "less_eq_f64 x y \<longleftrightarrow> x \<noteq> NaN \<and> y \<noteq> NaN \<and> \<not> y < x"

instance ..

end

lemma less_f64_PInf [simp]: "\<not> PInf < x"
  by (cases x) simp_all

lemma less_eq_f64_Fin [simp]: "Fin a \<le> Fin b \<longleftrightarrow> a \<le> b"
  by (auto simp: less_eq_f64_def)

definition fin_val :: "f64 \<Rightarrow> rat" where
  "fin_val x = (case x of Fin r \<Rightarrow> r | _ \<Rightarrow> 0)"

definition is_fin :: "f64 \<Rightarrow> bool" where
  "is_fin x = (case x of Fin _ \<Rightarrow> True | _ \<Rightarrow> False)"

lemma fin_val_Fin [simp]: "fin_val (Fin r) = r"
  by (simp add: fin_val_def)

lemma is_fin_simps [simp]: "is_fin (Fin r)" "\<not> is_fin PInf" "\<not> is_fin NInf" "\<not> is_fin NaN"
  by (simp_all add: is_fin_def)

lemma is_finD: "is_fin x \<Longrightarrow> x = Fin (fin_val x)"
  by (cases x) simp_all

subsection \<open>Conversion back to integers\<close>

definition truncate_rat :: "rat \<Rightarrow> int" where
  "truncate_rat r = (if 0 \<le> r then \<lfloor>r\<rfloor> else \<lceil>r\<rceil>)"

text \<open>Converting a double to \<^verbatim>\<open>int64_t\<close> truncates; out of range it is undefined.\<close>

definition f64_to_i64 :: "f64 \<Rightarrow> int res" where
  "f64_to_i64 x =
     (case x of
        Fin r \<Rightarrow> (if in_i64 (truncate_rat r) then Inr (truncate_rat r)
                  else Inl (Undefined BadConversion))
      | _ \<Rightarrow> Inl (Undefined BadConversion))"

definition f64_to_i32 :: "f64 \<Rightarrow> int res" where
  "f64_to_i32 x =
     (case x of
        Fin r \<Rightarrow> (if in_i32 (truncate_rat r) then Inr (truncate_rat r)
                  else Inl (Undefined BadConversion))
      | _ \<Rightarrow> Inl (Undefined BadConversion))"

fun fceil :: "f64 \<Rightarrow> f64" where
  "fceil (Fin r) = Fin (of_int \<lceil>r\<rceil>)"
| "fceil x = x"

lemma truncate_rat_of_int [simp]: "truncate_rat (of_int n) = n"
  by (simp add: truncate_rat_def)

lemma f64_to_i64_int [width_simps]: "in_i64 n \<Longrightarrow> f64_to_i64 (Fin (of_int n)) = Inr n"
  by (simp add: f64_to_i64_def)

lemma truncate_rat_mono: "x \<le> y \<Longrightarrow> truncate_rat x \<le> truncate_rat y"
proof -
  assume "x \<le> y"
  moreover have "\<lceil>x\<rceil> \<le> \<lfloor>y\<rfloor>" if "x < 0" "0 \<le> y"
    using that by (metis ceiling_le_zero le_floor_iff less_eq_rat_def of_int_0 order_trans)
  ultimately show ?thesis
    by (auto simp: truncate_rat_def floor_mono ceiling_mono)
qed

subsection \<open>Square root\<close>

text \<open>
  \<^verbatim>\<open>std::sqrt\<close> is correctly rounded in IEEE 754: the operand is scaled by a power of four so
  that its integer square root has at least 55 bits, and a remainder is kept as one more half,
  which is enough to round as the exact root would.
\<close>

fun isqrt :: "nat \<Rightarrow> nat" where
  "isqrt n = (if n = 0 then 0
              else let r = 2 * isqrt (n div 4) in if (r + 1) * (r + 1) \<le> n then r + 1 else r)"

declare isqrt.simps [simp del]

lemma isqrt_0 [simp]: "isqrt 0 = 0"
  by (simp add: isqrt.simps)

lemma isqrt_bounds: "isqrt n * isqrt n \<le> n \<and> n < (isqrt n + 1) * (isqrt n + 1)"
proof (induction n rule: isqrt.induct)
  case (1 n)
  show ?case
  proof (cases "n = 0")
    case False
    let ?r = "isqrt (n div 4)"
    have "?r * ?r \<le> n div 4" "n div 4 < (?r + 1) * (?r + 1)" using 1 [OF False] by simp_all
    then have "4 * (?r * ?r) \<le> n" "n < 4 * ((?r + 1) * (?r + 1))" by linarith+
    then have "(2 * ?r) * (2 * ?r) \<le> n" "n < (2 * ?r + 2) * (2 * ?r + 2)"
      by (simp_all add: algebra_simps)
    then show ?thesis using False by (simp add: isqrt.simps [of n] Let_def)
  qed simp
qed

lemma isqrt_square: "isqrt (n * n) = n"
proof -
  have "isqrt (n * n) * isqrt (n * n) \<le> n * n" "n * n < (isqrt (n * n) + 1) * (isqrt (n * n) + 1)"
    using isqrt_bounds [of "n * n"] by simp_all
  moreover have "\<not> n < isqrt (n * n)"
    using mult_le_mono [of "n + 1" "isqrt (n * n)" "n + 1" "isqrt (n * n)"] calculation by auto
  moreover have "\<not> isqrt (n * n) + 1 \<le> n"
    using mult_le_mono [of "isqrt (n * n) + 1" n "isqrt (n * n) + 1" n] calculation(2) by linarith
  ultimately show ?thesis by linarith
qed

definition fsqrt_scale :: "rat \<Rightarrow> int" where
  "fsqrt_scale r = 55 - ilog2 r div 2"

fun fsqrt :: "f64 \<Rightarrow> f64" where
  "fsqrt (Fin r) =
     (if r < 0 then NaN else if r = 0 then Fin 0
      else let k = fsqrt_scale r;
               n = r * 4 powi k;
               s = isqrt (nat \<lfloor>n\<rfloor>);
               v = (if of_nat (s * s) = n then of_nat s else of_nat s + 1/2)
           in f64_of_rat (v / 2 powi k))"
| "fsqrt PInf = PInf"
| "fsqrt NInf = NaN"
| "fsqrt NaN = NaN"

lemma fsqrt_0 [simp]: "fsqrt (Fin 0) = Fin 0"
  by simp

lemma f64_of_rat_not_neg: "0 \<le> x \<Longrightarrow> \<exists>r. f64_of_rat x = PInf \<or> (f64_of_rat x = Fin r \<and> 0 \<le> r)"
  using fl_nonneg [of x] by (auto simp: f64_of_rat_def Let_def)

lemma fsqrt_nonneg: "0 \<le> r \<Longrightarrow> \<exists>q. fsqrt (Fin r) = PInf \<or> (fsqrt (Fin r) = Fin q \<and> 0 \<le> q)"
proof -
  assume "0 \<le> r"
  let ?k = "fsqrt_scale r"
  let ?s = "isqrt (nat \<lfloor>r * 4 powi ?k\<rfloor>)"
  let ?v = "if of_nat (?s * ?s) = r * 4 powi ?k then of_nat ?s else of_nat ?s + 1/2 :: rat"
  have "0 \<le> ?v / 2 powi ?k" by (intro divide_nonneg_pos) auto
  from f64_of_rat_not_neg [OF this] show ?thesis using \<open>0 \<le> r\<close> by (auto simp: Let_def)
qed

end
