(* ===== verification/Timespec.thy ===== *)
theory Timespec
  imports Float64
begin

text \<open>
  \<^verbatim>\<open>src/timespec_utils.cpp\<close>: the arithmetic on \<^verbatim>\<open>timespec\<close> values that every sample, period
  and offset of a benchmark goes through. The sources convert and carry in double arithmetic
  (\<^verbatim>\<open>1e9\<close> is a double), so the model does too: \<open>nanos\<close> is what a \<open>timespec\<close> denotes, and the
  lemmas say up to which size the code's double arithmetic computes exactly that. The bounds
  are \<open>2^23\<close> seconds (97 days) for nanoseconds and \<open>2^33\<close> seconds for microseconds; the last
  section shows a value of 194 days for which the conversion is one second off.
\<close>

section \<open>The model\<close>

datatype timespec = Timespec (tv_sec: int) (tv_nsec: int)

definition TimespecToNanos :: "timespec \<Rightarrow> int res" where
  "TimespecToNanos t =
     f64_to_i64 (fadd (fmul (f64_of_int (tv_sec t)) (Fin 1000000000)) (f64_of_int (tv_nsec t)))"

definition TimespecToDoubleNanos :: "timespec \<Rightarrow> f64 res" where
  "TimespecToDoubleNanos t = bindR (TimespecToNanos t) (\<lambda>ns. Inr (f64_of_int ns))"

definition TimespecToNanos_vec :: "timespec list \<Rightarrow> int list res" where
  "TimespecToNanos_vec tv = mapR TimespecToNanos tv"

definition TimespecToDoubleNanos_vec :: "timespec list \<Rightarrow> f64 list res" where
  "TimespecToDoubleNanos_vec tv = mapR TimespecToDoubleNanos tv"

definition NanosToTimespec :: "int \<Rightarrow> timespec res" where
  "NanosToTimespec t_ns =
     bindR (f64_to_i64 (fdiv (f64_of_int t_ns) (Fin 1000000000))) (\<lambda>sec.
     Inr (Timespec sec (t_ns smod 1000000000)))"

definition MicrosToTimespec :: "int \<Rightarrow> timespec res" where
  "MicrosToTimespec t_us =
     bindR (f64_to_i64 (fdiv (f64_of_int t_us) (Fin 1000000))) (\<lambda>sec.
     Inr (Timespec sec ((t_us smod 1000000) * 1000)))"

definition timespec_eq :: "timespec \<Rightarrow> timespec \<Rightarrow> bool" where
  "timespec_eq t1 t2 \<longleftrightarrow> tv_sec t1 = tv_sec t2 \<and> tv_nsec t1 = tv_nsec t2"

definition timespec_neq :: "timespec \<Rightarrow> timespec \<Rightarrow> bool" where
  "timespec_neq t1 t2 \<longleftrightarrow> \<not> timespec_eq t1 t2"

definition timespec_less :: "timespec \<Rightarrow> timespec \<Rightarrow> bool" where
  "timespec_less t1 t2 \<longleftrightarrow>
     tv_sec t1 < tv_sec t2 \<or> (tv_sec t1 = tv_sec t2 \<and> tv_nsec t1 < tv_nsec t2)"

definition timespec_le :: "timespec \<Rightarrow> timespec \<Rightarrow> bool" where
  "timespec_le t1 t2 \<longleftrightarrow> timespec_eq t1 t2 \<or> timespec_less t1 t2"

definition timespec_greater :: "timespec \<Rightarrow> timespec \<Rightarrow> bool" where
  "timespec_greater t1 t2 \<longleftrightarrow> \<not> timespec_le t1 t2"

definition timespec_ge :: "timespec \<Rightarrow> timespec \<Rightarrow> bool" where
  "timespec_ge t1 t2 \<longleftrightarrow> timespec_eq t1 t2 \<or> timespec_greater t1 t2"

definition timespec_minus :: "timespec \<Rightarrow> timespec \<Rightarrow> timespec res" where
  "timespec_minus t1 t2 =
     (if timespec_less t1 t2 then Inl (Logf ''Subtraction cannot return negative timespec values'')
      else
        bindR (chk64 (tv_sec t1 - tv_sec t2)) (\<lambda>sec.
        if tv_nsec t1 < tv_nsec t2 then
          bindR (chk64 (sec - 1)) (\<lambda>sec'.
          bindR (f64_to_i64 (fadd (fsub (Fin 1000000000) (f64_of_int (tv_nsec t2)))
                                  (f64_of_int (tv_nsec t1)))) (\<lambda>nsec.
          Inr (Timespec sec' nsec)))
        else
          bindR (chk64 (tv_nsec t1 - tv_nsec t2)) (\<lambda>nsec. Inr (Timespec sec nsec))))"

definition timespec_plus :: "timespec \<Rightarrow> timespec \<Rightarrow> timespec res" where
  "timespec_plus t1 t2 =
     bindR (chk64 (tv_sec t1 + tv_sec t2)) (\<lambda>sec.
     bindR (chk64 (tv_nsec t1 + tv_nsec t2)) (\<lambda>nsec.
     if Fin 1000000000 \<le> f64_of_int nsec then
       bindR (chk64 (sec + 1)) (\<lambda>sec'.
       bindR (f64_to_i64 (fsub (f64_of_int nsec) (Fin 1000000000))) (\<lambda>nsec'.
       Inr (Timespec sec' nsec')))
     else Inr (Timespec sec nsec)))"

definition timespec_div_u64 :: "timespec \<Rightarrow> u64 \<Rightarrow> timespec res" where
  "timespec_div_u64 t1 t2_ns =
     (if t2_ns = 0 then Inl (Logf ''Division by 0 for timespec'')
      else bindR (TimespecToNanos t1) (\<lambda>t1_ns.
           NanosToTimespec (u64_to_i64 (to_u64 t1_ns div t2_ns))))"

definition timespec_div :: "timespec \<Rightarrow> timespec \<Rightarrow> timespec res" where
  "timespec_div t1 t2 = bindR (TimespecToNanos t2) (\<lambda>ns. timespec_div_u64 t1 (to_u64 ns))"

definition TimespecToString :: "timespec \<Rightarrow> string" where
  "TimespecToString ts = show_int (tv_sec ts) @ ''.'' @ setw_right (CHR ''0'') 9 (show_int (tv_nsec ts))"

section \<open>What a timespec denotes\<close>

definition nanos :: "timespec \<Rightarrow> int" where
  "nanos t = tv_sec t * 1000000000 + tv_nsec t"

text \<open>Normalised values of a non-negative time, as the clocks return them.\<close>

definition normal_ts :: "timespec \<Rightarrow> bool" where
  "normal_ts t \<longleftrightarrow> 0 \<le> tv_sec t \<and> tv_sec t < 2 ^ 62 \<and> 0 \<le> tv_nsec t \<and> tv_nsec t < 1000000000"

definition small_ts :: "timespec \<Rightarrow> bool" where
  "small_ts t \<longleftrightarrow> 0 \<le> tv_sec t \<and> tv_sec t < 2 ^ 23 \<and> 0 \<le> tv_nsec t \<and> tv_nsec t < 1000000000"

lemma small_normal: "small_ts t \<Longrightarrow> normal_ts t"
  by (simp add: small_ts_def normal_ts_def)

lemma nanos_inj:
  "normal_ts t \<Longrightarrow> normal_ts u \<Longrightarrow> nanos t = nanos u \<Longrightarrow> t = u"
proof -
  assume *: "normal_ts t" "normal_ts u" "nanos t = nanos u"
  then have "tv_sec t = tv_sec u" unfolding normal_ts_def nanos_def by linarith
  moreover from this * have "tv_nsec t = tv_nsec u" by (simp add: nanos_def)
  ultimately show ?thesis by (rule timespec.expand [OF conjI])
qed

lemma small_ts_nanos: "normal_ts t \<Longrightarrow> small_ts t \<longleftrightarrow> nanos t < 2 ^ 23 * 1000000000"
  unfolding normal_ts_def small_ts_def nanos_def by auto

section \<open>The order of the operators\<close>

instantiation timespec :: linorder
begin

definition "less_timespec = timespec_less"
definition "less_eq_timespec = timespec_le"

instance
  by standard
    (auto simp: less_timespec_def less_eq_timespec_def timespec_less_def timespec_le_def
      timespec_eq_def intro: timespec.expand)

end

lemma timespec_less_nanos:
  "normal_ts t \<Longrightarrow> normal_ts u \<Longrightarrow> timespec_less t u \<longleftrightarrow> nanos t < nanos u"
  by (auto simp: normal_ts_def nanos_def timespec_less_def)

lemma timespec_operators:
  "timespec_eq t u \<longleftrightarrow> t = u" "timespec_neq t u \<longleftrightarrow> t \<noteq> u" "timespec_less t u \<longleftrightarrow> t < u"
  "timespec_le t u \<longleftrightarrow> t \<le> u" "timespec_greater t u \<longleftrightarrow> u < t" "timespec_ge t u \<longleftrightarrow> u \<le> t"
proof -
  show eq: "timespec_eq t u \<longleftrightarrow> t = u"
    by (auto simp: timespec_eq_def intro: timespec.expand)
  show "timespec_neq t u \<longleftrightarrow> t \<noteq> u" by (simp add: timespec_neq_def eq)
  show "timespec_less t u \<longleftrightarrow> t < u" by (simp add: less_timespec_def)
  show le: "timespec_le t u \<longleftrightarrow> t \<le> u" by (simp add: less_eq_timespec_def)
  show gr: "timespec_greater t u \<longleftrightarrow> u < t" by (auto simp: timespec_greater_def le)
  show "timespec_ge t u \<longleftrightarrow> u \<le> t" by (auto simp: timespec_ge_def eq gr)
qed

section \<open>Exactness of the double arithmetic\<close>

lemma int_in_f64 [width_simps]: "\<bar>n\<bar> \<le> 2 ^ 53 \<Longrightarrow> f64_of_int n = Fin (of_int n)"
  by (rule f64_of_int_exact)

lemma f64_of_rat_int [width_simps]: "\<bar>n\<bar> \<le> 2 ^ 53 \<Longrightarrow> f64_of_rat (of_int n) = Fin (of_int n)"
  using f64_of_int_exact by (simp add: f64_of_int_def)

lemma fadd_int: "\<bar>a + b\<bar> \<le> 2 ^ 53 \<Longrightarrow> fadd (Fin (of_int a)) (Fin (of_int b)) = Fin (of_int (a + b))"
  using f64_of_rat_int [of "a + b"] by simp

lemma fsub_int: "\<bar>a - b\<bar> \<le> 2 ^ 53 \<Longrightarrow> fsub (Fin (of_int a)) (Fin (of_int b)) = Fin (of_int (a - b))"
  using f64_of_rat_int [of "a - b"] by (simp add: fsub_def)

lemma fmul_int: "\<bar>a * b\<bar> \<le> 2 ^ 53 \<Longrightarrow> fmul (Fin (of_int a)) (Fin (of_int b)) = Fin (of_int (a * b))"
  using f64_of_rat_int [of "a * b"] by simp

lemma f64_to_i64_of_int: "\<bar>n\<bar> \<le> 2 ^ 53 \<Longrightarrow> f64_to_i64 (Fin (of_int n)) = Inr n"
  by (rule f64_to_i64_int) (simp add: in_i64_def abs_le_iff)

text \<open>
  The quotient of a non-negative integer by a positive one, rounded to a double and
  truncated, is the integer quotient, if the quotient is small enough for doubles with a
  step of \<open>1 / 2^k\<close>, where \<open>2^k\<close> is at least the divisor.
\<close>

lemma fdiv_int_trunc:
  fixes n d :: int
  assumes n: "0 \<le> n" "n \<le> 2 ^ 53" and d: "0 < d" "d \<le> 2 ^ k" "k \<le> 52"
    and q: "n div d + 1 \<le> 2 ^ (53 - k)"
  shows "f64_to_i64 (fdiv (f64_of_int n) (Fin (of_int d))) = Inr (n div d)"
proof -
  let ?q = "n div d" and ?x = "of_int n / of_int d :: rat"
  have q0: "0 \<le> ?q" using n d by (simp add: pos_imp_zdiv_nonneg_iff)
  have qd: "d * ?q + n mod d = n" by simp
  have m: "0 \<le> n mod d" "n mod d < d" using d by simp_all
  have "n \<le> d * (?q + 1) - 1" using qd m unfolding distrib_left by linarith
  then have "(of_int n :: rat) \<le> of_int d * (of_int ?q + 1) - 1"
    by (metis of_int_1 of_int_add of_int_diff of_int_le_iff of_int_mult)
  then have "?x \<le> of_int ?q + 1 - 1 / of_int d" using d by (simp add: field_simps)
  also have "\<dots> \<le> of_int ?q + 1 - 1 / 2 ^ k"
  proof -
    have "(of_int d :: rat) \<le> 2 ^ k" using d(2) by (metis of_int_le_iff of_int_numeral of_int_power)
    then show ?thesis using d by (simp add: frac_le)
  qed
  finally have upper: "?x \<le> of_int ?q + 1 - 1 / 2 ^ k" .
  have rep: "representable (of_int ?q + 1 - 1 / 2 ^ k)"
    unfolding representable_def
  proof (intro exI conjI)
    have "(?q + 1) * 2 ^ k \<le> 2 ^ (53 - k) * 2 ^ k" using q by (intro mult_right_mono) auto
    also have "\<dots> = (2 :: int) ^ 53" using d by (simp flip: power_add)
    finally have "(?q + 1) * 2 ^ k \<le> 2 ^ 53" .
    moreover have "0 \<le> (?q + 1) * 2 ^ k - 1"
    proof -
      have "1 * 1 \<le> (?q + 1) * 2 ^ k" using q0 by (intro mult_mono) auto
      then show ?thesis by simp
    qed
    ultimately show "\<bar>(?q + 1) * 2 ^ k - 1\<bar> \<le> 2 ^ 53" by linarith
    show "- 1074 \<le> - int k" using d by simp
    show "of_int ?q + 1 - 1 / 2 ^ k = (of_int ((?q + 1) * 2 ^ k - 1) :: rat) * 2 powi (- int k)"
      by (simp add: power_int_minus field_simps)
  qed
  have qn: "?q \<le> n" using zdiv_mono2 [of n 1 d] n d by simp
  have lower: "of_int ?q \<le> ?x"
  proof -
    have "d * ?q \<le> n" using qd m(1) by linarith
    then have "?q * d \<le> n" by (simp only: mult.commute)
    then have "(of_int ?q :: rat) * of_int d \<le> of_int n" by (metis of_int_le_iff of_int_mult)
    then show ?thesis using d by (simp add: pos_le_divide_eq)
  qed
  have repq: "representable (of_int ?q)" using qn q0 n by (intro representable_int) simp
  have x: "fdiv (f64_of_int n) (Fin (of_int d)) = Fin (fl ?x)"
  proof -
    have "n * 1 \<le> n * d" using n d by (intro mult_left_mono) auto
    then have "(of_int n :: rat) \<le> of_int n * of_int d" by (metis mult_1_right of_int_le_iff of_int_mult)
    then have "\<bar>?x\<bar> \<le> of_int n" using n d by (simp add: pos_divide_le_eq)
    also have "\<dots> \<le> 2 ^ 1000"
      using rat_power_int_le [of n 53] power_1000_ge [of 53] n by simp
    finally show ?thesis using n d by (simp add: f64_of_int_exact f64_of_rat_bounded)
  qed
  have "of_int ?q \<le> fl ?x" using repq lower by (rule fl_ge)
  moreover have "fl ?x \<le> of_int ?q + 1 - 1 / 2 ^ k" using rep upper by (rule fl_le)
  then have "fl ?x < of_int ?q + 1" by (rule order_le_less_trans) simp
  ultimately have "truncate_rat (fl ?x) = ?q"
    using q0 by (auto simp: truncate_rat_def floor_eq_iff intro: order_trans)
  moreover have "in_i64 ?q" using q0 qn n by (simp add: in_i64_def)
  ultimately show ?thesis by (simp add: x f64_to_i64_def)
qed

section \<open>Conversions\<close>

lemma small_nanos_bounds: "small_ts t \<Longrightarrow> 0 \<le> nanos t \<and> nanos t < 2 ^ 23 * 1000000000"
  unfolding small_ts_def nanos_def by auto

text \<open>A time below \<open>2^23\<close> seconds is converted to its nanoseconds exactly.\<close>

lemma TimespecToNanos_small:
  assumes "small_ts t"
  shows "TimespecToNanos t = Inr (nanos t)"
proof -
  from assms have s: "0 \<le> tv_sec t" "tv_sec t < 2 ^ 23" "0 \<le> tv_nsec t" "tv_nsec t < 1000000000"
    by (simp_all add: small_ts_def)
  have "fmul (f64_of_int (tv_sec t)) (Fin 1000000000) = Fin (of_int (tv_sec t * 1000000000))"
    using fmul_int [of "tv_sec t" 1000000000] s by (simp add: int_in_f64)
  moreover have "f64_of_int (tv_nsec t) = Fin (of_int (tv_nsec t))"
    using s by (intro int_in_f64) simp
  moreover have "fadd (Fin (of_int (tv_sec t * 1000000000))) (Fin (of_int (tv_nsec t)))
      = Fin (of_int (nanos t))"
    using s by (subst fadd_int) (simp_all add: nanos_def)
  moreover have "f64_to_i64 (Fin (of_int (nanos t))) = Inr (nanos t)"
    using s by (intro f64_to_i64_of_int) (simp add: nanos_def)
  ultimately show ?thesis by (simp only: TimespecToNanos_def)
qed

lemma NanosToTimespec_small:
  assumes "0 \<le> n" and "n < 2 ^ 23 * 1000000000"
  shows "NanosToTimespec n = Inr (Timespec (n div 1000000000) (n mod 1000000000))"
proof -
  have "f64_to_i64 (fdiv (f64_of_int n) (Fin (of_int 1000000000))) = Inr (n div 1000000000)"
  proof (rule fdiv_int_trunc [where k = 30])
    have "n div 1000000000 < 2 ^ 23" using assms by simp
    then show "n div 1000000000 + 1 \<le> 2 ^ (53 - 30)" by simp
  qed (use assms in simp_all)
  then show ?thesis using assms by (simp add: NanosToTimespec_def smod_nonneg)
qed

text \<open>Converting nanoseconds to a time and back gives the same nanoseconds.\<close>

theorem nanos_timespec_roundtrip:
  assumes "0 \<le> n" and "n < 2 ^ 23 * 1000000000"
  shows "\<exists>t. NanosToTimespec n = Inr t \<and> small_ts t \<and> TimespecToNanos t = Inr n"
proof -
  let ?t = "Timespec (n div 1000000000) (n mod 1000000000)"
  have "small_ts ?t" using assms by (simp add: small_ts_def pos_imp_zdiv_nonneg_iff)
  moreover from this have "TimespecToNanos ?t = Inr n"
    by (subst TimespecToNanos_small) (simp_all add: nanos_def)
  ultimately show ?thesis using NanosToTimespec_small [OF assms] by blast
qed

theorem nanos_timespec_roundtrip_witness:
  "\<exists>t. NanosToTimespec 86400123456789 = Inr t \<and> small_ts t \<and> TimespecToNanos t = Inr 86400123456789"
  by (rule nanos_timespec_roundtrip) simp_all

lemma MicrosToTimespec_small:
  assumes "0 \<le> u" and "u < 2 ^ 33 * 1000000"
  shows "MicrosToTimespec u = Inr (Timespec (u div 1000000) (u mod 1000000 * 1000))"
proof -
  have "f64_to_i64 (fdiv (f64_of_int u) (Fin (of_int 1000000))) = Inr (u div 1000000)"
  proof (rule fdiv_int_trunc [where k = 20])
    have "u div 1000000 < 2 ^ 33" using assms by linarith
    then show "u div 1000000 + 1 \<le> 2 ^ (53 - 20)" by simp
  qed (use assms in simp_all)
  then show ?thesis using assms by (simp add: MicrosToTimespec_def smod_nonneg)
qed

text \<open>A period or offset in microseconds becomes the time of exactly that length.\<close>

lemma MicrosToTimespec_normal:
  assumes "0 \<le> u" and "u < 2 ^ 33 * 1000000"
  shows "\<exists>t. MicrosToTimespec u = Inr t \<and> normal_ts t \<and> nanos t = 1000 * u"
proof -
  have "u div 1000000 < 2 ^ 62" using assms by simp
  moreover have "nanos (Timespec (u div 1000000) (u mod 1000000 * 1000)) = 1000 * u"
    unfolding nanos_def timespec.sel by presburger
  moreover have "u mod 1000000 < 1000000" by simp
  then have "u mod 1000000 * 1000 < 1000000000" by linarith
  ultimately show ?thesis
    using MicrosToTimespec_small [OF assms] assms
    by (simp add: normal_ts_def pos_imp_zdiv_nonneg_iff)
qed

section \<open>Addition, subtraction, division\<close>

text \<open>Addition carries correctly and adds the nanoseconds.\<close>

lemma timespec_plus_normal:
  assumes "normal_ts t" and "normal_ts u"
  shows "\<exists>v. timespec_plus t u = Inr v \<and> nanos v = nanos t + nanos u
           \<and> 0 \<le> tv_sec v \<and> 0 \<le> tv_nsec v \<and> tv_nsec v < 1000000000"
proof -
  define s n where "s = tv_sec t + tv_sec u" and "n = tv_nsec t + tv_nsec u"
  have b: "0 \<le> s" "s < 2 ^ 63" "0 \<le> n" "n < 2000000000"
    using assms by (auto simp: s_def n_def normal_ts_def)
  have s64: "chk64 (tv_sec t + tv_sec u) = Inr s" and n64: "chk64 (tv_nsec t + tv_nsec u) = Inr n"
    using b by (simp_all add: s_def n_def chk64_def in_i64_def)
  have fn: "f64_of_int n = Fin (of_int n)" using b by (intro int_in_f64) simp
  have carry: "Fin 1000000000 \<le> f64_of_int n \<longleftrightarrow> 1000000000 \<le> n"
    by (simp add: fn)
  show ?thesis
  proof (cases "1000000000 \<le> n")
    case True
    have "s + 1 < 2 ^ 63" using assms by (simp add: s_def normal_ts_def)
    then have "chk64 (s + 1) = Inr (s + 1)" using b by (simp add: chk64_def in_i64_def)
    moreover have "fsub (Fin (of_int n)) (Fin (of_int 1000000000)) = Fin (of_int (n - 1000000000))"
      using b by (intro fsub_int) simp
    moreover have "f64_to_i64 (Fin (of_int (n - 1000000000))) = Inr (n - 1000000000)"
      using b by (intro f64_to_i64_of_int) simp
    ultimately have "timespec_plus t u = Inr (Timespec (s + 1) (n - 1000000000))"
      using True by (simp add: timespec_plus_def s64 n64 carry fn)
    then show ?thesis using True b by (simp add: nanos_def s_def n_def)
  next
    case False
    then have "timespec_plus t u = Inr (Timespec s n)"
      by (simp add: timespec_plus_def s64 n64 carry)
    then show ?thesis using False b by (simp add: nanos_def s_def n_def)
  qed
qed

text \<open>
  Subtraction is the difference of the nanoseconds when the first time is not earlier,
  and ends the process with its message otherwise.
\<close>

lemma timespec_minus_normal:
  assumes "normal_ts t" and "normal_ts u"
  shows "if nanos t < nanos u
         then timespec_minus t u = Inl (Logf ''Subtraction cannot return negative timespec values'')
         else \<exists>v. timespec_minus t u = Inr v \<and> nanos v = nanos t - nanos u \<and> normal_ts v"
proof (cases "timespec_less t u")
  case True
  then show ?thesis
    using timespec_less_nanos [OF assms] by (simp add: timespec_minus_def)
next
  case False
  define s where "s = tv_sec t - tv_sec u"
  have s: "0 \<le> s" "s < 2 ^ 62" "tv_nsec t < tv_nsec u \<Longrightarrow> 0 < s"
    using False assms by (auto simp: s_def normal_ts_def timespec_less_def)
  have c: "chk64 (tv_sec t - tv_sec u) = Inr s"
    using s by (simp add: s_def chk64_def in_i64_def)
  have n: "0 \<le> tv_nsec t" "tv_nsec t < 1000000000" "0 \<le> tv_nsec u" "tv_nsec u < 1000000000"
    using assms by (auto simp: normal_ts_def)
  show ?thesis
  proof (cases "tv_nsec t < tv_nsec u")
    case True
    have "chk64 (s - 1) = Inr (s - 1)" using s by (simp add: chk64_def in_i64_def)
    moreover have "fsub (Fin (of_int 1000000000)) (Fin (of_int (tv_nsec u)))
        = Fin (of_int (1000000000 - tv_nsec u))"
      using n by (intro fsub_int) simp
    moreover have "fadd (Fin (of_int (1000000000 - tv_nsec u))) (Fin (of_int (tv_nsec t)))
        = Fin (of_int (1000000000 - tv_nsec u + tv_nsec t))"
      using n by (intro fadd_int) simp
    moreover have "f64_to_i64 (Fin (of_int (1000000000 - tv_nsec u + tv_nsec t)))
        = Inr (1000000000 - tv_nsec u + tv_nsec t)"
      using n by (intro f64_to_i64_of_int) simp
    ultimately have "timespec_minus t u = Inr (Timespec (s - 1) (1000000000 - tv_nsec u + tv_nsec t))"
      using True False n by (simp add: timespec_minus_def c int_in_f64)
    then show ?thesis
      using True False s n timespec_less_nanos [OF assms]
      by (simp add: nanos_def s_def normal_ts_def)
  next
    case nsec: False
    have "chk64 (tv_nsec t - tv_nsec u) = Inr (tv_nsec t - tv_nsec u)"
      using n nsec by (simp add: chk64_def in_i64_def)
    then have "timespec_minus t u = Inr (Timespec s (tv_nsec t - tv_nsec u))"
      using False nsec by (simp add: timespec_minus_def c)
    then show ?thesis
      using False nsec s n timespec_less_nanos [OF assms]
      by (simp add: nanos_def s_def normal_ts_def)
  qed
qed

text \<open>
  C35: addition and subtraction of times act on their nanoseconds: a sum minus one summand is the
  other, and subtracting a later time from an earlier one ends the process with its message.
\<close>

theorem timespec_plus_minus:
  assumes "normal_ts t" and "normal_ts u" and "tv_sec t + tv_sec u < 2 ^ 62 - 1"
  shows "\<exists>v. timespec_plus t u = Inr v \<and> nanos v = nanos t + nanos u \<and> timespec_minus v u = Inr t \<and>
           (0 < nanos u \<longrightarrow>
              timespec_minus t v = Inl (Logf ''Subtraction cannot return negative timespec values''))"
proof -
  obtain v where v: "timespec_plus t u = Inr v" "nanos v = nanos t + nanos u" "0 \<le> tv_sec v"
      "0 \<le> tv_nsec v" "tv_nsec v < 1000000000"
    using timespec_plus_normal [OF assms(1,2)] by blast
  have "normal_ts v"
    using v assms unfolding normal_ts_def nanos_def by auto
  moreover have "0 \<le> nanos t" using assms(1) unfolding normal_ts_def nanos_def by auto
  ultimately have "\<exists>w. timespec_minus v u = Inr w \<and> nanos w = nanos t \<and> normal_ts w"
    using timespec_minus_normal [of v u] assms(2) v(2) by auto
  then have "timespec_minus v u = Inr t" using nanos_inj assms(1) by blast
  moreover have "timespec_minus t v = Inl (Logf ''Subtraction cannot return negative timespec values'')"
    if "0 < nanos u"
    using timespec_minus_normal [OF assms(1) \<open>normal_ts v\<close>] v(2) that by simp
  ultimately show ?thesis using v by blast
qed

theorem timespec_plus_minus_witness:
  "\<exists>v. timespec_plus (Timespec 1 700000000) (Timespec 2 600000000) = Inr v \<and> nanos v = 4300000000 \<and>
     timespec_minus v (Timespec 2 600000000) = Inr (Timespec 1 700000000)"
  using timespec_plus_minus [of "Timespec 1 700000000" "Timespec 2 600000000"]
  by (auto simp: normal_ts_def nanos_def)

text \<open>Division by a number of nanoseconds, and by a time.\<close>

lemma timespec_div_u64_nanos:
  assumes "small_ts t" and "d \<noteq> 0"
  shows "\<exists>v. timespec_div_u64 t d = Inr v \<and> small_ts v \<and> nanos v = nanos t div uint d"
proof -
  have d: "0 < uint d" using assms(2) by (metis uint_0_iff uint_ge_0 order_le_less)
  have t: "0 \<le> nanos t" "nanos t < 2 ^ 23 * 1000000000"
    using small_nanos_bounds [OF assms(1)] by simp_all
  let ?q = "nanos t div uint d"
  have q: "0 \<le> ?q" "?q \<le> nanos t"
    using t d zdiv_mono2 [of "nanos t" 1 "uint d"] by (simp_all add: pos_imp_zdiv_nonneg_iff)
  have "uint (to_u64 (nanos t) div d) = ?q"
    using t by (simp add: uint_div uint_to_u64)
  then have "u64_to_i64 (to_u64 (nanos t) div d) = ?q"
    using q t by (subst u64_to_i64_small) simp_all
  then have "timespec_div_u64 t d = NanosToTimespec ?q"
    using assms by (simp add: timespec_div_u64_def TimespecToNanos_small)
  moreover have "?q < 2 ^ 23 * 1000000000" using q t by linarith
  then obtain v where "NanosToTimespec ?q = Inr v" "small_ts v" "nanos v = ?q"
    using NanosToTimespec_small [of ?q] q
    by (auto simp: small_ts_def nanos_def pos_imp_zdiv_nonneg_iff)
  ultimately show ?thesis by auto
qed

section \<open>Beyond the bounds\<close>

lemma fl_eqI:
  assumes "2 powi k \<le> x" and "x < 2 powi (k + 1)" and "- 1022 \<le> k"
    and "rnd_even (x / 2 powi (k - 52)) = m"
  shows "fl x = of_int m * 2 powi (k - 52)"
proof -
  have x: "0 < x" using assms(1) by (meson order_less_le_trans zero_less_numeral zero_less_power_int)
  have "ilog2 x < k + 1" using assms x by (intro ilog2_less)
  moreover have "k \<le> ilog2 x"
    using assms(1) ilog2_bounds(2) [OF x] powi_less_iff [of k "ilog2 x + 1"] by simp
  ultimately have "fl_expo x = k - 52" using assms(3) x by (simp add: fl_expo_def)
  then show ?thesis using assms(4) x by (simp add: fl_def)
qed

text \<open>C18: 
  A duration of 194 days: the quotient is rounded up to a whole second before it is truncated,
  while the remainder keeps 999999999 nanoseconds, so the result is one second too long.
\<close>

theorem NanosToTimespec_off_by_one_second:
  "NanosToTimespec 16777217999999999 = Inr (Timespec 16777218 999999999)"
proof -
  have n: "fl 16777217999999999 = 16777218000000000"
    by (subst fl_eqI [where k = 53 and m = 8388609000000000])
      (simp_all add: rnd_even_def power_int_def Let_def)
  have q: "fl 16777218 = 16777218"
    using fl_representable [OF representable_int [of 16777218]] by simp
  have "f64_of_int 16777217999999999 = Fin 16777218000000000"
    using f64_of_int_i64 [of 16777217999999999] n by (simp add: in_i64_def)
  then have "fdiv (f64_of_int 16777217999999999) (Fin 1000000000) = Fin 16777218"
    using f64_of_int_exact [of 16777218] by (simp add: f64_of_int_def)
  then show ?thesis
    using f64_to_i64_of_int [of 16777218] by (simp add: NanosToTimespec_def)
qed

end
