(* ===== verification/Machine.thy ===== *)
theory Machine
  imports Shared_Variables Timespec
begin

text \<open>
  The process an instruction runs in: what it reaches outside the repository (the parameter
  record \<open>env\<close>), the state it shares with the other instructions (\<open>pstate\<close>), and
  \<^verbatim>\<open>src/utils.cpp\<close>.

  The fields \<open>sys_...\<close> of \<open>env\<close> are the operations of \<^verbatim>\<open>SyscallInterface\<close>
  (\<^verbatim>\<open>include/ditto/syscall.h\<close>) acting on an abstract operating system \<open>'w\<close>; the others are the
  functions of libc and of \<^verbatim>\<open><random>\<close> that the sources call directly, with generators of an
  abstract type \<open>'g\<close>. Every property holds for every environment, or names what it needs.
\<close>

section \<open>The environment\<close>

record sched_attr_raw =
  sa_size :: u32
  sa_policy :: u32
  sa_flags :: u64
  sa_nice :: int
  sa_priority :: u32
  sa_runtime :: u64
  sa_deadline :: u64
  sa_period :: u64

datatype clock_id = CLOCK_MONOTONIC | CLOCK_THREAD_CPUTIME_ID

type_synonym byte = "8 word"

record ('w, 'g) env =
  sys_Access :: "string \<Rightarrow> int \<Rightarrow> 'w \<Rightarrow> int \<times> 'w"
  sys_Close :: "int \<Rightarrow> 'w \<Rightarrow> int \<times> 'w"
  sys_CloseDir :: "int \<Rightarrow> 'w \<Rightarrow> int \<times> 'w"
  sys_FAdvise :: "int \<Rightarrow> int \<Rightarrow> int \<Rightarrow> int \<Rightarrow> 'w \<Rightarrow> int \<times> 'w"
  sys_FAllocate :: "int \<Rightarrow> int \<Rightarrow> int \<Rightarrow> int \<Rightarrow> 'w \<Rightarrow> int \<times> 'w"
  sys_FTruncate :: "int \<Rightarrow> int \<Rightarrow> 'w \<Rightarrow> int \<times> 'w"
  sys_FStat :: "int \<Rightarrow> 'w \<Rightarrow> (int \<times> int) \<times> 'w"
  sys_FSync :: "int \<Rightarrow> 'w \<Rightarrow> int \<times> 'w"
  sys_Open :: "string \<Rightarrow> int \<Rightarrow> int \<Rightarrow> 'w \<Rightarrow> int \<times> 'w"
  sys_OpenDir :: "string \<Rightarrow> 'w \<Rightarrow> int option \<times> 'w"
  sys_Read :: "int \<Rightarrow> int \<Rightarrow> int \<Rightarrow> 'w \<Rightarrow> (int \<times> byte list) \<times> 'w"
  sys_SchedSetattr :: "int \<Rightarrow> sched_attr_raw \<Rightarrow> u32 \<Rightarrow> 'w \<Rightarrow> int \<times> 'w"
  sys_ReadDir :: "int \<Rightarrow> 'w \<Rightarrow> (int \<times> string) option \<times> 'w"
  sys_ReadLink :: "string \<Rightarrow> 'w \<Rightarrow> (int \<times> string) \<times> 'w"
  sys_Sync :: "'w \<Rightarrow> 'w"
  sys_Unlink :: "string \<Rightarrow> 'w \<Rightarrow> int \<times> 'w"
  sys_Write :: "int \<Rightarrow> byte list \<Rightarrow> int \<Rightarrow> int \<Rightarrow> 'w \<Rightarrow> int \<times> 'w"
  sys_LockMutex :: "var_ptr \<Rightarrow> mutex_bytes \<Rightarrow> 'w \<Rightarrow> (int \<times> mutex_bytes) \<times> 'w"
  sys_UnlockMutex :: "var_ptr \<Rightarrow> mutex_bytes \<Rightarrow> 'w \<Rightarrow> (int \<times> mutex_bytes) \<times> 'w"
  clock_gettime :: "clock_id \<Rightarrow> 'w \<Rightarrow> (int \<times> timespec) \<times> 'w"
  clock_nanosleep :: "timespec \<Rightarrow> 'w \<Rightarrow> int \<times> 'w"
  mmap_anon :: "u64 \<Rightarrow> 'w \<Rightarrow> int option \<times> 'w"
  munmap :: "int \<Rightarrow> u64 \<Rightarrow> 'w \<Rightarrow> int \<times> 'w"
  new_nothrow :: "int \<Rightarrow> 'w \<Rightarrow> bool \<times> 'w"
  time_now :: "'w \<Rightarrow> int \<times> 'w"
  sched_setaffinity :: "nat set \<Rightarrow> 'w \<Rightarrow> int \<times> 'w"
  pthread_setname :: "string \<Rightarrow> 'w \<Rightarrow> int \<times> 'w"
  libc_rand :: "'w \<Rightarrow> int \<times> 'w"
  pick_thread :: "nat list \<Rightarrow> 'w \<Rightarrow> nat \<times> 'w"
  rng_seed :: "u64 \<Rightarrow> 'g"
  rng_draw :: "int \<Rightarrow> int \<Rightarrow> 'g \<Rightarrow> int \<times> 'g"
  trace_good :: bool
  env_pid :: nat

text \<open>
  \<open>sys_FStat\<close> gives the return value and \<^verbatim>\<open>st_size\<close>; \<open>sys_ReadDir\<close> an entry's type and name;
  \<open>sys_ReadLink\<close> the return value and the C string the buffer then holds; \<open>clock_gettime\<close> the
  return value and the time; \<open>sched_setaffinity\<close> takes the CPUs of the mask; \<open>libc_rand\<close> is \<^verbatim>\<open>rand()\<close>; \<open>pick_thread\<close> is
  the scheduler, which names the next thread to run among the runnable ones; \<open>rng_draw lo hi\<close>
  is one draw of \<^verbatim>\<open>std::uniform_int_distribution<>(lo, hi)\<close>. Paths, once opened, and
  directories are handles.
\<close>

text \<open>What \<^verbatim>\<open><random>\<close> promises for a distribution with \<open>lo \<le> hi\<close>.\<close>

definition draws_in_range :: "('w, 'g) env \<Rightarrow> bool" where
  "draws_in_range E \<longleftrightarrow> (\<forall>lo hi g. lo \<le> hi \<longrightarrow> lo \<le> fst (rng_draw E lo hi g) \<and> fst (rng_draw E lo hi g) \<le> hi)"

section \<open>The state of a process\<close>

text \<open>
  \<open>ps_trace\<close> is what the tracers have written to the trace marker, oldest first, and
  \<open>ps_path_key\<close> is \<^verbatim>\<open>Instruction::absolute_path_key_\<close>.
\<close>

record 'w pstate =
  ps_world :: 'w
  ps_vars :: shared_vars
  ps_trace :: "string list"
  ps_path_key :: int

type_synonym ('w, 'a) act = "('w pstate, 'a) comp"

definition sysC :: "('w \<Rightarrow> 'a \<times> 'w) \<Rightarrow> ('w, 'a) act" where
  "sysC f s = (case f (ps_world s) of (r, w) \<Rightarrow> (Inr r, s\<lparr>ps_world := w\<rparr>))"

definition varsC :: "(shared_vars, 'a) comp \<Rightarrow> ('w, 'a) act" where
  "varsC m s = (case m (ps_vars s) of (r, v) \<Rightarrow> (r, s\<lparr>ps_vars := v\<rparr>))"

text \<open>\<^verbatim>\<open>std::get<T>(SharedVariables::Get(key))\<close>.\<close>

definition shared_int :: "int \<Rightarrow> ('w, int) act" where
  "shared_int key = bindC (varsC (Get key)) (\<lambda>v. liftR (get_int v))"

definition shared_string :: "int \<Rightarrow> ('w, string) act" where
  "shared_string key = bindC (varsC (Get key)) (\<lambda>v. liftR (get_string v))"

lemma sysC_Inr [simp]: "fst (sysC f s) = Inr (fst (f (ps_world s)))"
  by (simp add: sysC_def split: prod.splits)

lemma sysC_app: "sysC f s = (Inr (fst (f (ps_world s))), s\<lparr>ps_world := snd (f (ps_world s))\<rparr>)"
  by (simp add: sysC_def split: prod.splits)

lemma sysC_Inr_iff:
  "sysC f s = (Inr x, t) \<longleftrightarrow> (\<exists>w. f (ps_world s) = (x, w) \<and> t = s\<lparr>ps_world := w\<rparr>)"
  by (auto simp: sysC_def split: prod.splits)

lemma varsC_Inr_iff:
  "varsC m s = (Inr x, t) \<longleftrightarrow> (\<exists>v. m (ps_vars s) = (Inr x, v) \<and> t = s\<lparr>ps_vars := v\<rparr>)"
  by (auto simp: varsC_def split: prod.splits)

lemma varsC_Get [simp]:
  "varsC (Get k) s =
     (if valid_key (ps_vars s) k then (Inr (sv_variables (ps_vars s) ! nat k), s)
      else (Inl no_such_variable, s))"
  by (simp add: varsC_def Get_def)

lemma shared_int_app:
  "shared_int k s =
     (if \<not> valid_key (ps_vars s) k then (Inl no_such_variable, s)
      else (get_int (sv_variables (ps_vars s) ! nat k), s))"
  by (simp add: shared_int_def bindC_def)

lemma shared_string_app:
  "shared_string k s =
     (if \<not> valid_key (ps_vars s) k then (Inl no_such_variable, s)
      else (get_string (sv_variables (ps_vars s) ! nat k), s))"
  by (simp add: shared_string_def bindC_def)

text \<open>The variable \<open>k\<close> holds the integer \<open>i\<close>, or the string \<open>p\<close>.\<close>

definition holds_int :: "int \<Rightarrow> int \<Rightarrow> 'w pstate \<Rightarrow> bool" where
  "holds_int k i s \<longleftrightarrow> valid_key (ps_vars s) k \<and> sv_variables (ps_vars s) ! nat k = VInt i"

definition holds_string :: "int \<Rightarrow> string \<Rightarrow> 'w pstate \<Rightarrow> bool" where
  "holds_string k p s \<longleftrightarrow> valid_key (ps_vars s) k \<and> sv_variables (ps_vars s) ! nat k = VString p"

lemma shared_int_holds: "holds_int k i s \<Longrightarrow> shared_int k s = (Inr i, s)"
  by (simp add: holds_int_def shared_int_app get_int_def)

lemma shared_int_iff: "shared_int k s = (Inr i, t) \<longleftrightarrow> t = s \<and> holds_int k i s"
  by (auto simp: holds_int_def shared_int_app get_int_def split: variant.splits)

lemma shared_string_holds: "holds_string k p s \<Longrightarrow> shared_string k s = (Inr p, s)"
  by (simp add: holds_string_def shared_string_app get_string_def)

lemma holds_int_world [simp]:
  "holds_int k i (s\<lparr>ps_world := w\<rparr>) = holds_int k i s"
  "holds_int k i (s\<lparr>ps_trace := tr\<rparr>) = holds_int k i s"
  by (simp_all add: holds_int_def)

lemma holds_string_world [simp]:
  "holds_string k p (s\<lparr>ps_world := w\<rparr>) = holds_string k p s"
  "holds_string k p (s\<lparr>ps_trace := tr\<rparr>) = holds_string k p s"
  by (simp_all add: holds_string_def)

text \<open>\<^verbatim>\<open>Instruction::GetAbsolutePath\<close>.\<close>

definition GetAbsolutePath :: "('w, string) act" where
  "GetAbsolutePath = bindC (getC ps_path_key) shared_string"

section \<open>\<^verbatim>\<open>src/utils.cpp\<close>\<close>

definition GetFileSize :: "('w, 'g) env \<Rightarrow> int \<Rightarrow> ('w, int) act" where
  "GetFileSize E fd =
     bindC (sysC (sys_FStat E fd)) (\<lambda>(ret, sz).
       if ret = -1 then failC (Plogf ''Error while calling fstat() to get file size'')
       else returnC sz)"

definition GetFilePath :: "('w, 'g) env \<Rightarrow> int \<Rightarrow> ('w, string) act" where
  "GetFilePath E fd =
     bindC (sysC (sys_ReadLink E (''/proc/self/fd/'' @ show_int fd))) (\<lambda>(ret, path).
       if ret = -1 then failC (Plogf ''Error while calling readlink() to get file path'')
       else returnC path)"

definition FileExists :: "('w, 'g) env \<Rightarrow> string \<Rightarrow> ('w, bool) act" where
  "FileExists E path_name =
     bindC (sysC (sys_Access E path_name 0)) (\<lambda>ret. returnC (ret \<noteq> -1))"

text \<open>\<^verbatim>\<open>operator==\<close> on mutexes compares their bytes.\<close>

definition mutex_eq :: "mutex_bytes \<Rightarrow> mutex_bytes \<Rightarrow> bool" where
  "mutex_eq a b \<longleftrightarrow> a = b"

lemma GetFileSize_app:
  "GetFileSize E fd s =
     (case sys_FStat E fd (ps_world s) of ((ret, sz), w) \<Rightarrow>
        if ret = -1 then (Inl (Plogf ''Error while calling fstat() to get file size''), s\<lparr>ps_world := w\<rparr>)
        else (Inr sz, s\<lparr>ps_world := w\<rparr>))"
  by (simp add: GetFileSize_def bindC_def sysC_def split: prod.splits)

lemma GetFileSize_ok:
  "sys_FStat E fd (ps_world s) = ((ret, sz), w) \<Longrightarrow> ret \<noteq> -1 \<Longrightarrow>
     GetFileSize E fd s = (Inr sz, s\<lparr>ps_world := w\<rparr>)"
  by (simp add: GetFileSize_app)

lemma GetFileSize_Inr_iff:
  "GetFileSize E fd s = (Inr sz, t) \<longleftrightarrow>
     (\<exists>ret w. sys_FStat E fd (ps_world s) = ((ret, sz), w) \<and> ret \<noteq> -1 \<and> t = s\<lparr>ps_world := w\<rparr>)"
  by (auto simp: GetFileSize_app split: prod.splits if_splits)

section \<open>What an action leaves alone\<close>

text \<open>
  Actions that only talk to the operating system and to the tracer: they leave the shared
  variables and the path key as they are.
\<close>

definition keeps_vars :: "('w, 'a) act \<Rightarrow> bool" where
  "keeps_vars m \<longleftrightarrow>
     (\<forall>s. ps_vars (snd (m s)) = ps_vars s \<and> ps_path_key (snd (m s)) = ps_path_key s)"

named_theorems keeps_intros \<open>actions that leave the shared variables alone\<close>

lemma keeps_varsD:
  "keeps_vars m \<Longrightarrow> m s = (r, t) \<Longrightarrow> ps_vars t = ps_vars s \<and> ps_path_key t = ps_path_key s"
  unfolding keeps_vars_def by (metis snd_conv)

lemma keeps_bindC [keeps_intros]:
  "keeps_vars m \<Longrightarrow> (\<And>x. keeps_vars (k x)) \<Longrightarrow> keeps_vars (bindC m k)"
  unfolding keeps_vars_def bindC_def
  by (simp split: prod.splits sum.splits) (metis snd_conv)

lemma keeps_thenC [keeps_intros]:
  "keeps_vars m \<Longrightarrow> keeps_vars n \<Longrightarrow> keeps_vars (thenC m n)"
  unfolding thenC_def by (intro keeps_bindC)

lemma keeps_if [keeps_intros]:
  "keeps_vars m \<Longrightarrow> keeps_vars n \<Longrightarrow> keeps_vars (if b then m else n)"
  by simp

lemma keeps_basic [keeps_intros]:
  "keeps_vars (returnC x)" "keeps_vars (failC e)" "keeps_vars (liftR r)" "keeps_vars (getC f)"
  "keeps_vars (fail_ifC b e)" "keeps_vars (sysC g)" "keeps_vars (Pair r)"
  by (simp_all add: keeps_vars_def fail_ifC_def sysC_def split: prod.splits)

lemma keeps_shared [keeps_intros]:
  "keeps_vars (shared_int k)" "keeps_vars (shared_string k)" "keeps_vars GetAbsolutePath"
  by (simp_all add: keeps_vars_def shared_int_app shared_string_app GetAbsolutePath_def bindC_def)

lemma keeps_mapC [keeps_intros]: "(\<And>x. keeps_vars (f x)) \<Longrightarrow> keeps_vars (mapC f xs)"
  by (induction xs) (auto intro!: keeps_intros)

lemma keeps_foldC [keeps_intros]: "(\<And>b x. keeps_vars (f b x)) \<Longrightarrow> keeps_vars (foldC f b xs)"
  by (induction xs arbitrary: b) (auto intro!: keeps_intros)

lemma keeps_utils [keeps_intros]:
  "keeps_vars (GetFileSize E fd)" "keeps_vars (GetFilePath E fd)" "keeps_vars (FileExists E p)"
  unfolding GetFileSize_def GetFilePath_def FileExists_def
  by (auto intro!: keeps_intros)

end
