(* ===== verification/Measurement.thy ===== *)
theory Measurement
  imports Machine
begin

text \<open>
  What an instruction records about itself: the trace marks of \<^verbatim>\<open>src/tracer.cpp\<close> and
  \<^verbatim>\<open>include/ditto/tracer.h\<close>, and the samplers of \<^verbatim>\<open>src/sampler.cpp\<close> and
  \<^verbatim>\<open>include/ditto/sampler.h\<close>.

  The trace marker is one file of the kernel that every tracer appends to, so the marks go to
  \<open>ps_trace\<close> of the process. The first group of lemmas says when a sequence of marks is well
  nested; the second what one measurement adds to the samples.
\<close>

section \<open>The tracer\<close>

definition alphabet62 :: string where
  "alphabet62 = map char_of ([48..<58] @ [97..<123] @ [65..<91 :: nat])"

fun random_string :: "('w, 'g) env \<Rightarrow> nat \<Rightarrow> ('w, string) act" where
  "random_string E 0 = returnC []"
| "random_string E (Suc n) =
     bindC (sysC (libc_rand E)) (\<lambda>r.
     bindC (random_string E n) (\<lambda>rest.
     returnC (alphabet62 ! (nat r mod length alphabet62) # rest)))"

text \<open>The variadic \<^verbatim>\<open>trace_format\<close>: the fields, separated by bars.\<close>

fun trace_format_tail :: "string list \<Rightarrow> string" where
  "trace_format_tail [] = []"
| "trace_format_tail (v # vs) = ''|'' @ v @ trace_format_tail vs"

fun trace_format :: "string list \<Rightarrow> string" where
  "trace_format [] = []"
| "trace_format (v # vs) = v @ trace_format_tail vs"

definition nul :: char where
  "nul = CHR 0x00"

definition write_mark :: "('w, 'g) env \<Rightarrow> string \<Rightarrow> ('w, unit) act" where
  "write_mark E msg =
     (if \<not> trace_good E then returnC ()
      else modifyC (\<lambda>s. s\<lparr>ps_trace := ps_trace s @ [msg @ [nul]]\<rparr>))"

text \<open>
  \<^verbatim>\<open>StartSession\<close> writes the benchmark, which protobuf prints as JSON (\<open>dump\<close>, \<open>None\<close> when it
  cannot), and gives the session the identifier that the destructor repeats.
\<close>

definition Tracer_StartSession :: "('w, 'g) env \<Rightarrow> string option \<Rightarrow> ('w, string) act" where
  "Tracer_StartSession E dump =
     (if \<not> trace_good E then returnC []
      else case dump of
             None \<Rightarrow> failC (Logf ''Unable to dump benchmark into string'')
           | Some json \<Rightarrow>
               bindC (random_string E 16) (\<lambda>ident.
               bindC (write_mark E (trace_format [''B'', show_nat (env_pid E), ''Session'', json, ident]))
                 (\<lambda>_. returnC ident)))"

definition Tracer_Start :: "('w, 'g) env \<Rightarrow> string \<Rightarrow> ('w, unit) act" where
  "Tracer_Start E label = write_mark E (trace_format [''B'', show_nat (env_pid E), label])"

definition Tracer_End :: "('w, 'g) env \<Rightarrow> string \<Rightarrow> ('w, unit) act" where
  "Tracer_End E label = write_mark E (trace_format [''E'', show_nat (env_pid E), label])"

definition Tracer_destroy :: "('w, 'g) env \<Rightarrow> string \<Rightarrow> ('w, unit) act" where
  "Tracer_destroy E ident =
     write_mark E (trace_format [''E'', show_nat (env_pid E), ''Session'', ident])"

lemma write_mark_app:
  "write_mark E msg s =
     (Inr (), if trace_good E then s\<lparr>ps_trace := ps_trace s @ [msg @ [nul]]\<rparr> else s)"
  by (simp add: write_mark_def)

lemma keeps_write_mark [keeps_intros]:
  "keeps_vars (write_mark E msg)" "keeps_vars (Tracer_Start E n)" "keeps_vars (Tracer_End E n)"
  by (simp_all add: keeps_vars_def write_mark_app Tracer_Start_def Tracer_End_def)

lemma trace_format_tail_append:
  "trace_format_tail (xs @ ys) = trace_format_tail xs @ trace_format_tail ys"
  by (induction xs) simp_all

text \<open>A mark's fields can be read back when none of them contains a bar.\<close>

fun split_bars :: "string \<Rightarrow> string list" where
  "split_bars [] = [[]]"
| "split_bars (c # s) =
     (if c = CHR ''|'' then [] # split_bars s
      else case split_bars s of [] \<Rightarrow> [[c]] | w # ws \<Rightarrow> (c # w) # ws)"

lemma split_bars_field:
  "CHR ''|'' \<notin> set v \<Longrightarrow> split_bars (v @ s) = (case split_bars s of [] \<Rightarrow> [v] | w # ws \<Rightarrow> (v @ w) # ws)"
proof (induction v)
  case Nil
  have "split_bars s \<noteq> []" by (cases s) (auto split: list.splits)
  then show ?case by (cases "split_bars s") auto
qed (auto split: list.splits)

lemma split_bars_tail:
  "\<forall>v \<in> set vs. CHR ''|'' \<notin> set v \<Longrightarrow> split_bars (trace_format_tail vs) = [] # vs"
  by (induction vs) (auto simp: split_bars_field)

lemma split_trace_format:
  assumes "vs \<noteq> []" and "\<forall>v \<in> set vs. CHR ''|'' \<notin> set v"
  shows "split_bars (trace_format vs) = vs"
  using assms by (cases vs) (auto simp: split_bars_field split_bars_tail)

section \<open>Well nested marks\<close>

text \<open>
  The marks of a piece of work are well nested: every \<^verbatim>\<open>B\<close> is closed by an \<^verbatim>\<open>E\<close> of the same
  process and name, after everything begun inside it.
\<close>

definition begin_mark :: "nat \<Rightarrow> string \<Rightarrow> string" where
  "begin_mark pid n = trace_format [''B'', show_nat pid, n] @ [nul]"

definition end_mark :: "nat \<Rightarrow> string \<Rightarrow> string" where
  "end_mark pid n = trace_format [''E'', show_nat pid, n] @ [nul]"

inductive nested :: "nat \<Rightarrow> string list \<Rightarrow> bool" for pid :: nat where
  nested_Nil: "nested pid []"
| nested_span: "nested pid ms \<Longrightarrow> nested pid (begin_mark pid n # ms @ [end_mark pid n])"
| nested_append: "nested pid ms \<Longrightarrow> nested pid ms' \<Longrightarrow> nested pid (ms @ ms')"

inductive_cases nested_singleE: "nested pid [m]"

definition nested_action :: "('w, 'g) env \<Rightarrow> ('w, 'a) act \<Rightarrow> bool" where
  "nested_action E m \<longleftrightarrow>
     (\<forall>s x t. m s = (Inr x, t) \<longrightarrow> (\<exists>ms. ps_trace t = ps_trace s @ ms \<and> nested (env_pid E) ms))"

named_theorems nested_intros \<open>actions whose trace marks are well nested\<close>

lemma nested_bindC [nested_intros]:
  assumes "nested_action E m" and "\<And>x. nested_action E (k x)"
  shows "nested_action E (bindC m k)"
  unfolding nested_action_def bindC_Inr_iff
proof (intro allI impI, elim exE conjE)
  fix s x t y u
  assume "m s = (Inr y, u)" "k y u = (Inr x, t)"
  then obtain ms ms' where "ps_trace u = ps_trace s @ ms" "nested (env_pid E) ms"
      "ps_trace t = ps_trace u @ ms'" "nested (env_pid E) ms'"
    using assms unfolding nested_action_def by blast
  then show "\<exists>ms. ps_trace t = ps_trace s @ ms \<and> nested (env_pid E) ms"
    by (intro exI [of _ "ms @ ms'"]) (simp add: nested_append)
qed

text \<open>An action that writes no mark at all.\<close>

definition silent :: "('w, 'a) act \<Rightarrow> bool" where
  "silent m \<longleftrightarrow> (\<forall>s. ps_trace (snd (m s)) = ps_trace s)"

named_theorems silent_intros \<open>actions that write no trace mark\<close>

lemma silent_nested: "silent m \<Longrightarrow> nested_action E m"
  unfolding silent_def nested_action_def
  by (metis append_Nil2 nested_Nil snd_conv)

lemma silent_bindC [silent_intros]: "silent m \<Longrightarrow> (\<And>x. silent (k x)) \<Longrightarrow> silent (bindC m k)"
  unfolding silent_def bindC_def by (simp split: prod.splits sum.splits) (metis snd_conv)

lemma silent_if [silent_intros]:
  "silent m \<Longrightarrow> silent n \<Longrightarrow> silent (if b then m else n)"
  by simp

lemma silent_basic [silent_intros]:
  "silent (returnC x)" "silent (failC e)" "silent (liftR r)" "silent (getC f)"
  "silent (fail_ifC b e)" "silent (sysC g)" "silent (varsC v)" "silent (Pair r)"
  by (simp_all add: silent_def fail_ifC_def sysC_def varsC_def split: prod.splits)

lemma silent_shared [silent_intros]:
  "silent (shared_int k)" "silent (shared_string k)" "silent GetAbsolutePath"
  unfolding shared_int_def shared_string_def GetAbsolutePath_def
  by (intro silent_intros)+

lemma silent_utils [silent_intros]:
  "silent (GetFileSize E fd)" "silent (GetFilePath E fd)" "silent (FileExists E p)"
  unfolding GetFileSize_def GetFilePath_def FileExists_def
  by (auto intro!: silent_intros split: prod.splits)

lemma silent_mapC [silent_intros]: "(\<And>x. silent (f x)) \<Longrightarrow> silent (mapC f xs)"
  by (induction xs) (auto intro!: silent_intros)

lemma silent_foldC [silent_intros]: "(\<And>b x. silent (f b x)) \<Longrightarrow> silent (foldC f b xs)"
  by (induction xs arbitrary: b) (auto intro!: silent_intros)

section \<open>The samplers\<close>

record time_sampler =
  ts_start :: timespec
  ts_end :: timespec
  ts_samples :: "timespec list"

definition new_sampler :: time_sampler where
  "new_sampler = \<lparr>ts_start = Timespec 0 0, ts_end = Timespec 0 0, ts_samples = []\<rparr>"

definition read_clock :: "('w, 'g) env \<Rightarrow> timespec \<Rightarrow> ('w, timespec) act" where
  "read_clock E old =
     bindC (sysC (clock_gettime E CLOCK_MONOTONIC))
       (\<lambda>(ret, now). returnC (if ret = 0 then now else old))"

definition MeasureStart :: "('w, 'g) env \<Rightarrow> time_sampler \<Rightarrow> ('w, time_sampler) act" where
  "MeasureStart E ts = bindC (read_clock E (ts_start ts)) (\<lambda>now. returnC (ts\<lparr>ts_start := now\<rparr>))"

definition MeasureEnd :: "('w, 'g) env \<Rightarrow> time_sampler \<Rightarrow> ('w, time_sampler) act" where
  "MeasureEnd E ts =
     bindC (read_clock E (ts_end ts)) (\<lambda>now.
     bindC (liftR (timespec_minus now (ts_start ts))) (\<lambda>d.
     returnC (ts\<lparr>ts_end := now, ts_samples := ts_samples ts @ [d]\<rparr>)))"

text \<open>
  \<^verbatim>\<open>BandwidthSampler::Measure\<close>: bytes per millisecond of the \<^verbatim>\<open>size_t\<close> number of bytes, then
  kilobytes per second. A duration of 0 ns gives an infinity or \<open>NaN\<close>.
\<close>

definition Bandwidth_Measure :: "u64 \<Rightarrow> timespec \<Rightarrow> f64 res" where
  "Bandwidth_Measure file_size duration =
     bindR (TimespecToNanos duration) (\<lambda>ns.
     let per_ms = fdiv (fmul (f64_of_int (uint file_size)) (Fin 1000000)) (f64_of_int ns)
     in Inr (fdiv (fmul per_ms (Fin 1000)) (Fin 1024)))"

lemma silent_samplers [silent_intros]:
  "silent (read_clock E old)" "silent (MeasureStart E ts)" "silent (MeasureEnd E ts)"
  unfolding MeasureStart_def MeasureEnd_def read_clock_def
  by (auto intro!: silent_intros split: prod.splits)

lemma keeps_samplers [keeps_intros]:
  "keeps_vars (read_clock E old)" "keeps_vars (MeasureStart E ts)" "keeps_vars (MeasureEnd E ts)"
  unfolding MeasureStart_def MeasureEnd_def read_clock_def
  by (auto intro!: keeps_intros split: prod.splits)

lemma MeasureStart_samples:
  "MeasureStart E ts s = (Inr ts', t) \<Longrightarrow> ts_samples ts' = ts_samples ts"
  by (auto simp: MeasureStart_def comp_Inr_iffs)

lemma MeasureEnd_samples:
  "MeasureEnd E ts s = (Inr ts', t) \<Longrightarrow> \<exists>d. ts_samples ts' = ts_samples ts @ [d]"
  by (auto simp: MeasureEnd_def comp_Inr_iffs)

end
