(* ===== verification/Sample_Env.thy ===== *)
theory Sample_Env
  imports Machine
begin

text \<open>
  One concrete environment, on which the witnesses evaluate the model: every call succeeds and
  is logged, the monotonic clock advances by 1000 ns per reading, every file has the same size,
  and draws come from a counter. It is an instance for examples, not part of the model.
\<close>

datatype sys_call = Call string "int list"

record sample_world =
  sw_now :: nat
  sw_size :: int
  sw_next :: int
  sw_entries :: "(int \<times> string) list"
  sw_maps :: "int list"
  sw_calls :: "sys_call list"

definition log_call :: "string \<Rightarrow> int list \<Rightarrow> sample_world \<Rightarrow> sample_world" where
  "log_call n args w = w\<lparr>sw_calls := sw_calls w @ [Call n args]\<rparr>"

definition fresh :: "sample_world \<Rightarrow> int \<times> sample_world" where
  "fresh w = (sw_next w, w\<lparr>sw_next := sw_next w + 1\<rparr>)"

definition sample_clock :: "clock_id \<Rightarrow> sample_world \<Rightarrow> (int \<times> timespec) \<times> sample_world" where
  "sample_clock c w =
     ((0, Timespec (7 + int (sw_now w) div 1000000000 mod 1000000) (int (sw_now w) mod 1000000000)),
      w\<lparr>sw_now := sw_now w + 1000\<rparr>)"

definition sample_mmap :: "u64 \<Rightarrow> sample_world \<Rightarrow> int option \<times> sample_world" where
  "sample_mmap n w =
     (let a = 1 + foldr max (sw_maps w) 0 in (Some a, w\<lparr>sw_maps := a # sw_maps w\<rparr>))"

definition sample_munmap :: "int \<Rightarrow> u64 \<Rightarrow> sample_world \<Rightarrow> int \<times> sample_world" where
  "sample_munmap a n w = (0, w\<lparr>sw_maps := removeAll a (sw_maps w)\<rparr>)"

definition sample_draw :: "int \<Rightarrow> int \<Rightarrow> nat \<Rightarrow> int \<times> nat" where
  "sample_draw lo hi g = (lo + int g mod (hi - lo + 1), Suc g)"

definition sample_env :: "(sample_world, nat) env" where
  "sample_env =
     \<lparr>sys_Access = (\<lambda>p m w. (-1, w)),
      sys_Close = (\<lambda>fd w. (0, log_call ''close'' [fd] w)),
      sys_CloseDir = (\<lambda>d w. (0, log_call ''closedir'' [d] w)),
      sys_FAdvise = (\<lambda>fd off n adv w. (0, log_call ''fadvise'' [fd, off, n, adv] w)),
      sys_FAllocate = (\<lambda>fd m off n w. (0, (log_call ''fallocate'' [fd, m, off, n] w)\<lparr>sw_size := n\<rparr>)),
      sys_FTruncate = (\<lambda>fd n w. (0, (log_call ''ftruncate'' [fd, n] w)\<lparr>sw_size := n\<rparr>)),
      sys_FStat = (\<lambda>fd w. ((0, sw_size w), w)),
      sys_FSync = (\<lambda>fd w. (0, log_call ''fsync'' [fd] w)),
      sys_Open = (\<lambda>p f m w. (case fresh w of (fd, w') \<Rightarrow> (fd, log_call ''open'' [f, m] w'))),
      sys_OpenDir = (\<lambda>p w. (case fresh w of (d, w') \<Rightarrow> (Some d, w'))),
      sys_Read = (\<lambda>fd c off w. ((max 0 c, []), log_call ''read'' [fd, c, off] w)),
      sys_SchedSetattr = (\<lambda>p a f w. (0, w)),
      sys_ReadDir = (\<lambda>d w. (case sw_entries w of [] \<Rightarrow> (None, w)
                                     | e # es \<Rightarrow> (Some e, w\<lparr>sw_entries := es\<rparr>))),
      sys_ReadLink = (\<lambda>p w. ((0, ''/f''), w)),
      sys_Sync = log_call ''sync'' [],
      sys_Unlink = (\<lambda>p w. (0, log_call ''unlink'' [] w)),
      sys_Write = (\<lambda>fd buf c off w. (max 0 c, log_call ''write'' [fd, c, off] w)),
      sys_LockMutex = (\<lambda>p m w. ((0, m), log_call ''lock'' [] w)),
      sys_UnlockMutex = (\<lambda>p m w. ((0, m), log_call ''unlock'' [] w)),
      clock_gettime = sample_clock,
      clock_nanosleep = (\<lambda>t w. (0, log_call ''sleep'' [tv_sec t, tv_nsec t] w)),
      mmap_anon = sample_mmap,
      munmap = sample_munmap,
      new_nothrow = (\<lambda>n w. (True, w)),
      time_now = (\<lambda>w. (1700000000, w)),
      sched_setaffinity = (\<lambda>m w. (0, w)),
      pthread_setname = (\<lambda>n w. (0, w)),
      libc_rand = (\<lambda>w. (11, w)),
      pick_thread = (\<lambda>ids w. (hd ids, w)),
      rng_seed = unat,
      rng_draw = sample_draw,
      trace_good = True,
      env_pid = 42\<rparr>"

lemma sample_env_draws: "draws_in_range sample_env"
  unfolding draws_in_range_def
proof (intro allI impI)
  fix lo hi :: int and g :: nat
  assume "lo \<le> hi"
  then have "0 < hi - lo + 1" by simp
  then have "0 \<le> int g mod (hi - lo + 1)" "int g mod (hi - lo + 1) < hi - lo + 1"
    by (rule pos_mod_sign, rule pos_mod_bound)
  then have "int g mod (hi - lo + 1) \<le> hi - lo" by simp
  with \<open>0 \<le> int g mod (hi - lo + 1)\<close>
  show "lo \<le> fst (rng_draw sample_env lo hi g) \<and> fst (rng_draw sample_env lo hi g) \<le> hi"
    by (simp add: sample_env_def sample_draw_def)
qed

definition sample_world0 :: sample_world where
  "sample_world0 = \<lparr>sw_now = 0, sw_size = 4096, sw_next = 3,
     sw_entries = [(8, ''a''), (4, ''sub''), (8, ''b'')], sw_maps = [], sw_calls = []\<rparr>"

text \<open>A process whose variable 0 is the absolute path and whose variable 1 holds descriptor 5.\<close>

definition sample_state :: "sample_world pstate" where
  "sample_state =
     \<lparr>ps_world = sample_world0,
      ps_vars = \<lparr>sv_variables = [VString ''/data/'', VInt 5, VInt 0], sv_capacity = 4, sv_buffer = 3,
                 sv_keys = Map.empty\<rparr>,
      ps_trace = [], ps_path_key = 0\<rparr>"

lemma sample_holds: "holds_int 1 5 sample_state" "holds_string 0 ''/data/'' sample_state"
  by (simp_all add: sample_state_def holds_int_def holds_string_def valid_key_def)

end
