(* ===== verification/Instruction.thy ===== *)
theory Instruction
  imports Measurement Sample_Env
begin

text \<open>
  \<^verbatim>\<open>src/instruction.cpp\<close>: the base class of all instructions. Its fields are the record
  \<open>ibase\<close>; a derived class holds one and calls the operations below where the C++ code calls
  \<^verbatim>\<open>Instruction::SetUp\<close> and the others. A method that changes the object returns the changed one.

  \<^verbatim>\<open>Run\<close> is written once, for any class that provides the three virtual methods, and the
  locale \<open>instruction_class\<close> says what the rest of the program relies on: that a derived class
  passes each of \<^verbatim>\<open>SetUpSingle\<close> and \<^verbatim>\<open>TearDownSingle\<close> on to the base class once, and that
  \<^verbatim>\<open>RunSingle\<close> leaves the base class alone.
\<close>

section \<open>The model\<close>

datatype order_kind = kSequential | kRandom
datatype reseeding_kind = kOnce | kEachRoundOfCycles | kEachCycle
datatype free_policy = kKeep | kFreeLastPeriod | kFreeEveryPeriod

record params =
  pr_repeat :: int
  pr_period_us :: u64
  pr_offset_us :: u64

record ibase =
  ib_name :: string
  ib_repeat :: int
  ib_period_us :: u64
  ib_offset_us :: u64
  ib_next_wakeup :: timespec
  ib_sampler :: time_sampler

definition Instruction_ctor :: "string \<Rightarrow> params \<Rightarrow> ibase" where
  "Instruction_ctor name p =
     \<lparr>ib_name = name, ib_repeat = pr_repeat p, ib_period_us = pr_period_us p,
      ib_offset_us = pr_offset_us p, ib_next_wakeup = Timespec 0 0, ib_sampler = new_sampler\<rparr>"

definition is_timed :: "ibase \<Rightarrow> bool" where
  "is_timed b \<longleftrightarrow> ib_period_us b \<noteq> 0 \<or> ib_offset_us b \<noteq> 0"

text \<open>\<^verbatim>\<open>t + MicrosToTimespec(us)\<close> for an unsigned number of microseconds.\<close>

definition add_micros :: "timespec \<Rightarrow> u64 \<Rightarrow> timespec res" where
  "add_micros t us = bindR (MicrosToTimespec (u64_to_i64 us)) (timespec_plus t)"

definition Instruction_SetUp :: "('w, 'g) env \<Rightarrow> ibase \<Rightarrow> ('w, ibase) act" where
  "Instruction_SetUp E b =
     (if \<not> is_timed b then returnC b
      else bindC (read_clock E (ib_next_wakeup b)) (\<lambda>now.
           if ib_offset_us b = 0 then returnC (b\<lparr>ib_next_wakeup := now\<rparr>)
           else bindC (liftR (add_micros now (ib_offset_us b))) (\<lambda>w.
                returnC (b\<lparr>ib_next_wakeup := w\<rparr>))))"

definition wait_wakeup :: "('w, 'g) env \<Rightarrow> ibase \<Rightarrow> ('w, ibase) act" where
  "wait_wakeup E b =
     (if \<not> is_timed b then returnC b
      else bindC (sysC (clock_nanosleep E (ib_next_wakeup b))) (\<lambda>ret.
           bindC (fail_ifC (ret \<noteq> 0) (Plogf ''Offset clock interrupted'')) (\<lambda>_.
           bindC (liftR (add_micros (ib_next_wakeup b) (ib_period_us b))) (\<lambda>w.
           returnC (b\<lparr>ib_next_wakeup := w\<rparr>)))))"

definition Instruction_SetUpSingle :: "('w, 'g) env \<Rightarrow> ibase \<Rightarrow> ('w, ibase) act" where
  "Instruction_SetUpSingle E b =
     bindC (wait_wakeup E b) (\<lambda>b'.
     bindC (Tracer_Start E (ib_name b)) (\<lambda>_.
     bindC (MeasureStart E (ib_sampler b')) (\<lambda>ts.
     returnC (b'\<lparr>ib_sampler := ts\<rparr>))))"

definition Instruction_TearDownSingle :: "('w, 'g) env \<Rightarrow> bool \<Rightarrow> ibase \<Rightarrow> ('w, ibase) act" where
  "Instruction_TearDownSingle E is_last b =
     bindC (MeasureEnd E (ib_sampler b)) (\<lambda>ts.
     bindC (Tracer_End E (ib_name b)) (\<lambda>_.
     returnC (b\<lparr>ib_sampler := ts\<rparr>)))"

text \<open>How a class that does not override a method inherits it.\<close>

definition inherit :: "(ibase \<Rightarrow> ('w, ibase) act) \<Rightarrow> ibase \<times> 'f \<Rightarrow> ('w, ibase \<times> 'f) act" where
  "inherit m ob = (case ob of (b, f) \<Rightarrow> bindC (m b) (\<lambda>b'. returnC (b', f)))"

text \<open>\<^verbatim>\<open>TearDown\<close> does nothing.\<close>

definition Instruction_TearDown :: "ibase \<Rightarrow> ('w, ibase) act" where
  "Instruction_TearDown b = returnC b"

text \<open>
  The loop of \<^verbatim>\<open>Run\<close>: \<open>single is_last\<close> is the body, \<^verbatim>\<open>SetUpSingle(); RunSingle();
  TearDownSingle(is_last)\<close>. A \<^verbatim>\<open>repeat_\<close> that is not positive runs nothing.
\<close>

fun run_times :: "(bool \<Rightarrow> 'o \<Rightarrow> ('s, 'o) comp) \<Rightarrow> nat \<Rightarrow> 'o \<Rightarrow> ('s, 'o) comp" where
  "run_times single 0 ob = returnC ob"
| "run_times single (Suc n) ob = bindC (single (n = 0) ob) (run_times single n)"

definition Instruction_single ::
  "('o \<Rightarrow> ('s, 'o) comp) \<Rightarrow> ('o \<Rightarrow> ('s, 'o) comp) \<Rightarrow> (bool \<Rightarrow> 'o \<Rightarrow> ('s, 'o) comp)
     \<Rightarrow> bool \<Rightarrow> 'o \<Rightarrow> ('s, 'o) comp" where
  "Instruction_single set_up_single run_single tear_down_single is_last ob =
     bindC (set_up_single ob) (\<lambda>ob1. bindC (run_single ob1) (tear_down_single is_last))"

definition Instruction_Run ::
  "('o \<Rightarrow> ibase) \<Rightarrow> ('o \<Rightarrow> ('s, 'o) comp) \<Rightarrow> ('o \<Rightarrow> ('s, 'o) comp) \<Rightarrow> (bool \<Rightarrow> 'o \<Rightarrow> ('s, 'o) comp)
     \<Rightarrow> 'o \<Rightarrow> ('s, 'o) comp" where
  "Instruction_Run base set_up_single run_single tear_down_single ob =
     run_times (Instruction_single set_up_single run_single tear_down_single)
       (nat (ib_repeat (base ob))) ob"

section \<open>The effect of one iteration on the base class\<close>

text \<open>\<open>step_base E b b'\<close>: from \<open>b\<close> to \<open>b'\<close> by one successful iteration of the base class.\<close>

definition set_up_base :: "('w, 'g) env \<Rightarrow> ibase \<Rightarrow> ibase \<Rightarrow> bool" where
  "set_up_base E b b' \<longleftrightarrow> (\<exists>s t. Instruction_SetUpSingle E b s = (Inr b', t))"

definition tear_down_base :: "('w, 'g) env \<Rightarrow> ibase \<Rightarrow> ibase \<Rightarrow> bool" where
  "tear_down_base E b b' \<longleftrightarrow> (\<exists>l s t. Instruction_TearDownSingle E l b s = (Inr b', t))"

lemma set_up_baseI [intro]: "Instruction_SetUpSingle E b s = (Inr b', t) \<Longrightarrow> set_up_base E b b'"
  unfolding set_up_base_def by blast

lemma tear_down_baseI [intro]:
  "Instruction_TearDownSingle E l b s = (Inr b', t) \<Longrightarrow> tear_down_base E b b'"
  unfolding tear_down_base_def by blast

definition same_params :: "ibase \<Rightarrow> ibase \<Rightarrow> bool" where
  "same_params b b' \<longleftrightarrow>
     ib_name b' = ib_name b \<and> ib_repeat b' = ib_repeat b \<and>
     ib_period_us b' = ib_period_us b \<and> ib_offset_us b' = ib_offset_us b"

lemma same_params_refl [simp]: "same_params b b"
  by (simp add: same_params_def)

lemma same_params_trans: "same_params a b \<Longrightarrow> same_params b c \<Longrightarrow> same_params a c"
  by (simp add: same_params_def)

lemma same_params_timed: "same_params a b \<Longrightarrow> is_timed b = is_timed a"
  by (simp add: same_params_def is_timed_def)

lemma wait_wakeup_Inr:
  assumes "wait_wakeup E b s = (Inr b', t)"
  shows "if is_timed b
         then \<exists>w. add_micros (ib_next_wakeup b) (ib_period_us b) = Inr w \<and> b' = b\<lparr>ib_next_wakeup := w\<rparr>
         else b' = b \<and> t = s"
  using assms by (auto simp: wait_wakeup_def comp_Inr_iffs split: if_splits)

lemma set_up_base_effect:
  assumes "set_up_base E b b'"
  shows "same_params b b'" and "ts_samples (ib_sampler b') = ts_samples (ib_sampler b)"
    and "if is_timed b
         then add_micros (ib_next_wakeup b) (ib_period_us b) = Inr (ib_next_wakeup b')
         else ib_next_wakeup b' = ib_next_wakeup b"
proof -
  obtain s t b1 s1 s2 s3 ts where *: "wait_wakeup E b s = (Inr b1, s1)"
      "MeasureStart E (ib_sampler b1) s2 = (Inr ts, s3)" "b' = b1\<lparr>ib_sampler := ts\<rparr>"
    using assms
    by (auto simp: set_up_base_def Instruction_SetUpSingle_def bindC_Inr_iff)
  note w = wait_wakeup_Inr [OF *(1)] and m = MeasureStart_samples [OF *(2)]
  show "same_params b b'" using w *(3) by (auto simp: same_params_def split: if_splits)
  show "ts_samples (ib_sampler b') = ts_samples (ib_sampler b)"
    using w m *(3) by (auto split: if_splits)
  show "if is_timed b
        then add_micros (ib_next_wakeup b) (ib_period_us b) = Inr (ib_next_wakeup b')
        else ib_next_wakeup b' = ib_next_wakeup b"
    using w *(3) by (auto split: if_splits)
qed

lemma tear_down_base_effect:
  assumes "tear_down_base E b b'"
  shows "same_params b b'" and "\<exists>d. ts_samples (ib_sampler b') = ts_samples (ib_sampler b) @ [d]"
    and "ib_next_wakeup b' = ib_next_wakeup b"
proof -
  obtain s ts s1 where *: "MeasureEnd E (ib_sampler b) s = (Inr ts, s1)" "b' = b\<lparr>ib_sampler := ts\<rparr>"
    using assms
    by (auto simp: tear_down_base_def Instruction_TearDownSingle_def bindC_Inr_iff)
  show "\<exists>d. ts_samples (ib_sampler b') = ts_samples (ib_sampler b) @ [d]"
    using MeasureEnd_samples [OF *(1)] *(2) by simp
  show "same_params b b'" "ib_next_wakeup b' = ib_next_wakeup b"
    using *(2) by (simp_all add: same_params_def)
qed

text \<open>Without a period or an offset, an iteration of the base class never fails in \<^verbatim>\<open>SetUpSingle\<close>.\<close>

lemma keeps_base [keeps_intros]:
  "keeps_vars (Instruction_SetUpSingle E b)" "keeps_vars (Instruction_TearDownSingle E l b)"
  "keeps_vars (Instruction_SetUp E b)"
  unfolding Instruction_SetUpSingle_def Instruction_TearDownSingle_def Instruction_SetUp_def
    wait_wakeup_def
  by (auto intro!: keeps_intros)

lemma Instruction_SetUpSingle_untimed:
  assumes "\<not> is_timed b"
  shows "\<exists>b' t. Instruction_SetUpSingle E b s = (Inr b', t) \<and> ps_vars t = ps_vars s"
proof -
  have "\<exists>b' t. Instruction_SetUpSingle E b s = (Inr b', t)"
    using assms
    by (simp add: Instruction_SetUpSingle_def wait_wakeup_def Tracer_Start_def write_mark_app
        MeasureStart_def read_clock_def bindC_def sysC_def split: prod.splits)
  then show ?thesis using keeps_varsD [OF keeps_base(1)] by blast
qed

lemma silent_wait [silent_intros]: "silent (wait_wakeup E b)" "silent (Instruction_SetUp E b)"
  unfolding wait_wakeup_def Instruction_SetUp_def by (auto intro!: silent_intros)

lemma SetUpSingle_trace:
  assumes "Instruction_SetUpSingle E b s = (Inr b', t)"
  shows "ps_trace t =
    (if trace_good E then ps_trace s @ [begin_mark (env_pid E) (ib_name b)] else ps_trace s)"
proof -
  obtain b1 s1 s2 ts where *: "wait_wakeup E b s = (Inr b1, s1)" "Tracer_Start E (ib_name b) s1 = (Inr (), s2)"
      "MeasureStart E (ib_sampler b1) s2 = (Inr ts, t)"
    using assms by (auto simp: Instruction_SetUpSingle_def bindC_Inr_iff)
  have "ps_trace s1 = ps_trace s" "ps_trace t = ps_trace s2"
    using *(1,3) silent_wait(1) silent_samplers(2) unfolding silent_def by (metis snd_conv)+
  then show ?thesis using *(2) by (auto simp: Tracer_Start_def write_mark_app begin_mark_def)
qed

lemma TearDownSingle_trace:
  assumes "Instruction_TearDownSingle E l b s = (Inr b', t)"
  shows "ps_trace t =
    (if trace_good E then ps_trace s @ [end_mark (env_pid E) (ib_name b)] else ps_trace s)"
proof -
  obtain s1 ts where *: "MeasureEnd E (ib_sampler b) s = (Inr ts, s1)" "Tracer_End E (ib_name b) s1 = (Inr (), t)"
    using assms by (auto simp: Instruction_TearDownSingle_def bindC_Inr_iff)
  have "ps_trace s1 = ps_trace s"
    using *(1) silent_samplers(3) unfolding silent_def by (metis snd_conv)
  then show ?thesis using *(2) by (auto simp: Tracer_End_def write_mark_app end_mark_def)
qed

text \<open>The wake-up time after \<open>n\<close> iterations: \<open>n\<close> times a period later.\<close>

fun add_periods :: "nat \<Rightarrow> u64 \<Rightarrow> timespec \<Rightarrow> timespec res" where
  "add_periods 0 us t = Inr t"
| "add_periods (Suc n) us t = bindR (add_micros t us) (add_periods n us)"

lemma add_micros_nanos:
  assumes "normal_ts t" and "uint us < 2 ^ 33 * 1000000"
  shows "\<exists>v. add_micros t us = Inr v \<and> nanos v = nanos t + 1000 * uint us \<and>
           0 \<le> tv_sec v \<and> 0 \<le> tv_nsec v \<and> tv_nsec v < 1000000000"
proof -
  have "u64_to_i64 us = uint us" using assms(2) by (intro u64_to_i64_small) simp
  then obtain p where p: "MicrosToTimespec (u64_to_i64 us) = Inr p" "normal_ts p"
      "nanos p = 1000 * uint us"
    using MicrosToTimespec_normal [OF uint_ge_0 assms(2)] by auto
  obtain v where "timespec_plus t p = Inr v" "nanos v = nanos t + nanos p"
      "0 \<le> tv_sec v" "0 \<le> tv_nsec v" "tv_nsec v < 1000000000"
    using timespec_plus_normal [OF assms(1) p(2)] by blast
  then show ?thesis using p by (simp add: add_micros_def)
qed

lemma inherit_Inr_iff:
  "inherit m ob s = (Inr ob', t) \<longleftrightarrow> m (fst ob) s = (Inr (fst ob'), t) \<and> snd ob' = snd ob"
  by (cases ob; cases ob') (auto simp: inherit_def comp_Inr_iffs)

section \<open>The interface of a class of instructions\<close>

text \<open>
  The objects the laws are about satisfy \<open>ok\<close>, which the methods keep. The laws mention only
  iterations that succeed: an iteration that fails ends the process.
\<close>

locale instruction_class =
  fixes E :: "('w, 'g) env"
    and base :: "'o \<Rightarrow> ibase"
    and set_up_single :: "'o \<Rightarrow> ('w, 'o) act"
    and run_single :: "'o \<Rightarrow> ('w, 'o) act"
    and tear_down_single :: "bool \<Rightarrow> 'o \<Rightarrow> ('w, 'o) act"
    and ok :: "'o \<Rightarrow> bool"
  assumes set_up_law:
      "ok ob \<Longrightarrow> set_up_single ob s = (Inr ob', t) \<Longrightarrow> ok ob' \<and> set_up_base E (base ob) (base ob')"
    and run_law: "ok ob \<Longrightarrow> run_single ob s = (Inr ob', t) \<Longrightarrow> ok ob' \<and> base ob' = base ob"
    and tear_down_law:
      "ok ob \<Longrightarrow> tear_down_single l ob s = (Inr ob', t) \<Longrightarrow>
         ok ob' \<and> tear_down_base E (base ob) (base ob')"
begin

lemma single_effect:
  assumes "ok ob" and "Instruction_single set_up_single run_single tear_down_single l ob s = (Inr ob', t)"
  shows "ok ob' \<and> same_params (base ob) (base ob') \<and>
     length (ts_samples (ib_sampler (base ob'))) = Suc (length (ts_samples (ib_sampler (base ob)))) \<and>
     (if is_timed (base ob)
      then add_micros (ib_next_wakeup (base ob)) (ib_period_us (base ob)) = Inr (ib_next_wakeup (base ob'))
      else ib_next_wakeup (base ob') = ib_next_wakeup (base ob))"
proof -
  obtain o1 o2 s1 s2 where *: "set_up_single ob s = (Inr o1, s1)" "run_single o1 s1 = (Inr o2, s2)"
      "tear_down_single l o2 s2 = (Inr ob', t)"
    using assms(2) by (auto simp: Instruction_single_def comp_Inr_iffs)
  have u: "ok o1" "set_up_base E (base ob) (base o1)"
    using set_up_law [OF assms(1) *(1)] by auto
  have r: "ok o2" "base o2 = base o1" using run_law [OF u(1) *(2)] by auto
  have d: "ok ob'" "tear_down_base E (base o1) (base ob')"
    using tear_down_law [OF r(1) *(3)] r by auto
  show ?thesis
    using set_up_base_effect [OF u(2)] tear_down_base_effect [OF d(2)] d(1)
    by (auto intro: same_params_trans split: if_splits)
qed

lemma run_times_effect:
  assumes "ok ob"
    and "run_times (Instruction_single set_up_single run_single tear_down_single) n ob s = (Inr ob', t)"
  shows "ok ob' \<and> same_params (base ob) (base ob') \<and>
     length (ts_samples (ib_sampler (base ob'))) = length (ts_samples (ib_sampler (base ob))) + n \<and>
     (if is_timed (base ob)
      then add_periods n (ib_period_us (base ob)) (ib_next_wakeup (base ob)) = Inr (ib_next_wakeup (base ob'))
      else ib_next_wakeup (base ob') = ib_next_wakeup (base ob))"
  using assms
proof (induction n arbitrary: ob s)
  case (Suc n)
  then obtain o1 s1 where *:
      "Instruction_single set_up_single run_single tear_down_single (n = 0) ob s = (Inr o1, s1)"
      "run_times (Instruction_single set_up_single run_single tear_down_single) n o1 s1 = (Inr ob', t)"
    by (auto simp: comp_Inr_iffs)
  note step = single_effect [OF Suc.prems(1) *(1)]
  note rest = Suc.IH [OF conjunct1 [OF step] *(2)]
  have "is_timed (base o1) = is_timed (base ob)" "ib_period_us (base o1) = ib_period_us (base ob)"
    using step by (auto simp: same_params_timed) (simp add: same_params_def)
  then show ?case using step rest by (auto intro: same_params_trans split: if_splits)
qed simp

text \<open>
  A run that succeeds has taken exactly \<^verbatim>\<open>repeat_\<close> samples and moved the wake-up time by as many
  periods.
\<close>

lemma run_effect:
  assumes "ok ob"
    and "Instruction_Run base set_up_single run_single tear_down_single ob s = (Inr ob', t)"
  shows "ok ob'" and "same_params (base ob) (base ob')"
    and "length (ts_samples (ib_sampler (base ob'))) =
           length (ts_samples (ib_sampler (base ob))) + nat (ib_repeat (base ob))"
    and "is_timed (base ob) \<Longrightarrow>
           add_periods (nat (ib_repeat (base ob))) (ib_period_us (base ob)) (ib_next_wakeup (base ob))
             = Inr (ib_next_wakeup (base ob'))"
  using run_times_effect [OF assms(1), of "nat (ib_repeat (base ob))" s ob' t] assms(2)
  by (auto simp: Instruction_Run_def)

end

text \<open>A class that also takes one measurement of its own in every iteration.\<close>

locale measuring_class = instruction_class E base set_up_single run_single tear_down_single ok
  for E :: "('w, 'g) env"
    and base :: "'o \<Rightarrow> ibase"
    and set_up_single :: "'o \<Rightarrow> ('w, 'o) act"
    and run_single :: "'o \<Rightarrow> ('w, 'o) act"
    and tear_down_single :: "bool \<Rightarrow> 'o \<Rightarrow> ('w, 'o) act"
    and ok :: "'o \<Rightarrow> bool" +
  fixes count :: "'o \<Rightarrow> nat"
  assumes set_up_count: "ok ob \<Longrightarrow> set_up_single ob s = (Inr ob', t) \<Longrightarrow> count ob' = count ob"
    and run_count: "ok ob \<Longrightarrow> run_single ob s = (Inr ob', t) \<Longrightarrow> count ob' = count ob"
    and tear_down_count:
      "ok ob \<Longrightarrow> tear_down_single l ob s = (Inr ob', t) \<Longrightarrow> count ob' = Suc (count ob)"
begin

lemma run_times_count:
  assumes "ok ob"
    and "run_times (Instruction_single set_up_single run_single tear_down_single) n ob s = (Inr ob', t)"
  shows "count ob' = count ob + n"
  using assms
proof (induction n arbitrary: ob s)
  case (Suc n)
  then obtain o3 s3 where
      i: "Instruction_single set_up_single run_single tear_down_single (n = 0) ob s = (Inr o3, s3)"
      and rest: "run_times (Instruction_single set_up_single run_single tear_down_single) n o3 s3
        = (Inr ob', t)"
    by (auto simp: comp_Inr_iffs)
  then obtain o1 o2 s1 s2 where *: "set_up_single ob s = (Inr o1, s1)"
      "run_single o1 s1 = (Inr o2, s2)" "tear_down_single (n = 0) o2 s2 = (Inr o3, s3)"
    by (auto simp: comp_Inr_iffs Instruction_single_def)
  have "ok o1" using set_up_law Suc.prems(1) *(1) by blast
  moreover from this have "ok o2" using run_law *(2) by blast
  moreover from this have "ok o3" using tear_down_law *(3) by blast
  ultimately show ?case
    using Suc.IH [OF _ rest] set_up_count [OF Suc.prems(1) *(1)] run_count [OF _ *(2)]
      tear_down_count [OF _ *(3)] by simp
qed simp

lemma run_count_total:
  assumes "ok ob"
    and "Instruction_Run base set_up_single run_single tear_down_single ob s = (Inr ob', t)"
  shows "count ob' = count ob + nat (ib_repeat (base ob))"
  using run_times_count [OF assms(1)] assms(2) by (simp add: Instruction_Run_def)

end

section \<open>The base class is such a class\<close>

text \<open>Its \<^verbatim>\<open>RunSingle\<close> is pure virtual; \<open>work\<close> is what a derived class puts there.\<close>

definition run_work :: "('w, unit) act \<Rightarrow> ibase \<Rightarrow> ('w, ibase) act" where
  "run_work work b = bindC work (\<lambda>_. returnC b)"

interpretation plain: instruction_class E "\<lambda>b. b" "Instruction_SetUpSingle E" "run_work work"
  "Instruction_TearDownSingle E" "\<lambda>_. True"
  for E :: "('w, 'g) env" and work :: "('w, unit) act"
  by unfold_locales (auto simp: set_up_base_def tear_down_base_def run_work_def comp_Inr_iffs)

section \<open>Properties of \<^verbatim>\<open>Run\<close>\<close>

lemma bindC_run_times_0: "bindC m (run_times single 0) = m"
proof -
  have "run_times single 0 = returnC" by (rule ext) simp
  then show ?thesis by simp
qed

lemma run_times_invariant:
  assumes "\<And>l ob s ob' t. I ob s \<Longrightarrow> single l ob s = (Inr ob', t) \<Longrightarrow> I ob' t"
    and "I ob s" and "run_times single n ob s = (Inr ob', t)"
  shows "I ob' t"
  using assms(2,3)
proof (induction n arbitrary: ob s)
  case (Suc n)
  then obtain o1 s1 where "single (n = 0) ob s = (Inr o1, s1)" "run_times single n o1 s1 = (Inr ob', t)"
    by (auto simp: bindC_Inr_iff)
  then show ?case using Suc.IH assms(1) [OF Suc.prems(1)] by blast
qed simp

text \<open>The unrolled loop: every iteration but the final one is told that it is not the last.\<close>

lemma run_times_snoc:
  "run_times single (Suc n) ob =
     bindC (foldC (\<lambda>ob _. single False ob) ob (replicate n ())) (single True)"
proof (induction n arbitrary: ob)
  case 0
  show ?case by (simp add: bindC_run_times_0)
next
  case (Suc n)
  have "run_times single (Suc n) =
      (\<lambda>ob. bindC (foldC (\<lambda>ob _. single False ob) ob (replicate n ())) (single True))"
    using Suc.IH by (intro ext) simp
  then show ?case by (simp add: bindC_assoc del: run_times.simps(2)) (simp add: bindC_assoc)
qed

text \<open>
  \<^verbatim>\<open>Run\<close> executes its body \<^verbatim>\<open>repeat_\<close> times, and only the last
  execution is told that it is the last.
\<close>

lemma Run_unrolled:
  assumes "0 < ib_repeat (base ob)"
  shows "Instruction_Run base su rs td ob =
     bindC (foldC (\<lambda>ob _. Instruction_single su rs td False ob) ob
              (replicate (nat (ib_repeat (base ob)) - 1) ()))
       (Instruction_single su rs td True)"
proof -
  obtain n where n: "nat (ib_repeat (base ob)) = Suc n"
    using assms by (cases "nat (ib_repeat (base ob))") auto
  show ?thesis unfolding Instruction_Run_def n run_times_snoc by simp
qed

lemma Run_once:
  assumes "ib_repeat (base ob) = 1"
  shows "Instruction_Run base su rs td ob = bindC (bindC (su ob) rs) (td True)"
proof -
  have "Instruction_Run base su rs td ob = Instruction_single su rs td True ob"
    using assms by (simp add: Instruction_Run_def bindC_run_times_0 One_nat_def del: One_nat_def)
  then show ?thesis by (simp add: Instruction_single_def bindC_assoc)
qed

lemma add_periods_nanos:
  assumes "normal_ts t" and "uint us < 2 ^ 33 * 1000000"
    and "nanos t + int n * (1000 * uint us) < 2 ^ 61 * 1000000000"
  shows "\<exists>v. add_periods n us t = Inr v \<and> normal_ts v \<and> nanos v = nanos t + int n * (1000 * uint us)"
  using assms(1,3)
proof (induction n arbitrary: t)
  case (Suc n)
  obtain v where v: "add_micros t us = Inr v" "nanos v = nanos t + 1000 * uint us"
      "0 \<le> tv_sec v" "0 \<le> tv_nsec v" "tv_nsec v < 1000000000"
    using add_micros_nanos [OF Suc.prems(1) assms(2)] by blast
  have sum: "nanos t + int (Suc n) * (1000 * uint us) = nanos v + int n * (1000 * uint us)"
    using v(2) by (simp add: algebra_simps)
  have "0 \<le> int n * (1000 * uint us)" by simp
  then have "nanos v < 2 ^ 61 * 1000000000" using Suc.prems(2) sum by linarith
  then have "normal_ts v" using v(3,4,5) unfolding normal_ts_def nanos_def by auto
  then show ?case using Suc.IH [of v] Suc.prems(2) v(1) sum by auto
qed simp

lemma Instruction_SetUp_wakeup:
  assumes "is_timed b" and "clock_gettime E CLOCK_MONOTONIC (ps_world s) = ((0, t), w)"
    and "normal_ts t" and "nanos t < 2 ^ 60 * 1000000000" and "uint (ib_offset_us b) < 2 ^ 33 * 1000000"
  shows "\<exists>v. Instruction_SetUp E b s = (Inr (b\<lparr>ib_next_wakeup := v\<rparr>), s\<lparr>ps_world := w\<rparr>) \<and>
           normal_ts v \<and> nanos v = nanos t + 1000 * uint (ib_offset_us b)"
proof -
  have clock: "read_clock E (ib_next_wakeup b) s = (Inr t, s\<lparr>ps_world := w\<rparr>)"
    using assms(2) by (simp add: read_clock_def bindC_def sysC_def)
  show ?thesis
  proof (cases "ib_offset_us b = 0")
    case True
    then show ?thesis using assms(1,3) clock
      by (intro exI [of _ t]) (simp add: Instruction_SetUp_def bindC_def)
  next
    case False
    obtain v where v: "add_periods 1 (ib_offset_us b) t = Inr v" "normal_ts v"
        "nanos v = nanos t + 1 * (1000 * uint (ib_offset_us b))"
      using add_periods_nanos [OF assms(3,5), of 1] assms(4,5) by auto
    then have "add_micros t (ib_offset_us b) = Inr v" by (simp add: bindR_Inr_iff)
    then show ?thesis using False assms(1) clock v
      by (intro exI [of _ v]) (simp add: Instruction_SetUp_def bindC_def)
  qed
qed

text \<open>
  C8: after \<^verbatim>\<open>SetUp\<close> at time \<open>t\<close> and a successful \<^verbatim>\<open>Run\<close>, an instruction with a period or
  an offset has slept \<^verbatim>\<open>repeat_\<close> times and its next wake-up is exactly
  \<open>t + offset + repeat \<cdot> period\<close>: the schedule does not drift with the time the work takes.
\<close>

theorem wakeups_do_not_drift:
  assumes "is_timed b" and "clock_gettime E CLOCK_MONOTONIC (ps_world s) = ((0, t), w)"
    and "normal_ts t" and "nanos t < 2 ^ 59 * 1000000000"
    and "uint (ib_offset_us b) < 2 ^ 33 * 1000000" and "uint (ib_period_us b) < 2 ^ 33 * 1000000"
    and "int (nat (ib_repeat b)) * (1000 * uint (ib_period_us b)) < 2 ^ 60 * 1000000000"
    and "bindC (Instruction_SetUp E b)
           (Instruction_Run (\<lambda>b. b) (Instruction_SetUpSingle E) (run_work work)
              (Instruction_TearDownSingle E)) s = (Inr b', s')"
  shows "nanos (ib_next_wakeup b') =
           nanos t + 1000 * uint (ib_offset_us b) + int (nat (ib_repeat b)) * (1000 * uint (ib_period_us b)) \<and>
         length (ts_samples (ib_sampler b')) = length (ts_samples (ib_sampler b)) + nat (ib_repeat b)"
proof -
  let ?n = "nat (ib_repeat b)"
  obtain v where v: "Instruction_SetUp E b s = (Inr (b\<lparr>ib_next_wakeup := v\<rparr>), s\<lparr>ps_world := w\<rparr>)"
      "normal_ts v" "nanos v = nanos t + 1000 * uint (ib_offset_us b)"
    using Instruction_SetUp_wakeup [OF assms(1,2,3) _ assms(5)] assms(4) by auto
  let ?b = "b\<lparr>ib_next_wakeup := v\<rparr>"
  have run: "Instruction_Run (\<lambda>b. b) (Instruction_SetUpSingle E) (run_work work)
      (Instruction_TearDownSingle E) ?b (s\<lparr>ps_world := w\<rparr>) = (Inr b', s')"
    using assms(8) v(1) by (simp add: bindC_def)
  have "is_timed ?b" using assms(1) by (simp add: is_timed_def)
  then have p: "add_periods ?n (ib_period_us b) v = Inr (ib_next_wakeup b')"
    using plain.run_effect(4) [OF _ run] by simp
  have samples: "length (ts_samples (ib_sampler b')) = length (ts_samples (ib_sampler b)) + ?n"
    using plain.run_effect(3) [OF _ run] by simp
  have "nanos v + int ?n * (1000 * uint (ib_period_us b)) < 2 ^ 61 * 1000000000"
  proof -
    have bound: "x < 2 ^ 59 * 1000000000 \<Longrightarrow> y < 2 ^ 33 * 1000000 \<Longrightarrow> z < 2 ^ 60 * 1000000000 \<Longrightarrow>
        x + 1000 * y + z < 2 ^ 61 * 1000000000" for x y z :: int by simp
    show ?thesis unfolding v(3) by (rule bound [OF assms(4,5,7)])
  qed
  then have "nanos (ib_next_wakeup b') =
      nanos t + 1000 * uint (ib_offset_us b) + int ?n * (1000 * uint (ib_period_us b))"
    using add_periods_nanos [OF v(2) assms(6), of ?n] p v(3) by auto
  then show ?thesis using samples by blast
qed

definition sample_timer :: ibase where
  "sample_timer = Instruction_ctor ''cpu'' \<lparr>pr_repeat = 1, pr_period_us = 1000, pr_offset_us = 0\<rparr>"

theorem wakeups_do_not_drift_witness:
  "\<exists>b' s'. bindC (Instruction_SetUp sample_env sample_timer)
       (Instruction_Run (\<lambda>b. b) (Instruction_SetUpSingle sample_env) (run_work (returnC ()))
          (Instruction_TearDownSingle sample_env)) sample_state = (Inr b', s') \<and>
     nanos (ib_next_wakeup b') = 7001000000 \<and> length (ts_samples (ib_sampler b')) = 1"
proof -
  have plus: "timespec_plus (Timespec 7 0) (Timespec 0 1000000) = Inr (Timespec 7 1000000)"
  proof -
    obtain v where v: "timespec_plus (Timespec 7 0) (Timespec 0 1000000) = Inr v"
        "tv_sec v * 1000000000 + tv_nsec v = 7001000000" "0 \<le> tv_sec v" "0 \<le> tv_nsec v"
        "tv_nsec v < 1000000000"
      using timespec_plus_normal [of "Timespec 7 0" "Timespec 0 1000000"]
      by (auto simp: normal_ts_def nanos_def)
    then have "normal_ts v" unfolding normal_ts_def by auto
    then have "v = Timespec 7 1000000" by (rule nanos_inj) (simp_all add: normal_ts_def nanos_def v(2))
    then show ?thesis using v(1) by simp
  qed
  have "u64_to_i64 1000 = 1000" by (simp add: u64_to_i64_small)
  then have add: "add_micros (Timespec 7 0) 1000 = Inr (Timespec 7 1000000)"
    by (simp add: add_micros_def MicrosToTimespec_small plus)
  have minus: "timespec_minus (Timespec 7 2000) (Timespec 7 1000) = Inr (Timespec 0 1000)"
    by (simp add: timespec_minus_def timespec_less_def chk64_def in_i64_def)
  have run: "\<exists>b' s'. bindC (Instruction_SetUp sample_env sample_timer)
      (Instruction_Run (\<lambda>b. b) (Instruction_SetUpSingle sample_env) (run_work (returnC ()))
         (Instruction_TearDownSingle sample_env)) sample_state = (Inr b', s')"
    by (simp add: sample_timer_def Instruction_ctor_def Instruction_SetUp_def is_timed_def read_clock_def
        sample_env_def sample_clock_def sample_state_def sample_world0_def Instruction_Run_def 
        Instruction_single_def Instruction_SetUpSingle_def wait_wakeup_def run_work_def write_mark_def
        Instruction_TearDownSingle_def MeasureStart_def MeasureEnd_def Tracer_Start_def Tracer_End_def
        bindC_app sysC_def add minus log_call_def new_sampler_def fail_ifC_def)
  then obtain b' s' where r: "bindC (Instruction_SetUp sample_env sample_timer)
      (Instruction_Run (\<lambda>b. b) (Instruction_SetUpSingle sample_env) (run_work (returnC ()))
         (Instruction_TearDownSingle sample_env)) sample_state = (Inr b', s')" by blast
  have "nanos (ib_next_wakeup b') =
           nanos (Timespec 7 0) + 1000 * uint (ib_offset_us sample_timer) + int (nat (ib_repeat sample_timer)) * (1000 * uint (ib_period_us sample_timer)) \<and>
         length (ts_samples (ib_sampler b')) = length (ts_samples (ib_sampler sample_timer)) + nat (ib_repeat sample_timer)"
    by (rule wakeups_do_not_drift [OF _ _ _ _ _ _ _ r])
      (simp_all add: sample_timer_def Instruction_ctor_def is_timed_def sample_env_def sample_clock_def
        sample_state_def sample_world0_def normal_ts_def nanos_def)
  then show ?thesis using r by (auto simp: sample_timer_def Instruction_ctor_def nanos_def new_sampler_def)
qed

end
