(* ===== verification/ReadWrite_File.thy ===== *)
theory ReadWrite_File
  imports Instruction
begin

text \<open>
  \<^verbatim>\<open>src/read_write_file.cpp\<close>: the instructions that read or write a file block by block. An
  object is its \<open>ibase\<close> and the fields of \<^verbatim>\<open>ReadWriteFile\<close>; \<open>WriteFile\<close> and \<open>ReadFile\<close> add a flag
  and an advice. \<^verbatim>\<open>buffer_\<close> is the list of its bytes, a unit is a pair of count and offset.

  The lemmas give the units of a round in closed form, show that they lie inside the file, and
  that an iteration issues one call per unit, in order.
\<close>

section \<open>The model\<close>

record 'g rw_file =
  rw_bandwidth :: "f64 list"
  rw_size :: int
  rw_block_size :: int
  rw_starting_offset :: int
  rw_access_order :: order_kind
  rw_gen :: 'g
  rw_seed :: u64
  rw_reseeding :: reseeding_kind
  rw_input_fd_key :: int
  rw_update_size :: bool
  rw_update_block_size :: bool
  rw_units :: "(int \<times> int) list"
  rw_buffer :: "byte list"

type_synonym 'g rw_obj = "ibase \<times> 'g rw_file"

definition ReadWriteFile_ctor ::
  "('w, 'g) env \<Rightarrow> string \<Rightarrow> params \<Rightarrow> int \<Rightarrow> int \<Rightarrow> int \<Rightarrow> order_kind \<Rightarrow> u32 \<Rightarrow> reseeding_kind \<Rightarrow> int
     \<Rightarrow> 'g rw_obj" where
  "ReadWriteFile_ctor E name p sz block_size starting_offset access_order seed reseeding input_fd_key =
     (Instruction_ctor name p,
      \<lparr>rw_bandwidth = [], rw_size = sz, rw_block_size = block_size,
       rw_starting_offset = starting_offset, rw_access_order = access_order,
       rw_gen = rng_seed E (ucast seed), rw_seed = ucast seed, rw_reseeding = reseeding,
       rw_input_fd_key = input_fd_key, rw_update_size = (sz = -1),
       rw_update_block_size = (block_size = -1), rw_units = [], rw_buffer = []\<rparr>)"

text \<open>\<^verbatim>\<open>SetUp\<close> does not call \<^verbatim>\<open>Instruction::SetUp\<close>.\<close>

definition ReadWriteFile_SetUp :: "('w, 'g) env \<Rightarrow> 'g rw_obj \<Rightarrow> ('w, 'g rw_obj) act" where
  "ReadWriteFile_SetUp E ob =
     (case ob of (b, f) \<Rightarrow>
        returnC (b, if rw_reseeding f = kEachRoundOfCycles then f\<lparr>rw_gen := rng_seed E (rw_seed f)\<rparr>
                    else f))"

text \<open>
  The loop of the sequential order. The buffer has been allocated before, so \<open>bs\<close> is not
  negative and, as it is at most the file's size, no step leaves the range of \<^verbatim>\<open>int64_t\<close>.
\<close>

fun sequential_units :: "nat \<Rightarrow> int \<Rightarrow> int \<Rightarrow> int \<Rightarrow> (int \<times> int) list" where
  "sequential_units 0 file_size bs offset = []"
| "sequential_units (Suc n) file_size bs offset =
     (let off = (if offset > file_size - bs then 0 else offset)
      in (bs, off) # sequential_units n file_size bs (off + bs))"

fun random_units :: "('w, 'g) env \<Rightarrow> nat \<Rightarrow> int \<Rightarrow> int \<Rightarrow> 'g \<Rightarrow> (int \<times> int) list \<times> 'g" where
  "random_units E 0 bs hi g = ([], g)"
| "random_units E (Suc n) bs hi g =
     (let (off, g1) = rng_draw E 0 hi g; (us, g2) = random_units E n bs hi g1
      in ((bs, off) # us, g2))"

text \<open>
  \<^verbatim>\<open>std::uniform_int_distribution<>\<close> draws an \<^verbatim>\<open>int\<close>: its bounds are converted to 32 bits, and an
  empty range is undefined.
\<close>

definition make_units :: "('w, 'g) env \<Rightarrow> int \<Rightarrow> 'g rw_file \<Rightarrow> 'g rw_file res" where
  "make_units E file_size f =
     (case rw_access_order f of
        kSequential \<Rightarrow>
          bindR (div64 (rw_size f) (rw_block_size f)) (\<lambda>n.
          Inr (f\<lparr>rw_units := sequential_units (nat n) file_size (rw_block_size f) (rw_starting_offset f)\<rparr>))
      | kRandom \<Rightarrow>
          let hi = narrow32 (file_size - rw_block_size f)
          in if hi < 0 then Inl (Undefined EmptyRange)
             else bindR (div64 (rw_size f) (rw_block_size f)) (\<lambda>n.
                  let (us, g) = random_units E (nat n) (rw_block_size f) hi (rw_gen f)
                  in Inr (f\<lparr>rw_units := us, rw_gen := g\<rparr>)))"

definition update_sizes :: "int \<Rightarrow> 'g rw_file \<Rightarrow> 'g rw_file" where
  "update_sizes file_size f =
     f\<lparr>rw_size := (if rw_update_size f then file_size else rw_size f),
       rw_block_size := (if rw_update_block_size f then file_size else rw_block_size f)\<rparr>"

definition too_large_msg :: "int \<Rightarrow> int \<Rightarrow> string \<Rightarrow> string" where
  "too_large_msg block_size file_size path =
     ''Supplied block_size ('' @ show_int block_size @ '') is greater than total file size ('' @
     show_int file_size @ ''). File path:'' @ path"

definition check_block :: "('w, 'g) env \<Rightarrow> int \<Rightarrow> int \<Rightarrow> int \<Rightarrow> ('w, unit) act" where
  "check_block E fd block_size file_size =
     (if block_size > file_size
      then bindC (GetFilePath E fd) (\<lambda>path. failC (Logf (too_large_msg block_size file_size path)))
      else returnC ())"

text \<open>
  \<^verbatim>\<open>new (std::nothrow) char[n]\<close> gives a null pointer when \<open>n\<close> is negative or the allocation fails.
\<close>

definition allocate_buffer :: "('w, 'g) env \<Rightarrow> int \<Rightarrow> ('w, byte list) act" where
  "allocate_buffer E n =
     bindC (if n < 0 then returnC False else sysC (new_nothrow E n)) (\<lambda>ok.
     if \<not> ok then failC (Plogf ''Error while allocating buffer for Read/Write'')
     else returnC (replicate (nat n) 170))"

definition ReadWriteFile_SetUpSingle :: "('w, 'g) env \<Rightarrow> 'g rw_obj \<Rightarrow> ('w, 'g rw_obj) act" where
  "ReadWriteFile_SetUpSingle E ob =
     (case ob of (b, f) \<Rightarrow>
        bindC (shared_int (rw_input_fd_key f)) (\<lambda>fd.
        bindC (GetFileSize E fd) (\<lambda>file_size.
        let f1 = update_sizes file_size f in
        bindC (check_block E fd (rw_block_size f1) file_size) (\<lambda>_.
        bindC (allocate_buffer E (rw_block_size f1)) (\<lambda>buf.
        let f2 = f1\<lparr>rw_buffer := buf\<rparr>;
            f3 = (if rw_reseeding f2 = kEachCycle then f2\<lparr>rw_gen := rng_seed E (rw_seed f2)\<rparr> else f2) in
        bindC (liftR (make_units E file_size f3)) (\<lambda>f4.
        bindC (Instruction_SetUpSingle E b) (\<lambda>b'.
        returnC (b', f4))))))))"

definition ReadWriteFile_TearDownSingle ::
  "('w, 'g) env \<Rightarrow> bool \<Rightarrow> 'g rw_obj \<Rightarrow> ('w, 'g rw_obj) act" where
  "ReadWriteFile_TearDownSingle E is_last ob =
     (case ob of (b, f) \<Rightarrow>
        bindC (Instruction_TearDownSingle E is_last b) (\<lambda>b'.
        bindC (liftR (Bandwidth_Measure (to_u64 (rw_size f)) (last (ts_samples (ib_sampler b')))))
          (\<lambda>bw. returnC (b', f\<lparr>rw_bandwidth := rw_bandwidth f @ [bw]\<rparr>))))"

subsection \<open>\<^verbatim>\<open>WriteFile\<close>\<close>

definition write_unit :: "('w, 'g) env \<Rightarrow> int \<Rightarrow> byte list \<Rightarrow> int \<times> int \<Rightarrow> ('w, unit) act" where
  "write_unit E fd buf unit =
     bindC (sysC (sys_Write E fd buf (fst unit) (snd unit))) (\<lambda>ret.
     fail_ifC (ret = -1) (Logf ''Error while calling write()''))"

text \<open>Objects of the two classes: the base class with the flag of the class.\<close>

definition WriteFile_ctor ::
  "('w, 'g) env \<Rightarrow> params \<Rightarrow> int \<Rightarrow> int \<Rightarrow> int \<Rightarrow> order_kind \<Rightarrow> u32 \<Rightarrow> reseeding_kind \<Rightarrow> bool \<Rightarrow> int \<Rightarrow> bool \<times> 'g rw_obj" where
  "WriteFile_ctor E p sz block_size starting_offset access_order seed reseeding fsync input_fd_key =
     (fsync, ReadWriteFile_ctor E ''write_file'' p sz block_size starting_offset access_order seed reseeding input_fd_key)"

definition ReadFile_ctor ::
  "('w, 'g) env \<Rightarrow> params \<Rightarrow> int \<Rightarrow> int \<Rightarrow> int \<Rightarrow> order_kind \<Rightarrow> u32 \<Rightarrow> reseeding_kind \<Rightarrow> int \<Rightarrow> int \<Rightarrow> int \<times> 'g rw_obj" where
  "ReadFile_ctor E p sz block_size starting_offset access_order seed reseeding fadvise input_fd_key =
     (fadvise, ReadWriteFile_ctor E ''read_file'' p sz block_size starting_offset access_order seed reseeding input_fd_key)"

definition WriteFile_RunSingle :: "('w, 'g) env \<Rightarrow> bool \<Rightarrow> 'g rw_obj \<Rightarrow> ('w, 'g rw_obj) act" where
  "WriteFile_RunSingle E fsync ob =
     (case ob of (b, f) \<Rightarrow>
        bindC (shared_int (rw_input_fd_key f)) (\<lambda>fd.
        bindC (foldC (\<lambda>_. write_unit E fd (rw_buffer f)) () (rw_units f)) (\<lambda>_.
        bindC (if fsync
               then bindC (sysC (sys_FSync E fd)) (\<lambda>ret.
                    fail_ifC (ret \<noteq> 0) (Logf ''Error while calling fsync()''))
               else returnC ()) (\<lambda>_.
        returnC (b, f)))))"

subsection \<open>\<^verbatim>\<open>ReadFile\<close>\<close>

text \<open>A read overwrites the front of the buffer.\<close>

definition read_unit :: "('w, 'g) env \<Rightarrow> int \<Rightarrow> byte list \<Rightarrow> int \<times> int \<Rightarrow> ('w, byte list) act" where
  "read_unit E fd buf unit =
     bindC (sysC (sys_Read E fd (fst unit) (snd unit))) (\<lambda>(ret, bytes).
     if ret = -1 then failC (Logf ''Error while calling read()'')
     else returnC (bytes @ drop (length bytes) buf))"

definition ReadFile_SetUpSingle :: "('w, 'g) env \<Rightarrow> int \<Rightarrow> 'g rw_obj \<Rightarrow> ('w, 'g rw_obj) act" where
  "ReadFile_SetUpSingle E fadvise ob =
     bindC (shared_int (rw_input_fd_key (snd ob))) (\<lambda>fd.
     bindC (GetFileSize E fd) (\<lambda>file_size.
     bindC (sysC (sys_FAdvise E fd 0 file_size fadvise)) (\<lambda>ret.
     bindC (fail_ifC (ret \<noteq> 0) (Logf ''Error while calling fadvise()'')) (\<lambda>_.
     ReadWriteFile_SetUpSingle E ob))))"

definition ReadFile_RunSingle :: "('w, 'g) env \<Rightarrow> 'g rw_obj \<Rightarrow> ('w, 'g rw_obj) act" where
  "ReadFile_RunSingle E ob =
     (case ob of (b, f) \<Rightarrow>
        bindC (shared_int (rw_input_fd_key f)) (\<lambda>fd.
        bindC (foldC (read_unit E fd) (rw_buffer f) (rw_units f)) (\<lambda>buf.
        returnC (b, f\<lparr>rw_buffer := buf\<rparr>))))"

section \<open>The units of a round\<close>

lemma sequential_units_length [simp]: "length (sequential_units n file_size bs off) = n"
  by (induction n arbitrary: off) (simp_all add: Let_def)

lemma sequential_units_in_file:
  assumes "0 \<le> bs" and "bs \<le> file_size" and "0 \<le> off"
  shows "\<forall>(c, p) \<in> set (sequential_units n file_size bs off). c = bs \<and> 0 \<le> p \<and> p + bs \<le> file_size"
  using assms(3)
proof (induction n arbitrary: off)
  case (Suc n)
  let ?p = "if off > file_size - bs then 0 else off"
  have "0 \<le> ?p \<and> ?p + bs \<le> file_size" using Suc.prems assms by simp
  then show ?case using Suc.IH [of "?p + bs"] assms(1) by (auto simp: Let_def)
qed simp

text \<open>
  From block \<open>j\<close> of a file that holds \<open>k\<close> whole blocks, the round goes through the blocks in
  turn and wraps around after the last whole one.
\<close>

lemma sequential_units_from:
  assumes "0 < bs" and "0 < k" and "file_size div bs = int k" and "j < k"
  shows "sequential_units n file_size bs (int j * bs) =
           map (\<lambda>i. (bs, int ((i + j) mod k) * bs)) [0..<n]"
  using assms(4)
proof (induction n arbitrary: j)
  case (Suc n)
  have fits: "int j * bs \<le> file_size - bs"
  proof -
    have "int (Suc j) \<le> file_size div bs" using Suc.prems assms(3) by simp
    then have "int (Suc j) * bs \<le> (file_size div bs) * bs"
      using assms(1) by (intro mult_right_mono) simp_all
    also have "\<dots> \<le> file_size" using assms(1) by (simp add: minus_mod_eq_div_mult [symmetric])
    finally have "int (Suc j) * bs \<le> file_size" .
    then show ?thesis by (simp add: algebra_simps)
  qed
  have rest: "sequential_units n file_size bs (int (Suc j) * bs) =
      map (\<lambda>i. (bs, int ((i + Suc j) mod k) * bs)) [0..<n]"
  proof (cases "Suc j < k")
    case True
    show ?thesis by (rule Suc.IH [OF True])
  next
    case False
    then have "Suc j = k" using Suc.prems by simp
    have "file_size = int k * bs + file_size mod bs" "file_size mod bs < bs"
      using assms(1) by (simp_all add: assms(3) [symmetric])
    then have "file_size < int (Suc k) * bs" by (simp add: algebra_simps)
    then have over: "int (Suc j) * bs > file_size - bs"
      using \<open>Suc j = k\<close> by (simp add: algebra_simps)
    have wrap: "sequential_units n file_size bs (int (Suc j) * bs) = sequential_units n file_size bs 0"
      if "0 \<le> file_size - bs"
      using over that by (cases n) simp_all
    have "0 \<le> int j * bs" using assms(1) by simp
    then have "0 \<le> file_size - bs" using fits by linarith
    then show ?thesis
      using wrap Suc.IH [of 0] assms(2) \<open>Suc j = k\<close> by simp
  qed
  have "(\<lambda>i. (bs, int ((i + j) mod k) * bs)) \<circ> Suc = (\<lambda>i. (bs, int ((i + Suc j) mod k) * bs))"
    by (simp add: fun_eq_iff)
  then show ?case
    using fits rest Suc.prems
    by (simp add: Let_def map_upt_Suc del: upt_Suc) (simp add: algebra_simps)
qed simp

lemma random_units_length [simp]: "length (fst (random_units E n bs hi g)) = n"
proof (induction n arbitrary: g)
  case (Suc n)
  then show ?case
    using Suc.IH [of "snd (rng_draw E 0 hi g)"] by (simp add: Let_def case_prod_beta)
qed simp

lemma random_units_in_range:
  assumes "draws_in_range E" and "0 \<le> hi"
  shows "\<forall>(c, p) \<in> set (fst (random_units E n bs hi g)). c = bs \<and> 0 \<le> p \<and> p \<le> hi"
proof (induction n arbitrary: g)
  case (Suc n)
  obtain off g1 where d: "rng_draw E 0 hi g = (off, g1)" by fastforce
  then have "0 \<le> off \<and> off \<le> hi" using assms unfolding draws_in_range_def by (metis fst_conv)
  then show ?case using Suc.IH [of g1] d by (auto simp: Let_def split: prod.splits)
qed simp


section \<open>One iteration\<close>

text \<open>The state of the file after the writes of a list of units.\<close>

definition written :: "('w, 'g) env \<Rightarrow> int \<Rightarrow> byte list \<Rightarrow> (int \<times> int) list \<Rightarrow> 'w \<Rightarrow> 'w" where
  "written E fd buf us w = foldl (\<lambda>w u. snd (sys_Write E fd buf (fst u) (snd u) w)) w us"

lemma write_units_ok:
  assumes "\<And>c p w. fst (sys_Write E fd buf c p w) \<noteq> -1"
  shows "foldC (\<lambda>_. write_unit E fd buf) () us s =
           (Inr (), s\<lparr>ps_world := written E fd buf us (ps_world s)\<rparr>)"
proof (induction us arbitrary: s)
  case (Cons u us)
  have "write_unit E fd buf u s =
      (Inr (), s\<lparr>ps_world := snd (sys_Write E fd buf (fst u) (snd u) (ps_world s))\<rparr>)"
    using assms by (simp add: write_unit_def bindC_def sysC_app fail_ifC_def)
  then show ?case using Cons.IH by (simp add: bindC_def written_def)
qed (simp add: written_def)

lemma units_of_make_units:
  assumes "make_units E file_size f = Inr f'"
  shows "f' = f\<lparr>rw_units := rw_units f', rw_gen := rw_gen f'\<rparr>"
  using assms
  by (auto simp: make_units_def bindR_Inr_iff Let_def case_prod_beta split: order_kind.splits if_splits)

lemma ReadWriteFile_SetUpSingle_Inr:
  assumes "ReadWriteFile_SetUpSingle E (b, f) s = (Inr (b', f'), t)"
  shows "set_up_base E b b'" and "rw_bandwidth f' = rw_bandwidth f"
proof -
  obtain F f3 t3 where "Instruction_SetUpSingle E b t3 = (Inr b', t)" "make_units E F f3 = Inr f'"
      "rw_bandwidth f3 = rw_bandwidth f"
    using assms
    by (auto simp: ReadWriteFile_SetUpSingle_def comp_Inr_iffs Let_def update_sizes_def split: if_splits)
  then show "set_up_base E b b'" "rw_bandwidth f' = rw_bandwidth f"
    using units_of_make_units [of E F f3 f']
    by (auto simp: set_up_base_def) (metis rw_file.select_convs(1) rw_file.surjective
        rw_file.update_convs(6) rw_file.update_convs(12))
qed

interpretation write_file: measuring_class E fst "ReadWriteFile_SetUpSingle E"
  "WriteFile_RunSingle E fsync" "ReadWriteFile_TearDownSingle E" "\<lambda>_. True"
  "\<lambda>ob. length (rw_bandwidth (snd ob))"
  for E :: "('w, 'g) env" and fsync :: bool
proof (unfold_locales, goal_cases)
  case (1 ob s ob' t)
  then show ?case
    using ReadWriteFile_SetUpSingle_Inr(1) [of E "fst ob" "snd ob" s "fst ob'" "snd ob'" t] by simp
next
  case (4 ob s ob' t)
  then show ?case
    using ReadWriteFile_SetUpSingle_Inr(2) [of E "fst ob" "snd ob" s "fst ob'" "snd ob'" t] by simp
qed (auto simp: WriteFile_RunSingle_def ReadWriteFile_TearDownSingle_def
      comp_Inr_iffs split: prod.splits)

interpretation read_file: measuring_class E fst "ReadFile_SetUpSingle E fadvise"
  "ReadFile_RunSingle E" "ReadWriteFile_TearDownSingle E" "\<lambda>_. True"
  "\<lambda>ob. length (rw_bandwidth (snd ob))"
  for E :: "('w, 'g) env" and fadvise :: int
proof (unfold_locales, goal_cases)
  case (1 ob s ob' t)
  then obtain u where "ReadWriteFile_SetUpSingle E (fst ob, snd ob) u = (Inr (fst ob', snd ob'), t)"
    by (auto simp: ReadFile_SetUpSingle_def comp_Inr_iffs)
  then show ?case using ReadWriteFile_SetUpSingle_Inr(1) by blast
next
  case (4 ob s ob' t)
  then obtain u where "ReadWriteFile_SetUpSingle E (fst ob, snd ob) u = (Inr (fst ob', snd ob'), t)"
    by (auto simp: ReadFile_SetUpSingle_def comp_Inr_iffs)
  then show ?case by (metis ReadWriteFile_SetUpSingle_Inr(2))
qed (auto simp: ReadFile_RunSingle_def ReadWriteFile_TearDownSingle_def
      comp_Inr_iffs split: prod.splits)


section \<open>Properties\<close>

text \<open>An object for the examples: two rounds over a file, described by variable 1.\<close>

definition sample_rw :: "order_kind \<Rightarrow> int \<Rightarrow> int \<Rightarrow> nat rw_obj" where
  "sample_rw order sz block =
     ReadWriteFile_ctor sample_env ''write_file'' \<lparr>pr_repeat = 2, pr_period_us = 0, pr_offset_us = 0\<rparr>
       sz block 0 order 7 kOnce 1"

definition sample_write :: "nat rw_obj" where
  "sample_write =
     ReadWriteFile_ctor sample_env ''write_file'' \<lparr>pr_repeat = 1, pr_period_us = 0, pr_offset_us = 0\<rparr>
       4 2 0 kSequential 7 kOnce 1"

text \<open>\<open>SetUpSingle\<close> when the file is readable, the block fits and the memory is there.\<close>

lemma ReadWriteFile_SetUpSingle_ok:
  assumes "holds_int (rw_input_fd_key f) fd s" and "\<not> is_timed b"
    and "sys_FStat E fd (ps_world s) = ((r, F), wa)" and "r \<noteq> -1"
    and "B = rw_block_size (update_sizes F f)" and "0 \<le> B" and "B \<le> F"
    and "new_nothrow E B wa = (True, wb)"
    and "\<And>g. \<exists>f4. make_units E F ((update_sizes F f)\<lparr>rw_buffer := replicate (nat B) 170, rw_gen := g\<rparr>) = Inr f4"
  shows "\<exists>b' g f4 s1. ReadWriteFile_SetUpSingle E (b, f) s = (Inr (b', f4), s1) \<and>
           make_units E F ((update_sizes F f)\<lparr>rw_buffer := replicate (nat B) 170, rw_gen := g\<rparr>) = Inr f4 \<and>
           ps_vars s1 = ps_vars s"
proof -
  define f2 where "f2 = (update_sizes F f)\<lparr>rw_buffer := replicate (nat B) 170\<rparr>"
  define f3 where "f3 = (if rw_reseeding f2 = kEachCycle then f2\<lparr>rw_gen := rng_seed E (rw_seed f2)\<rparr> else f2)"
  have f3: "(update_sizes F f)\<lparr>rw_buffer := replicate (nat B) 170, rw_gen := rw_gen f3\<rparr> = f3"
    by (simp add: f3_def f2_def)
  obtain f4 where f4: "make_units E F f3 = Inr f4" using assms(9) [of "rw_gen f3"] unfolding f3 by blast
  obtain b' s1 where b': "Instruction_SetUpSingle E b (s\<lparr>ps_world := wb\<rparr>) = (Inr b', s1)"
      "ps_vars s1 = ps_vars s"
    using Instruction_SetUpSingle_untimed [OF assms(2), of E "s\<lparr>ps_world := wb\<rparr>"] by auto
  note size = GetFileSize_ok [OF assms(3,4)]
  have block: "check_block E fd (rw_block_size (update_sizes F f)) F t = (Inr (), t)" for t
    using assms(5,7) by (simp add: check_block_def)
  have buffer: "allocate_buffer E (rw_block_size (update_sizes F f)) (s\<lparr>ps_world := wa\<rparr>)
      = (Inr (replicate (nat B) 170), s\<lparr>ps_world := wb\<rparr>)"
    using assms(6,8) by (simp add: allocate_buffer_def bindC_def sysC_app assms(5) [symmetric])
  have "ReadWriteFile_SetUpSingle E (b, f) s =
      bindC (liftR (make_units E F f3))
        (\<lambda>f4. bindC (Instruction_SetUpSingle E b) (\<lambda>b'. returnC (b', f4))) (s\<lparr>ps_world := wb\<rparr>)"
    unfolding ReadWriteFile_SetUpSingle_def prod.case Let_def
    by (subst bindC_step, rule shared_int_holds [OF assms(1)], subst bindC_step, rule size,
        subst bindC_step, rule block, subst bindC_step, rule buffer)
      (simp only: f2_def [symmetric] f3_def [symmetric])
  also have "\<dots> = (Inr (b', f4), s1)" using b'(1) f4 by (simp add: bindC_def)
  finally show ?thesis using f4 b'(2) f3 by (intro exI [of _ b'] exI [of _ "rw_gen f3"]) auto
qed

text \<open>
  C7: a sequential round from offset 0 writes the whole blocks of the file one after the other,
  starting again at the first after the last one, \<open>size div block_size\<close> calls in all, and
  then synchronises once if asked to; nothing else is written.
\<close>

theorem WriteFile_sequential_round:
  assumes "holds_int (rw_input_fd_key f) fd s" and "\<not> is_timed b"
    and "rw_access_order f = kSequential" and "rw_starting_offset f = 0"
    and "sys_FStat E fd (ps_world s) = ((0, F), wa)" and "new_nothrow E B wa = (True, wb)"
    and "B = rw_block_size (update_sizes F f)" and "S = rw_size (update_sizes F f)"
    and "0 < B" and "B \<le> F" and "0 \<le> S" and "in_i64 S"
    and "\<And>c p w. fst (sys_Write E fd (replicate (nat B) 170) c p w) \<noteq> -1"
    and "\<And>w. fst (sys_FSync E fd w) = 0"
  shows "\<exists>ob1 s1 ob2 s2.
           ReadWriteFile_SetUpSingle E (b, f) s = (Inr ob1, s1) \<and>
           WriteFile_RunSingle E fsync ob1 s1 = (Inr ob2, s2) \<and>
           ps_world s2 =
             (let w = foldl (\<lambda>w i. snd (sys_Write E fd (replicate (nat B) 170) B
                                       (int (i mod nat (F div B)) * B) w))
                        (ps_world s1) [0..<nat (S div B)]
              in if fsync then snd (sys_FSync E fd w) else w)"
proof -
  let ?us = "sequential_units (nat (S div B)) F B 0"
  let ?ff = "\<lambda>g. (update_sizes F f)\<lparr>rw_buffer := replicate (nat B) 170, rw_gen := g\<rparr>"
  have units: "make_units E F (?ff g) = Inr ((?ff g)\<lparr>rw_units := ?us\<rparr>)" for g
    using assms by (simp add: make_units_def div64_pos update_sizes_def)
  obtain b' f4 s1 where 1: "ReadWriteFile_SetUpSingle E (b, f) s = (Inr (b', f4), s1)"
      "rw_units f4 = ?us" "rw_buffer f4 = replicate (nat B) 170"
      "rw_input_fd_key f4 = rw_input_fd_key f" "ps_vars s1 = ps_vars s"
    using ReadWriteFile_SetUpSingle_ok [OF assms(1,2,5) _ assms(7) _ assms(10,6)] units assms(9)
    by (auto simp: update_sizes_def)
  have fd: "holds_int (rw_input_fd_key f4) fd s1"
    using assms(1) 1 by (simp add: holds_int_def)
  define w where "w = written E fd (replicate (nat B) 170) ?us (ps_world s1)"
  let ?s = "s1\<lparr>ps_world := w\<rparr>"
  have run: "WriteFile_RunSingle E fsync (b', f4) s1 =
      (Inr (b', f4), if fsync then s1\<lparr>ps_world := snd (sys_FSync E fd w)\<rparr> else ?s)"
    using write_units_ok [of E fd "replicate (nat B) 170" ?us s1, OF assms(13)] assms(14) 1(2,3)
    by (simp add: WriteFile_RunSingle_def bindC_def shared_int_holds [OF fd] w_def [symmetric]
        sysC_app fail_ifC_def)
  have k: "0 < F div B" using assms(9,10) by (simp add: pos_imp_zdiv_pos_iff)
  have "?us = map (\<lambda>i. (B, int (i mod nat (F div B)) * B)) [0..<nat (S div B)]"
    using sequential_units_from [of B "nat (F div B)" F 0] k assms(9) by simp
  then have "w = foldl (\<lambda>w i. snd (sys_Write E fd (replicate (nat B) 170) B
                                 (int (i mod nat (F div B)) * B) w)) (ps_world s1) [0..<nat (S div B)]"
    by (simp add: w_def written_def foldl_map)
  then show ?thesis using 1(1) run by (auto simp: Let_def)
qed

theorem WriteFile_sequential_round_witness:
  "\<exists>ob1 s1 ob2 s2.
     ReadWriteFile_SetUpSingle sample_env (sample_rw kSequential 6144 1024) sample_state = (Inr ob1, s1) \<and>
     WriteFile_RunSingle sample_env True ob1 s1 = (Inr ob2, s2) \<and>
     ps_world s2 =
       (let w = foldl (\<lambda>w i. log_call ''write'' [5, 1024, int (i mod 4) * 1024] w) (ps_world s1) [0..<6]
        in log_call ''fsync'' [5] w)"
proof -
  let ?ob = "sample_rw kSequential 6144 1024"
  have "\<exists>ob1 s1 ob2 s2.
      ReadWriteFile_SetUpSingle sample_env (fst ?ob, snd ?ob) sample_state = (Inr ob1, s1) \<and>
      WriteFile_RunSingle sample_env True ob1 s1 = (Inr ob2, s2) \<and>
      ps_world s2 =
        (let w = foldl (\<lambda>w i. snd (sys_Write sample_env 5 (replicate (nat 1024) 170) 1024
                                  (int (i mod nat (4096 div 1024)) * 1024) w))
                   (ps_world s1) [0..<nat (6144 div 1024)]
         in if True then snd (sys_FSync sample_env 5 w) else w)"
    by (rule WriteFile_sequential_round [where F = 4096 and wa = sample_world0 and wb = sample_world0])
      (simp_all add: sample_rw_def ReadWriteFile_ctor_def Instruction_ctor_def is_timed_def sample_env_def
        sample_state_def holds_int_def valid_key_def sample_world0_def update_sizes_def in_i64_def max_def)
  then show ?thesis by (simp add: sample_env_def)
qed

text \<open>
  C25: whatever the order, every unit of a round lies inside the file, and there are
  \<open>size div block_size\<close> of them: for the sequential order from any non-negative offset, for the
  random order when the file exceeds a block by less than \<open>2^31\<close> bytes.
\<close>

theorem units_inside_file:
  assumes "make_units E F f = Inr f'" and "draws_in_range E"
    and "0 < rw_block_size f" and "rw_block_size f \<le> F" and "0 \<le> rw_size f" and "in_i64 (rw_size f)"
    and "case rw_access_order f of kSequential \<Rightarrow> 0 \<le> rw_starting_offset f
         | kRandom \<Rightarrow> F - rw_block_size f < 2 ^ 31"
  shows "length (rw_units f') = nat (rw_size f div rw_block_size f) \<and>
         (\<forall>(c, p) \<in> set (rw_units f'). c = rw_block_size f \<and> 0 \<le> p \<and> p + c \<le> F)"
proof (cases "rw_access_order f")
  case kSequential
  then have "f' = f\<lparr>rw_units := sequential_units (nat (rw_size f div rw_block_size f)) F
      (rw_block_size f) (rw_starting_offset f)\<rparr>"
    using assms(1,3,5,6) by (simp add: make_units_def div64_pos)
  then show ?thesis
    using kSequential assms(3,4,7)
      sequential_units_in_file [of "rw_block_size f" F "rw_starting_offset f"] by fastforce
next
  case kRandom
  have hi: "narrow32 (F - rw_block_size f) = F - rw_block_size f"
    using kRandom assms(4,7) by (intro narrow32_in) (simp add: in_i32_def)
  obtain us g where us: "random_units E (nat (rw_size f div rw_block_size f)) (rw_block_size f)
      (F - rw_block_size f) (rw_gen f) = (us, g)" by fastforce
  have f': "f' = f\<lparr>rw_units := us, rw_gen := g\<rparr>"
    using assms kRandom us hi by (auto simp: make_units_def Let_def div64_pos)
  have "0 \<le> F - rw_block_size f" using assms(4) by simp
  then have "\<forall>(c, p) \<in> set us. c = rw_block_size f \<and> 0 \<le> p \<and> p \<le> F - rw_block_size f"
    using random_units_in_range [OF assms(2), where n = "nat (rw_size f div rw_block_size f)"
        and bs = "rw_block_size f" and hi = "F - rw_block_size f" and g = "rw_gen f"]
    unfolding us fst_conv by blast
  moreover have "length us = nat (rw_size f div rw_block_size f)"
    using random_units_length [of E "nat (rw_size f div rw_block_size f)" "rw_block_size f"
        "F - rw_block_size f" "rw_gen f"] unfolding us fst_conv .
  ultimately show ?thesis unfolding f' by fastforce
qed

theorem units_inside_file_witness:
  "\<exists>f'. make_units sample_env 4096 (snd (sample_rw kRandom 2048 1024)) = Inr f' \<and>
     length (rw_units f') = 2 \<and> (\<forall>(c, p) \<in> set (rw_units f'). c = 1024 \<and> 0 \<le> p \<and> p + c \<le> 4096)"
proof -
  let ?f = "snd (sample_rw kRandom 2048 1024)"
  have f: "rw_block_size ?f = 1024" "rw_size ?f = 2048" "rw_access_order ?f = kRandom"
    by (simp_all add: sample_rw_def ReadWriteFile_ctor_def)
  obtain f' where f': "make_units sample_env 4096 ?f = Inr f'"
    by (auto simp: make_units_def f div64_pos in_i64_def narrow32_in in_i32_def Let_def case_prod_beta)
  show ?thesis using units_inside_file [OF f' sample_env_draws] f' f by (auto simp: in_i64_def)
qed

text \<open>
  Beyond that bound the conversion of the upper bound to \<^verbatim>\<open>int\<close> shrinks the range: in a file
  that is a block and a multiple of \<open>2^32\<close> bytes long, every random access goes to offset 0.
\<close>

theorem random_access_wraps:
  assumes "rw_access_order f = kRandom" and "draws_in_range E"
    and "make_units E (rw_block_size f + n * 2 ^ 32) f = Inr f'"
  shows "\<forall>(c, p) \<in> set (rw_units f'). p = 0"
proof -
  have "(word_of_int (n * 2 ^ 32) :: 32 word) = word_of_int 0"
    by (subst word_of_int_eq_iff) (simp add: take_bit_eq_mod)
  then have hi: "narrow32 (n * 2 ^ 32) = 0" unfolding narrow32_def by (simp only: sint_0 word_of_int_0)
  obtain m where "rw_units f' = fst (random_units E m (rw_block_size f) 0 (rw_gen f))"
    using assms(1,3) hi
    by (auto simp: make_units_def Let_def bindR_Inr_iff case_prod_beta)
  then show ?thesis
    using random_units_in_range [OF assms(2), of 0 m "rw_block_size f" "rw_gen f"] by auto
qed

theorem random_access_wraps_witness:
  "\<exists>f'. make_units sample_env (1024 + 1 * 2 ^ 32) (snd (sample_rw kRandom 2048 1024)) = Inr f' \<and>
     length (rw_units f') = 2 \<and> (\<forall>(c, p) \<in> set (rw_units f'). p = 0)"
proof -
  let ?f = "snd (sample_rw kRandom 2048 1024)"
  have f: "rw_block_size ?f = 1024" "rw_size ?f = 2048" "rw_access_order ?f = kRandom"
    by (simp_all add: sample_rw_def ReadWriteFile_ctor_def)
  have hi: "narrow32 4294967296 = 0" unfolding narrow32_def by simp
  obtain f' where f': "make_units sample_env (1024 + 1 * 2 ^ 32) ?f = Inr f'" "length (rw_units f') = 2"
    by (simp add: make_units_def f hi div64_pos in_i64_def Let_def case_prod_beta)
  show ?thesis
    using random_access_wraps [OF f(3) sample_env_draws, of 1 f'] f' f(1) by auto
qed

text \<open>
  An instruction whose block is the whole file (\<^verbatim>\<open>block_size\<close> -1) divides by zero on an empty
  file.
\<close>

theorem empty_file_divides_by_zero:
  assumes "holds_int (rw_input_fd_key f) fd s" and "rw_update_block_size f"
    and "sys_FStat E fd (ps_world s) = ((0, 0), wa)" and "new_nothrow E 0 wa = (True, wb)"
  shows "fst (ReadWriteFile_SetUpSingle E (b, f) s) = Inl (Undefined DivisionByZero)"
  using assms
  by (cases "rw_access_order f")
    (simp_all add: ReadWriteFile_SetUpSingle_def bindC_def shared_int_holds GetFileSize_app Let_def
        check_block_def allocate_buffer_def sysC_app update_sizes_def make_units_def div64_def narrow32_def)

theorem empty_file_divides_by_zero_witness:
  "fst (ReadWriteFile_SetUpSingle sample_env (sample_rw kSequential (-1) (-1))
         (sample_state\<lparr>ps_world := sample_world0\<lparr>sw_size := 0\<rparr>\<rparr>)) = Inl (Undefined DivisionByZero)"
proof -
  let ?ob = "sample_rw kSequential (-1) (-1)" and ?w = "sample_world0\<lparr>sw_size := 0\<rparr>"
  have "fst (ReadWriteFile_SetUpSingle sample_env (fst ?ob, snd ?ob) (sample_state\<lparr>ps_world := ?w\<rparr>))
      = Inl (Undefined DivisionByZero)"
    by (rule empty_file_divides_by_zero [where fd = 5 and wa = ?w and wb = ?w])
      (simp_all add: sample_rw_def ReadWriteFile_ctor_def sample_env_def sample_state_def holds_int_def
        valid_key_def)
  then show ?thesis by simp
qed

text \<open>
  A run takes one duration and one bandwidth for each of its iterations.
\<close>

theorem WriteFile_measures_every_iteration:
  assumes "Instruction_Run fst (ReadWriteFile_SetUpSingle E) (WriteFile_RunSingle E fsync)
             (ReadWriteFile_TearDownSingle E) (b, f) s = (Inr (b', f'), t)"
  shows "length (ts_samples (ib_sampler b')) = length (ts_samples (ib_sampler b)) + nat (ib_repeat b) \<and>
         length (rw_bandwidth f') = length (rw_bandwidth f) + nat (ib_repeat b)"
  using write_file.run_effect(3) [OF TrueI assms] write_file.run_count_total [OF TrueI assms] by simp

lemma Bandwidth_Measure_small: "small_ts d \<Longrightarrow> \<exists>bw. Bandwidth_Measure n d = Inr bw"
  by (simp add: Bandwidth_Measure_def TimespecToNanos_small Let_def)

theorem WriteFile_measures_every_iteration_witness:
  "\<exists>b' f' t. Instruction_Run fst (ReadWriteFile_SetUpSingle sample_env) (WriteFile_RunSingle sample_env True)
      (ReadWriteFile_TearDownSingle sample_env) sample_write sample_state = (Inr (b', f'), t) \<and>
    length (ts_samples (ib_sampler b')) = 1 \<and> length (rw_bandwidth f') = 1"
proof -
  let ?r = "bindC (ReadWriteFile_SetUpSingle sample_env sample_write)
      (WriteFile_RunSingle sample_env True) sample_state"
  let ?d = "Instruction_TearDownSingle sample_env True (fst (projr (fst ?r))) (snd ?r)"
  have "\<not> isl (fst ?r)" by code_simp
  then obtain b f t where 1: "?r = (Inr (b, f), t)" using not_isl_Inr by (metis prod.collapse)
  have "\<not> isl (fst ?d)" by code_simp
  then obtain b' u where 2: "Instruction_TearDownSingle sample_env True b t = (Inr b', u)"
    using not_isl_Inr unfolding 1 by (metis fst_conv snd_conv sum.sel(2))
  have "last (ts_samples (ib_sampler (projr (fst ?d)))) = Timespec 0 1000" by code_simp
  then have 3: "last (ts_samples (ib_sampler b')) = Timespec 0 1000" unfolding 1 by (simp add: 2)
  obtain bw where "Bandwidth_Measure (to_u64 (rw_size f)) (Timespec 0 1000) = Inr bw"
    using Bandwidth_Measure_small [of "Timespec 0 1000"] by (auto simp: small_ts_def)
  then obtain f' where td: "ReadWriteFile_TearDownSingle sample_env True (b, f) t = (Inr (b', f'), u)"
    using 2 3 by (simp add: ReadWriteFile_TearDownSingle_def bindC_def)
  have ob: "ib_repeat (fst sample_write) = 1" "ts_samples (ib_sampler (fst sample_write)) = []"
      "rw_bandwidth (snd sample_write) = []"
    by (simp_all add: sample_write_def ReadWriteFile_ctor_def Instruction_ctor_def new_sampler_def)
  have run: "Instruction_Run fst (ReadWriteFile_SetUpSingle sample_env) (WriteFile_RunSingle sample_env True)
      (ReadWriteFile_TearDownSingle sample_env) (fst sample_write, snd sample_write) sample_state
        = (Inr (b', f'), u)"
    unfolding prod.collapse Run_once [of fst, OF ob(1)]
    by (subst bindC_step, rule 1, rule td)
  show ?thesis using WriteFile_measures_every_iteration [OF run] run ob by simp
qed

end
