(* ===== verification/File_Instructions.thy ===== *)
theory File_Instructions
  imports ReadWrite_File
begin

text \<open>
  The other instructions on files: \<^verbatim>\<open>src/open_file.cpp\<close>, \<^verbatim>\<open>src/close_file.cpp\<close>,
  \<^verbatim>\<open>src/delete_file.cpp\<close>, \<^verbatim>\<open>src/resize_file.cpp\<close>, \<^verbatim>\<open>src/read_directory.cpp\<close> and
  \<^verbatim>\<open>src/invalidate_cache.cpp\<close>. An object is its \<open>ibase\<close> and the fields of its class. The flags
  of \<^verbatim>\<open>open\<close> are those of Linux on x86-64.

  Each class is an interpretation of \<open>instruction_class\<close>; the properties say which calls an
  iteration makes.
\<close>

section \<open>\<^verbatim>\<open>OpenFile\<close>\<close>

datatype access_mode = kReadOnly | kWriteOnly | kReadWrite

record 'g open_file =
  of_random_name :: bool
  of_path_name :: string
  of_create :: bool
  of_direct_io :: bool
  of_input_key :: int
  of_output_fd_key :: int
  of_gen :: 'g
  of_access_mode :: access_mode

type_synonym 'g open_obj = "ibase \<times> 'g open_file"

definition open_defaults :: "('w, 'g) env \<Rightarrow> bool \<Rightarrow> bool \<Rightarrow> int \<Rightarrow> access_mode \<Rightarrow> 'g open_file" where
  "open_defaults E create direct_io output_fd_key mode =
     \<lparr>of_random_name = False, of_path_name = [], of_create = create, of_direct_io = direct_io,
      of_input_key = -1, of_output_fd_key = output_fd_key, of_gen = rng_seed E 5489,
      of_access_mode = mode\<rparr>"

definition OpenFile_path ::
  "('w, 'g) env \<Rightarrow> params \<Rightarrow> string \<Rightarrow> bool \<Rightarrow> bool \<Rightarrow> int \<Rightarrow> access_mode \<Rightarrow> ('w, 'g open_obj) act" where
  "OpenFile_path E p path_name create direct_io output_fd_key mode =
     bindC GetAbsolutePath (\<lambda>base.
     returnC (Instruction_ctor ''open_file'' p,
       (open_defaults E create direct_io output_fd_key mode)\<lparr>of_path_name := base @ path_name\<rparr>))"

definition OpenFile_input ::
  "('w, 'g) env \<Rightarrow> params \<Rightarrow> int \<Rightarrow> bool \<Rightarrow> bool \<Rightarrow> int \<Rightarrow> access_mode \<Rightarrow> 'g open_obj" where
  "OpenFile_input E p input_key create direct_io output_fd_key mode =
     (Instruction_ctor ''open_file'' p,
      (open_defaults E create direct_io output_fd_key mode)\<lparr>of_input_key := input_key\<rparr>)"

definition OpenFile_random ::
  "('w, 'g) env \<Rightarrow> params \<Rightarrow> bool \<Rightarrow> bool \<Rightarrow> int \<Rightarrow> access_mode \<Rightarrow> ('w, 'g open_obj) act" where
  "OpenFile_random E p create direct_io output_fd_key mode =
     bindC (sysC (time_now E)) (\<lambda>now.
     returnC (Instruction_ctor ''open_file'' p,
       (open_defaults E create direct_io output_fd_key mode)\<lparr>of_random_name := True,
          of_gen := rng_seed E (to_u64 now)\<rparr>))"

text \<open>
  \<^verbatim>\<open>do ... while (FileExists(...))\<close>: draws 9 digit names until one is free. The loop acts on the
  path, the generator and the process.
\<close>

definition draw_name :: "('w, 'g) env \<Rightarrow> (string \<times> 'g \<times> 'w pstate, bool) comp" where
  "draw_name E st =
     (case st of (path, g, s) \<Rightarrow>
        case GetAbsolutePath s of
          (Inl e, s1) \<Rightarrow> (Inl e, (path, g, s1))
        | (Inr base, s1) \<Rightarrow>
            (case rng_draw E 100000000 900000000 g of (n, g1) \<Rightarrow>
             let path1 = base @ show_int n
             in case FileExists E path1 s1 of
                  (Inl e, s2) \<Rightarrow> (Inl e, (path1, g1, s2))
                | (Inr ex, s2) \<Rightarrow> (Inr ex, (path1, g1, s2))))"

definition random_path :: "('w, 'g) env \<Rightarrow> 'g open_file \<Rightarrow> ('w, 'g open_file) act" where
  "random_path E f s =
     (case do_whileC (draw_name E) (of_path_name f, of_gen f, s) of
        (Inl e, (_, _, t)) \<Rightarrow> (Inl e, t)
      | (Inr _, (path, g, t)) \<Rightarrow> (Inr (f\<lparr>of_path_name := path, of_gen := g\<rparr>), t))"

definition OpenFile_SetUpSingle :: "('w, 'g) env \<Rightarrow> 'g open_obj \<Rightarrow> ('w, 'g open_obj) act" where
  "OpenFile_SetUpSingle E ob =
     (case ob of (b, f) \<Rightarrow>
        bindC (if of_input_key f \<noteq> -1
               then bindC (shared_string (of_input_key f)) (\<lambda>p. returnC (f\<lparr>of_path_name := p\<rparr>))
               else if of_random_name f then random_path E f
               else returnC f) (\<lambda>f'.
        bindC (Instruction_SetUpSingle E b) (\<lambda>b'. returnC (b', f'))))"

definition O_RDONLY :: int where "O_RDONLY = 0"
definition O_WRONLY :: int where "O_WRONLY = 1"
definition O_RDWR :: int where "O_RDWR = 2"
definition O_CREAT :: int where "O_CREAT = 64"
definition O_DIRECT :: int where "O_DIRECT = 16384"
definition O_CLOEXEC :: int where "O_CLOEXEC = 524288"
definition S_IRUSR_IWUSR :: int where "S_IRUSR_IWUSR = 384"

lemmas open_flag_defs =
  O_RDONLY_def O_WRONLY_def O_RDWR_def O_CREAT_def O_DIRECT_def O_CLOEXEC_def S_IRUSR_IWUSR_def

definition open_flags :: "'g open_file \<Rightarrow> int" where
  "open_flags f =
     (let flags = (case of_access_mode f of
                     kReadOnly \<Rightarrow> or 0 O_RDONLY | kWriteOnly \<Rightarrow> or 0 O_WRONLY | kReadWrite \<Rightarrow> or 0 O_RDWR);
          flags = or flags O_CLOEXEC;
          flags = (if of_create f then or flags O_CREAT else flags)
      in if of_direct_io f then or flags O_DIRECT else flags)"

definition OpenFile_RunSingle :: "('w, 'g) env \<Rightarrow> 'g open_obj \<Rightarrow> ('w, 'g open_obj) act" where
  "OpenFile_RunSingle E ob =
     (case ob of (b, f) \<Rightarrow>
        bindC (sysC (sys_Open E (of_path_name f) (open_flags f) S_IRUSR_IWUSR)) (\<lambda>fd.
        bindC (fail_ifC (fd = -1) (Plogf (''Cannot open \"'' @ of_path_name f @ ''\"''))) (\<lambda>_.
        bindC (if of_output_fd_key f \<noteq> -1 then varsC (SetVar (of_output_fd_key f) (VInt fd))
               else returnC ()) (\<lambda>_.
        returnC (b, f)))))"

section \<open>\<^verbatim>\<open>CloseFile\<close> and \<^verbatim>\<open>DeleteFile\<close>\<close>

definition CloseFile_ctor :: "params \<Rightarrow> int \<Rightarrow> ibase \<times> int" where
  "CloseFile_ctor p input_fd_key = (Instruction_ctor ''close_file'' p, input_fd_key)"

definition CloseFile_RunSingle :: "('w, 'g) env \<Rightarrow> int \<Rightarrow> ('w, unit) act" where
  "CloseFile_RunSingle E input_fd_key =
     bindC (shared_int input_fd_key) (\<lambda>fd.
     bindC (sysC (sys_Close E fd)) (\<lambda>ret.
     fail_ifC (ret \<noteq> 0) (Logf ''Error while closing the file'')))"

record delete_file =
  df_path_name :: string
  df_input_key :: int

definition DeleteFile_path :: "params \<Rightarrow> string \<Rightarrow> ('w, ibase \<times> delete_file) act" where
  "DeleteFile_path p path_name =
     bindC GetAbsolutePath (\<lambda>base.
     returnC (Instruction_ctor ''delete_file'' p, \<lparr>df_path_name = base @ path_name, df_input_key = -1\<rparr>))"

definition DeleteFile_input :: "params \<Rightarrow> int \<Rightarrow> ibase \<times> delete_file" where
  "DeleteFile_input p input_key =
     (Instruction_ctor ''delete_file'' p, \<lparr>df_path_name = [], df_input_key = input_key\<rparr>)"

definition DeleteFile_SetUpSingle ::
  "('w, 'g) env \<Rightarrow> ibase \<times> delete_file \<Rightarrow> ('w, ibase \<times> delete_file) act" where
  "DeleteFile_SetUpSingle E ob =
     (case ob of (b, f) \<Rightarrow>
        bindC (if df_input_key f \<noteq> -1
               then bindC (shared_string (df_input_key f)) (\<lambda>p. returnC (f\<lparr>df_path_name := p\<rparr>))
               else returnC f) (\<lambda>f'.
        bindC (Instruction_SetUpSingle E b) (\<lambda>b'. returnC (b', f'))))"

definition DeleteFile_RunSingle ::
  "('w, 'g) env \<Rightarrow> ibase \<times> delete_file \<Rightarrow> ('w, ibase \<times> delete_file) act" where
  "DeleteFile_RunSingle E ob =
     bindC (sysC (sys_Unlink E (df_path_name (snd ob)))) (\<lambda>ret.
     bindC (fail_ifC (ret = -1) (Logf ''Error while calling unlink()'')) (\<lambda>_. returnC ob))"

section \<open>\<^verbatim>\<open>ResizeFile\<close> and \<^verbatim>\<open>ResizeFileRandom\<close>\<close>

record 'g resize_file =
  rf_size :: int
  rf_input_fd_key :: int
  rf_min :: int
  rf_max :: int
  rf_gen :: 'g
  rf_seed :: u64
  rf_reseeding :: reseeding_kind

text \<open>\<open>ResizeFile\<close> has the first two fields; the others belong to \<open>ResizeFileRandom\<close>.\<close>

definition ResizeFile_ctor :: "('w, 'g) env \<Rightarrow> params \<Rightarrow> int \<Rightarrow> int \<Rightarrow> ibase \<times> 'g resize_file" where
  "ResizeFile_ctor E p sz input_fd_key =
     (Instruction_ctor ''resize_file'' p,
      \<lparr>rf_size = sz, rf_input_fd_key = input_fd_key, rf_min = 0, rf_max = 0, rf_gen = rng_seed E 5489,
       rf_seed = 0, rf_reseeding = kOnce\<rparr>)"

definition ResizeFileRandom_ctor ::
  "('w, 'g) env \<Rightarrow> params \<Rightarrow> int \<Rightarrow> int \<Rightarrow> u64 \<Rightarrow> reseeding_kind \<Rightarrow> int \<Rightarrow> ibase \<times> 'g resize_file" where
  "ResizeFileRandom_ctor E p lo hi seed reseeding input_fd_key =
     (case ResizeFile_ctor E p (-1) input_fd_key of (b, f) \<Rightarrow>
        (b, f\<lparr>rf_min := lo, rf_max := hi, rf_gen := rng_seed E seed, rf_seed := seed,
              rf_reseeding := reseeding\<rparr>))"

definition ResizeFile_RunSingle ::
  "('w, 'g) env \<Rightarrow> ibase \<times> 'g resize_file \<Rightarrow> ('w, ibase \<times> 'g resize_file) act" where
  "ResizeFile_RunSingle E ob =
     (case ob of (b, f) \<Rightarrow>
        bindC (shared_int (rf_input_fd_key f)) (\<lambda>fd.
        bindC (GetFileSize E fd) (\<lambda>file_size.
        bindC (if rf_size f > file_size
               then bindC (sysC (sys_FAllocate E fd 0 0 (rf_size f))) (\<lambda>ret.
                    fail_ifC (ret \<noteq> 0) (Plogf ''Error while calling fallocate()''))
               else if rf_size f < file_size
               then bindC (sysC (sys_FTruncate E fd (rf_size f))) (\<lambda>ret.
                    fail_ifC (ret \<noteq> 0) (Plogf ''Error while calling ftruncate()''))
               else returnC ()) (\<lambda>_.
        returnC (b, f)))))"

definition ResizeFileRandom_SetUp ::
  "('w, 'g) env \<Rightarrow> ibase \<times> 'g resize_file \<Rightarrow> ('w, ibase \<times> 'g resize_file) act" where
  "ResizeFileRandom_SetUp E ob =
     (case ob of (b, f) \<Rightarrow>
        let f' = (if rf_reseeding f = kEachRoundOfCycles then f\<lparr>rf_gen := rng_seed E (rf_seed f)\<rparr> else f)
        in bindC (Instruction_SetUp E b) (\<lambda>b'. returnC (b', f')))"

definition ResizeFileRandom_SetUpSingle ::
  "('w, 'g) env \<Rightarrow> ibase \<times> 'g resize_file \<Rightarrow> ('w, ibase \<times> 'g resize_file) act" where
  "ResizeFileRandom_SetUpSingle E ob =
     (case ob of (b, f) \<Rightarrow>
        let f1 = (if rf_reseeding f = kEachCycle then f\<lparr>rf_gen := rng_seed E (rf_seed f)\<rparr> else f);
            lo = narrow32 (rf_min f1); hi = narrow32 (rf_max f1) in
        if lo > hi then failC (Undefined EmptyRange)
        else (case rng_draw E lo hi (rf_gen f1) of (n, g) \<Rightarrow>
                bindC (Instruction_SetUpSingle E b) (\<lambda>b'.
                returnC (b', f1\<lparr>rf_size := n, rf_gen := g\<rparr>))))"

section \<open>\<^verbatim>\<open>ReadDirectory\<close>\<close>

record read_directory =
  rd_directory_name :: string
  rd_output_key :: int

definition ReadDirectory_ctor :: "params \<Rightarrow> string \<Rightarrow> int \<Rightarrow> ('w, ibase \<times> read_directory) act" where
  "ReadDirectory_ctor p directory_name output_key =
     bindC GetAbsolutePath (\<lambda>base.
     returnC (Instruction_ctor ''read_directory'' p,
       \<lparr>rd_directory_name = base @ directory_name, rd_output_key = output_key\<rparr>))"

definition DT_REG :: int where
  "DT_REG = 8"

definition join_path :: "string \<Rightarrow> string \<Rightarrow> string" where
  "join_path dir name =
     (if dir \<noteq> [] \<and> last dir \<noteq> CHR ''/'' then dir @ ''/'' else dir) @ name"

text \<open>One round of the \<^verbatim>\<open>while\<close> loop: the condition reads an entry, the body keeps a regular file.\<close>

definition read_entry ::
  "('w, 'g) env \<Rightarrow> string \<Rightarrow> int \<Rightarrow> (string list \<times> 'w pstate, bool) comp" where
  "read_entry E dir handle st =
     (case st of (out, s) \<Rightarrow>
        case sysC (sys_ReadDir E handle) s of
          (Inl e, t) \<Rightarrow> (Inl e, (out, t))
        | (Inr None, t) \<Rightarrow> (Inr False, (out, t))
        | (Inr (Some (d_type, d_name)), t) \<Rightarrow>
            (Inr True, (if d_type = DT_REG then out @ [join_path dir d_name] else out, t)))"

definition collect_entries :: "('w, 'g) env \<Rightarrow> string \<Rightarrow> int \<Rightarrow> ('w, string list) act" where
  "collect_entries E dir handle s =
     (case do_whileC (read_entry E dir handle) ([], s) of
        (Inl e, (_, t)) \<Rightarrow> (Inl e, t) | (Inr _, (out, t)) \<Rightarrow> (Inr out, t))"

definition ReadDirectory_RunSingle ::
  "('w, 'g) env \<Rightarrow> ibase \<times> read_directory \<Rightarrow> ('w, ibase \<times> read_directory) act" where
  "ReadDirectory_RunSingle E ob =
     (case ob of (b, f) \<Rightarrow>
        bindC (sysC (sys_OpenDir E (rd_directory_name f))) (\<lambda>dir.
        case dir of
          None \<Rightarrow> failC (Plogf (''Cannot open \"'' @ rd_directory_name f @ ''\"''))
        | Some handle \<Rightarrow>
            bindC (collect_entries E (rd_directory_name f) handle) (\<lambda>out.
            bindC (varsC (SetVar (rd_output_key f) (VList out))) (\<lambda>_.
            bindC (sysC (sys_CloseDir E handle)) (\<lambda>_.
            returnC (b, f))))))"

section \<open>\<^verbatim>\<open>InvalidateCache\<close>\<close>

definition cache_file :: string where
  "cache_file = ''/proc/sys/vm/drop_caches''"

definition InvalidateCache_ctor :: "params \<Rightarrow> ibase" where
  "InvalidateCache_ctor p = Instruction_ctor ''invalidate_cache'' p"

definition InvalidateCache_RunSingle :: "('w, 'g) env \<Rightarrow> ('w, unit) act" where
  "InvalidateCache_RunSingle E =
     bindC (sysC (\<lambda>w. ((), sys_Sync E w))) (\<lambda>_.
     bindC (sysC (sys_Open E cache_file O_WRONLY 0)) (\<lambda>fd.
     bindC (fail_ifC (fd = -1)
        (Plogf (''Cannot open \"'' @ cache_file @ ''\", which requires root privileges''))) (\<lambda>_.
     bindC (sysC (sys_Write E fd [51] 1 0)) (\<lambda>ret.
     bindC (fail_ifC (ret = -1)
        (Plogf ''Error while calling write() in InvalidateCache. Make sure to run the benchmark as root''))
       (\<lambda>_.
     bindC (sysC (sys_Close E fd)) (\<lambda>ret.
     fail_ifC (ret = -1)
        (Plogf ''Error while calling close() in InvalidateCache. Make sure to run the benchmark as root'')))))))"

section \<open>The classes meet the interface\<close>

interpretation open_file: instruction_class E fst "OpenFile_SetUpSingle E" "OpenFile_RunSingle E"
  "\<lambda>l. inherit (Instruction_TearDownSingle E l)" "\<lambda>_. True"
  for E :: "('w, 'g) env"
  by unfold_locales
    (auto simp: OpenFile_SetUpSingle_def OpenFile_RunSingle_def inherit_Inr_iff bindC_Inr_iff
      split: prod.splits)

interpretation close_file: instruction_class E "\<lambda>b. b" "Instruction_SetUpSingle E"
  "run_work (CloseFile_RunSingle E key)" "Instruction_TearDownSingle E" "\<lambda>_. True"
  for E :: "('w, 'g) env" and key :: int
  by unfold_locales (auto simp: run_work_def bindC_Inr_iff)

interpretation delete_file: instruction_class E fst "DeleteFile_SetUpSingle E" "DeleteFile_RunSingle E"
  "\<lambda>l. inherit (Instruction_TearDownSingle E l)" "\<lambda>_. True"
  for E :: "('w, 'g) env"
  by unfold_locales
    (auto simp: DeleteFile_SetUpSingle_def DeleteFile_RunSingle_def inherit_Inr_iff bindC_Inr_iff
      split: prod.splits)

interpretation resize_file: instruction_class E fst "inherit (Instruction_SetUpSingle E)"
  "ResizeFile_RunSingle E" "\<lambda>l. inherit (Instruction_TearDownSingle E l)" "\<lambda>_. True"
  for E :: "('w, 'g) env"
  by unfold_locales
    (auto simp: ResizeFile_RunSingle_def inherit_Inr_iff bindC_Inr_iff split: prod.splits)

interpretation resize_file_random: instruction_class E fst "ResizeFileRandom_SetUpSingle E"
  "ResizeFile_RunSingle E" "\<lambda>l. inherit (Instruction_TearDownSingle E l)" "\<lambda>_. True"
  for E :: "('w, 'g) env"
  by unfold_locales
    (auto simp: ResizeFileRandom_SetUpSingle_def ResizeFile_RunSingle_def inherit_Inr_iff bindC_Inr_iff
      Let_def split: prod.splits if_splits)

interpretation read_directory: instruction_class E fst "inherit (Instruction_SetUpSingle E)"
  "ReadDirectory_RunSingle E" "\<lambda>l. inherit (Instruction_TearDownSingle E l)" "\<lambda>_. True"
  for E :: "('w, 'g) env"
  by unfold_locales
    (auto simp: ReadDirectory_RunSingle_def inherit_Inr_iff bindC_Inr_iff
      split: prod.splits option.splits)

interpretation invalidate_cache: instruction_class E "\<lambda>b. b" "Instruction_SetUpSingle E"
  "run_work (InvalidateCache_RunSingle E)" "Instruction_TearDownSingle E" "\<lambda>_. True"
  for E :: "('w, 'g) env"
  by unfold_locales (auto simp: run_work_def bindC_Inr_iff)

section \<open>Properties\<close>

text \<open>
  The flags of \<^verbatim>\<open>open\<close>: the access mode in the low two bits, always close-on-exec, create
  and direct I/O exactly when asked for, and no other bit.
\<close>

theorem open_flags_exact:
  "and (open_flags f) 3 =
     (case of_access_mode f of kReadOnly \<Rightarrow> O_RDONLY | kWriteOnly \<Rightarrow> O_WRONLY | kReadWrite \<Rightarrow> O_RDWR) \<and>
   (and (open_flags f) O_CREAT \<noteq> 0 \<longleftrightarrow> of_create f) \<and>
   (and (open_flags f) O_DIRECT \<noteq> 0 \<longleftrightarrow> of_direct_io f) \<and>
   and (open_flags f) O_CLOEXEC = O_CLOEXEC \<and>
   and (open_flags f) (not (or 3 (or O_CREAT (or O_DIRECT O_CLOEXEC)))) = 0"
  by (cases "of_access_mode f"; cases "of_create f"; cases "of_direct_io f")
    (simp_all add: open_flags_def open_flag_defs Let_def)

text \<open>
  A descriptor that \<^verbatim>\<open>OpenFile\<close> stores is the one that \<^verbatim>\<open>CloseFile\<close> with the same variable
  closes.
\<close>

theorem open_then_close:
  assumes "OpenFile_RunSingle E (b, f) s = (Inr ob, t)"
    and "of_output_fd_key f = key" and "key \<noteq> -1" and "fst (sys_Close E fd (ps_world t)) = 0"
    and "fd = fst (sys_Open E (of_path_name f) (open_flags f) S_IRUSR_IWUSR (ps_world s))"
  shows "CloseFile_RunSingle E key t = (Inr (), t\<lparr>ps_world := snd (sys_Close E fd (ps_world t))\<rparr>)"
proof -
  have "valid_key (ps_vars s) key" and t: "t = s\<lparr>ps_world :=
      snd (sys_Open E (of_path_name f) (open_flags f) S_IRUSR_IWUSR (ps_world s)),
      ps_vars := (ps_vars s)\<lparr>sv_variables := (sv_variables (ps_vars s))[nat key := VInt fd]\<rparr>\<rparr>"
    using assms(1,2,3,5)
    by (auto simp: OpenFile_RunSingle_def comp_Inr_iffs sysC_app varsC_def SetVar_def split: if_splits)
  then have "holds_int key fd t" by (auto simp: holds_int_def valid_key_def)
  then show ?thesis
    using assms(4) by (simp add: CloseFile_RunSingle_def bindC_def shared_int_holds sysC_app fail_ifC_def)
qed

theorem open_then_close_witness:
  "\<exists>ob t. OpenFile_RunSingle sample_env (OpenFile_input sample_env \<lparr>pr_repeat = 1, pr_period_us = 0,
        pr_offset_us = 0\<rparr> 0 True False 2 kReadWrite) sample_state = (Inr ob, t) \<and>
     CloseFile_RunSingle sample_env 2 t =
       (Inr (), t\<lparr>ps_world := log_call ''close'' [3] (ps_world t)\<rparr>)"
proof -
  let ?p = "\<lparr>pr_repeat = 1, pr_period_us = 0, pr_offset_us = 0\<rparr>"
  let ?ob = "OpenFile_input sample_env ?p 0 True False 2 kReadWrite"
  obtain t where t: "OpenFile_RunSingle sample_env (fst ?ob, snd ?ob) sample_state = (Inr ?ob, t)"
    by (simp add: OpenFile_RunSingle_def OpenFile_input_def open_defaults_def sample_env_def sysC_def
        bindC_def fail_ifC_def varsC_def SetVar_def valid_key_def sample_state_def sample_world0_def
        fresh_def)
  have "CloseFile_RunSingle sample_env 2 t =
      (Inr (), t\<lparr>ps_world := snd (sys_Close sample_env 3 (ps_world t))\<rparr>)"
    by (rule open_then_close [OF t])
      (simp_all add: OpenFile_input_def open_defaults_def sample_env_def fresh_def sample_state_def
        sample_world0_def)
  then show ?thesis using t by (auto simp: sample_env_def)
qed

text \<open>The name that the \<open>n\<close>-th draw gives.\<close>

fun nth_name :: "('w, 'g) env \<Rightarrow> nat \<Rightarrow> 'g \<Rightarrow> int" where
  "nth_name E 0 g = fst (rng_draw E 100000000 900000000 g)"
| "nth_name E (Suc n) g = nth_name E n (snd (rng_draw E 100000000 900000000 g))"

lemma nth_name_range:
  assumes "draws_in_range E"
  shows "100000000 \<le> nth_name E n g \<and> nth_name E n g \<le> 900000000"
proof (induction n arbitrary: g)
  case 0
  have "100000000 \<le> (900000000 :: int)" by simp
  then show ?case using assms unfolding draws_in_range_def nth_name.simps by blast
qed simp

lemma draw_name_app:
  assumes "holds_string (ps_path_key s) base s" and "\<And>p w. snd (sys_Access E p 0 w) = w"
  shows "draw_name E (p, g, s) =
    (let path = base @ show_int (nth_name E 0 g)
     in (Inr (fst (sys_Access E path 0 (ps_world s)) \<noteq> -1),
         (path, snd (rng_draw E 100000000 900000000 g), s)))"
  using shared_string_holds [OF assms(1)] assms(2)
  by (simp add: draw_name_def GetAbsolutePath_def bindC_def FileExists_def sysC_app case_prod_beta Let_def)

lemma random_name_loop:
  assumes "holds_string (ps_path_key s) base s" and "\<And>p w. snd (sys_Access E p 0 w) = w"
    and "fst (sys_Access E (base @ show_int (nth_name E n g)) 0 (ps_world s)) = -1"
  shows "\<exists>k g'. do_whileC (draw_name E) (p, g, s) = (Inr (), (base @ show_int (nth_name E k g), g', s)) \<and>
           k \<le> n \<and> fst (sys_Access E (base @ show_int (nth_name E k g)) 0 (ps_world s)) = -1"
  using assms(3)
proof (induction n arbitrary: p g)
  case 0
  then have "draw_name E (p, g, s) = (Inr False, (base @ show_int (nth_name E 0 g),
      snd (rng_draw E 100000000 900000000 g), s))"
    by (simp add: draw_name_app [OF assms(1,2)])
  from do_whileC_stop [where body = "draw_name E", OF this] 0 show ?case by blast
next
  case (Suc n)
  let ?g = "snd (rng_draw E 100000000 900000000 g)" and ?p = "base @ show_int (nth_name E 0 g)"
  show ?case
  proof (cases "fst (sys_Access E ?p 0 (ps_world s)) = -1")
    case True
    then have "draw_name E (p, g, s) = (Inr False, (?p, ?g, s))"
      by (simp add: draw_name_app [OF assms(1,2)])
    from do_whileC_stop [where body = "draw_name E", OF this] True show ?thesis by blast
  next
    case False
    then have step: "draw_name E (p, g, s) = (Inr True, (?p, ?g, s))"
      by (simp add: draw_name_app [OF assms(1,2)])
    have "fst (sys_Access E (base @ show_int (nth_name E n ?g)) 0 (ps_world s)) = -1"
      using Suc.prems by simp
    from Suc.IH [OF this, of ?p] obtain k g' where
      k: "do_whileC (draw_name E) (?p, ?g, s) = (Inr (), (base @ show_int (nth_name E k ?g), g', s))"
        "k \<le> n" "fst (sys_Access E (base @ show_int (nth_name E k ?g)) 0 (ps_world s)) = -1"
      by blast
    from do_whileC_again [where body = "draw_name E", OF step k(1)] k(2,3) show ?thesis
      by (intro exI [of _ "Suc k"] exI [of _ g']) simp
  qed
qed

text \<open>
  C28: the search for a free file name ends as soon as some draw gives a name that is not taken,
  and the name it ends with is below the absolute path, has nine digits and is free.
\<close>

theorem random_name_is_free:
  assumes "holds_string (ps_path_key s) base s" and "\<And>p w. snd (sys_Access E p 0 w) = w"
    and "draws_in_range E"
    and "fst (sys_Access E (base @ show_int (nth_name E n (of_gen f))) 0 (ps_world s)) = -1"
  shows "\<exists>f' i. random_path E f s = (Inr f', s) \<and> of_path_name f' = base @ show_int i \<and>
           100000000 \<le> i \<and> i \<le> 900000000 \<and> fst (sys_Access E (of_path_name f') 0 (ps_world s)) = -1"
proof -
  obtain k g' where "do_whileC (draw_name E) (of_path_name f, of_gen f, s) =
      (Inr (), (base @ show_int (nth_name E k (of_gen f)), g', s))"
    and "fst (sys_Access E (base @ show_int (nth_name E k (of_gen f))) 0 (ps_world s)) = -1"
    using random_name_loop [OF assms(1,2,4)] by blast
  then show ?thesis
    using nth_name_range [OF assms(3), of k "of_gen f"] by (auto simp: random_path_def)
qed

theorem random_name_is_free_witness:
  "\<exists>f' i. random_path sample_env (open_defaults sample_env True False 2 kReadWrite) sample_state
       = (Inr f', sample_state) \<and> of_path_name f' = ''/data/'' @ show_int i \<and>
     100000000 \<le> i \<and> i \<le> 900000000 \<and>
     fst (sys_Access sample_env (of_path_name f') 0 (ps_world sample_state)) = -1"
  by (rule random_name_is_free [where n = 0])
    (simp_all add: sample_env_draws, simp_all add: sample_env_def sample_state_def holds_string_def
      valid_key_def)

lemma collect_entries_all:
  assumes "\<And>w. fst (sys_ReadDir E h w) = (case entries w of [] \<Rightarrow> None | e # _ \<Rightarrow> Some e)"
    and "\<And>w. entries (snd (sys_ReadDir E h w)) = tl (entries w)"
  shows "\<exists>w. do_whileC (read_entry E dir h) (out, s) =
           (Inr (), (out @ map (\<lambda>e. join_path dir (snd e)) (filter (\<lambda>e. fst e = DT_REG) (entries (ps_world s))),
                     s\<lparr>ps_world := w\<rparr>))"
proof (induction "entries (ps_world s)" arbitrary: out s)
  case Nil
  then have "read_entry E dir h (out, s) = (Inr False, (out, s\<lparr>ps_world := snd (sys_ReadDir E h (ps_world s))\<rparr>))"
    using assms(1) [of "ps_world s"] by (simp add: read_entry_def sysC_app)
  from do_whileC_stop [where body = "read_entry E dir h", OF this] Nil show ?case by auto
next
  case (Cons e es)
  let ?s = "s\<lparr>ps_world := snd (sys_ReadDir E h (ps_world s))\<rparr>"
  let ?out = "if fst e = DT_REG then out @ [join_path dir (snd e)] else out"
  have "es = entries (ps_world ?s)" using Cons.hyps(2) assms(2) [of "ps_world s"] by (metis list.sel(3)
      pstate.select_convs(1) pstate.surjective pstate.update_convs(1))
  then obtain w where rest: "do_whileC (read_entry E dir h) (?out, ?s) =
      (Inr (), (?out @ map (\<lambda>e. join_path dir (snd e)) (filter (\<lambda>e. fst e = DT_REG) es), ?s\<lparr>ps_world := w\<rparr>))"
    using Cons.hyps(1) [of ?s ?out] by auto
  have "read_entry E dir h (out, s) = (Inr True, (?out, ?s))"
    using assms(1) [of "ps_world s"] Cons.hyps(2)
    by (cases e) (simp add: read_entry_def sysC_app split: list.splits)
  from do_whileC_again [where body = "read_entry E dir h", OF this rest] Cons.hyps(2) [symmetric] show ?case by auto
qed

text \<open>
  C27: reading a directory stores the paths of its regular files, in the order of the
  directory, and nothing else; the loop ends when the stream of entries does.
\<close>

theorem ReadDirectory_lists_regular_files:
  assumes "\<And>w. fst (sys_ReadDir E h w) = (case entries w of [] \<Rightarrow> None | e # _ \<Rightarrow> Some e)"
    and "\<And>w. entries (snd (sys_ReadDir E h w)) = tl (entries w)"
    and "sys_OpenDir E (rd_directory_name f) (ps_world s) = (Some h, wa)"
    and "valid_key (ps_vars s) (rd_output_key f)"
  shows "\<exists>t. ReadDirectory_RunSingle E (b, f) s = (Inr (b, f), t) \<and>
           sv_variables (ps_vars t) ! nat (rd_output_key f) =
             VList (map (\<lambda>e. join_path (rd_directory_name f) (snd e))
                      (filter (\<lambda>e. fst e = DT_REG) (entries wa)))"
proof -
  let ?l = "map (\<lambda>e. join_path (rd_directory_name f) (snd e)) (filter (\<lambda>e. fst e = DT_REG) (entries wa))"
  obtain w where "do_whileC (read_entry E (rd_directory_name f) h) ([], s\<lparr>ps_world := wa\<rparr>) =
      (Inr (), (?l, s\<lparr>ps_world := w\<rparr>))"
    using collect_entries_all [OF assms(1,2), of "rd_directory_name f" "[]" "s\<lparr>ps_world := wa\<rparr>"] by auto
  then have "collect_entries E (rd_directory_name f) h (s\<lparr>ps_world := wa\<rparr>) = (Inr ?l, s\<lparr>ps_world := w\<rparr>)"
    by (simp add: collect_entries_def)
  moreover have "nat (rd_output_key f) < length (sv_variables (ps_vars s))"
    using assms(4) by (auto simp: valid_key_def)
  ultimately show ?thesis
    using assms(3,4)
    by (simp add: ReadDirectory_RunSingle_def bindC_app sysC_app varsC_def SetVar_def)
qed

theorem ReadDirectory_lists_regular_files_witness:
  "\<exists>t. ReadDirectory_RunSingle sample_env
         (Instruction_ctor ''read_directory'' \<lparr>pr_repeat = 1, pr_period_us = 0, pr_offset_us = 0\<rparr>,
          \<lparr>rd_directory_name = ''/d'', rd_output_key = 2\<rparr>) sample_state = (Inr
         (Instruction_ctor ''read_directory'' \<lparr>pr_repeat = 1, pr_period_us = 0, pr_offset_us = 0\<rparr>,
          \<lparr>rd_directory_name = ''/d'', rd_output_key = 2\<rparr>), t) \<and>
     sv_variables (ps_vars t) ! 2 = VList [''/d/a'', ''/d/b'']"
  using ReadDirectory_lists_regular_files [where E = sample_env and h = 3 and entries = sw_entries
      and f = "\<lparr>rd_directory_name = ''/d'', rd_output_key = 2\<rparr>" and s = sample_state
      and wa = "sample_world0\<lparr>sw_next := 4\<rparr>"
      and b = "Instruction_ctor ''read_directory'' \<lparr>pr_repeat = 1, pr_period_us = 0, pr_offset_us = 0\<rparr>"]
  by (simp add: sample_env_def sample_state_def sample_world0_def fresh_def valid_key_def DT_REG_def
      join_path_def split: list.splits)

text \<open>
  Where \<^verbatim>\<open>fallocate\<close> and \<^verbatim>\<open>ftruncate\<close> do what they document, the file has the requested size
  after a successful resize, whether it grows, shrinks or stays.
\<close>

theorem ResizeFile_sets_size:
  defines "sz \<equiv> \<lambda>E fd w. snd (fst (sys_FStat E fd w))"
  assumes "ResizeFile_RunSingle E (b, f) s = (Inr ob, t)" and "holds_int (rf_input_fd_key f) fd s"
    and "\<And>w. sz E fd (snd (sys_FStat E fd w)) = sz E fd w"
    and "\<And>n w. fst (sys_FAllocate E fd 0 0 n w) = 0 \<Longrightarrow> sz E fd w < n \<Longrightarrow>
           sz E fd (snd (sys_FAllocate E fd 0 0 n w)) = n"
    and "\<And>n w. fst (sys_FTruncate E fd n w) = 0 \<Longrightarrow> sz E fd (snd (sys_FTruncate E fd n w)) = n"
  shows "sz E fd (ps_world t) = rf_size f"
proof -
  let ?w = "snd (sys_FStat E fd (ps_world s))"
  obtain F u where "GetFileSize E fd s = (Inr F, u)"
    using assms(2) by (auto simp: ResizeFile_RunSingle_def bindC_Inr_iff shared_int_holds [OF assms(3)])
  then have size: "GetFileSize E fd s = (Inr (sz E fd (ps_world s)), s\<lparr>ps_world := ?w\<rparr>)"
    by (auto simp: GetFileSize_Inr_iff sz_def)
  consider "sz E fd (ps_world s) < rf_size f" | "rf_size f < sz E fd (ps_world s)"
    | "rf_size f = sz E fd (ps_world s)" by linarith
  then show ?thesis
    using assms(2,4) assms(5) [of "rf_size f" ?w] assms(6) [of "rf_size f" ?w]
    by cases (auto simp: ResizeFile_RunSingle_def bindC_Inr_iff shared_int_holds [OF assms(3)] size
        sysC_app fail_ifC_Inr_iff)
qed

theorem ResizeFile_sets_size_witness:
  "\<exists>ob t. ResizeFile_RunSingle sample_env (ResizeFile_ctor sample_env
        \<lparr>pr_repeat = 1, pr_period_us = 0, pr_offset_us = 0\<rparr> 100 1) sample_state = (Inr ob, t) \<and>
     sw_size (ps_world t) = 100"
proof -
  let ?ob = "ResizeFile_ctor sample_env \<lparr>pr_repeat = 1, pr_period_us = 0, pr_offset_us = 0\<rparr> 100 1"
  obtain t where t: "ResizeFile_RunSingle sample_env (fst ?ob, snd ?ob) sample_state = (Inr ?ob, t)"
    by (simp add: ResizeFile_RunSingle_def ResizeFile_ctor_def bindC_app GetFileSize_app sysC_app
        fail_ifC_def shared_int_app get_int_def valid_key_def sample_env_def sample_state_def
        sample_world0_def)
  have "snd (fst (sys_FStat sample_env 5 (ps_world t))) = rf_size (snd ?ob)"
    by (rule ResizeFile_sets_size [OF t])
      (simp_all add: ResizeFile_ctor_def sample_holds, simp_all add: sample_env_def log_call_def)
  then show ?thesis using t by (auto simp: sample_env_def ResizeFile_ctor_def)
qed

text \<open>
  A random resize asks for a size between the two bounds of the configuration, if these fit
  an \<^verbatim>\<open>int\<close>.
\<close>

theorem ResizeFileRandom_in_bounds:
  assumes "ResizeFileRandom_SetUpSingle E (b, f) s = (Inr (b', f'), t)" and "draws_in_range E"
    and "in_i32 (rf_min f)" and "in_i32 (rf_max f)"
  shows "rf_min f \<le> rf_size f' \<and> rf_size f' \<le> rf_max f"
proof -
  define g where "g = (if rf_reseeding f = kEachCycle then rng_seed E (rf_seed f) else rf_gen f)"
  have d: "rf_min f \<le> rf_max f"
      "f' = f\<lparr>rf_size := fst (rng_draw E (rf_min f) (rf_max f) g),
             rf_gen := snd (rng_draw E (rf_min f) (rf_max f) g)\<rparr>"
    using assms(1)
    by (auto simp: ResizeFileRandom_SetUpSingle_def Let_def narrow32_in [OF assms(3)] g_def
        narrow32_in [OF assms(4)] bindC_Inr_iff case_prod_beta split: if_splits)
  then show ?thesis using assms(2) by (simp add: draws_in_range_def)
qed

theorem ResizeFileRandom_in_bounds_witness:
  "\<exists>b' f' t. ResizeFileRandom_SetUpSingle sample_env (ResizeFileRandom_ctor sample_env
        \<lparr>pr_repeat = 1, pr_period_us = 0, pr_offset_us = 0\<rparr> 10 20 7 kOnce 1) sample_state
      = (Inr (b', f'), t) \<and> 10 \<le> rf_size f' \<and> rf_size f' \<le> 20"
proof -
  let ?ob = "ResizeFileRandom_ctor sample_env \<lparr>pr_repeat = 1, pr_period_us = 0, pr_offset_us = 0\<rparr>
      10 20 7 kOnce 1"
  have "\<not> is_timed (fst ?ob)"
    by (simp add: ResizeFileRandom_ctor_def ResizeFile_ctor_def Instruction_ctor_def is_timed_def)
  then obtain b' t where b': "Instruction_SetUpSingle sample_env (fst ?ob) sample_state = (Inr b', t)"
    using Instruction_SetUpSingle_untimed by blast
  have bounds: "rf_min (snd ?ob) = 10" "rf_max (snd ?ob) = 20"
    by (simp_all add: ResizeFileRandom_ctor_def ResizeFile_ctor_def)
  have "\<exists>f'. ResizeFileRandom_SetUpSingle sample_env (fst ?ob, snd ?ob) sample_state = (Inr (b', f'), t)"
    using b' bounds by (simp add: ResizeFileRandom_SetUpSingle_def Let_def narrow32_in in_i32_def
        case_prod_beta bindC_app)
  then show ?thesis
    using ResizeFileRandom_in_bounds [of sample_env "fst ?ob" "snd ?ob" sample_state b' _ t] bounds
    by (auto simp: sample_env_draws in_i32_def)
qed

end
