(* ===== verification/Statistics.thy ===== *)
theory Statistics
  imports Timespec "HOL-Library.Multiset"
begin

text \<open>
  \<^verbatim>\<open>include/ditto/statistics.h\<close>: the statistics of a list of samples. The templates are
  modelled at \<^verbatim>\<open>double\<close>, the type \<^verbatim>\<open>src/result.cpp\<close> uses them at; minimum and maximum, which
  only compare, are polymorphic as in the source. \<^verbatim>\<open>std::nth_element\<close> is only determined up to
  a permutation by the standard, so the median takes it as an argument and
  \<open>nth_element_ok\<close> is the standard's guarantee.
\<close>

section \<open>The model\<close>

fun min_element :: "'a::ord \<Rightarrow> 'a list \<Rightarrow> 'a" where
  "min_element smallest [] = smallest"
| "min_element smallest (x # xs) = min_element (if x < smallest then x else smallest) xs"

fun max_element :: "'a::ord \<Rightarrow> 'a list \<Rightarrow> 'a" where
  "max_element largest [] = largest"
| "max_element largest (x # xs) = max_element (if largest < x then x else largest) xs"

fun StatisticsGetMin :: "'a::ord list \<Rightarrow> 'a res" where
  "StatisticsGetMin [] = Inl (Logf ''Cannot compute the min on an empty vector'')"
| "StatisticsGetMin (x # xs) = Inr (min_element x xs)"

fun StatisticsGetMax :: "'a::ord list \<Rightarrow> 'a res" where
  "StatisticsGetMax [] = Inl (Logf ''Cannot compute the max on an empty vector'')"
| "StatisticsGetMax (x # xs) = Inr (max_element x xs)"

definition accumulate :: "f64 list \<Rightarrow> f64" where
  "accumulate samples = foldl fadd (Fin 0) samples"

definition size_f64 :: "'a list \<Rightarrow> f64" where
  "size_f64 samples = f64_of_int (int (length samples))"

definition StatisticsGetMean :: "f64 list \<Rightarrow> f64 res" where
  "StatisticsGetMean samples =
     (if samples = [] then Inl (Logf ''Cannot compute the mean on an empty vector'')
      else Inr (fdiv (accumulate samples) (size_f64 samples)))"

definition StatisticsGetMedian :: "(nat \<Rightarrow> f64 list \<Rightarrow> f64 list) \<Rightarrow> f64 list \<Rightarrow> f64 res" where
  "StatisticsGetMedian nth_el samples =
     (if samples = [] then Inl (Logf ''Cannot compute the median on an empty vector'')
      else let n = length samples in
        if n mod 2 \<noteq> 0 then
          let v = nth_el (n div 2) samples in Inr (v ! (n div 2))
        else
          let v = nth_el ((n - 1) div 2) (nth_el (n div 2) samples);
              result = fadd (v ! (n div 2)) (v ! ((n - 1) div 2))
          in Inr (fdiv result (Fin 2)))"

definition variance_step :: "f64 \<Rightarrow> f64 \<Rightarrow> f64 \<Rightarrow> f64" where
  "variance_step mean variance s =
     (let deviation = fsub s mean; deviation_square = fmul deviation deviation
      in fadd variance deviation_square)"

definition StatisticsGetSd :: "f64 list \<Rightarrow> f64 res" where
  "StatisticsGetSd samples =
     (if samples = [] then Inl (Logf ''Cannot compute the sd on an empty vector'')
      else bindR (StatisticsGetMean samples) (\<lambda>mean.
           Inr (fsqrt (fdiv (foldl (variance_step mean) (Fin 0) samples) (size_f64 samples)))))"

section \<open>What the standard says of \<^verbatim>\<open>std::nth_element\<close>\<close>

definition nth_element_ok :: "(nat \<Rightarrow> f64 list \<Rightarrow> f64 list) \<Rightarrow> bool" where
  "nth_element_ok nth_el \<longleftrightarrow>
     (\<forall>k rs. k < length rs \<longrightarrow>
        mset (nth_el k (map Fin rs)) = mset (map Fin rs) \<and>
        (\<forall>i j. i < k \<longrightarrow> k \<le> j \<longrightarrow> j < length rs \<longrightarrow>
           \<not> nth_el k (map Fin rs) ! j < nth_el k (map Fin rs) ! i) \<and>
        nth_el k (map Fin rs) ! k = Fin (sort rs ! k))"

text \<open>Two implementations that conform: sorting, and sorting with the tail reversed.\<close>

definition nth_element_sorting :: "nat \<Rightarrow> f64 list \<Rightarrow> f64 list" where
  "nth_element_sorting k xs = map Fin (sort (map fin_val xs))"

definition nth_element_rev_tail :: "nat \<Rightarrow> f64 list \<Rightarrow> f64 list" where
  "nth_element_rev_tail k xs =
     (let s = sort (map fin_val xs) in map Fin (take (Suc k) s @ rev (drop (Suc k) s)))"

lemma fin_val_map_Fin [simp]: "map (fin_val \<circ> Fin) rs = rs"
  by (simp add: o_def)

lemma nth_element_sorting_ok: "nth_element_ok nth_element_sorting"
  unfolding nth_element_ok_def
  by (auto simp: nth_element_sorting_def not_less intro: sorted_nth_mono)

lemma nth_element_rev_tail_ok: "nth_element_ok nth_element_rev_tail"
  unfolding nth_element_ok_def
proof (intro allI impI conjI)
  fix k and rs :: "rat list"
  assume k: "k < length rs"
  let ?s = "sort rs"
  let ?v = "take (Suc k) ?s @ rev (drop (Suc k) ?s)"
  have eq: "nth_element_rev_tail k (map Fin rs) = map Fin ?v"
    by (simp add: nth_element_rev_tail_def Let_def)
  have "mset ?v = mset (take (Suc k) ?s @ drop (Suc k) ?s)" by (simp only: mset_append mset_rev)
  then have m: "mset ?v = mset rs" by (simp only: append_take_drop_id mset_sort)
  then show "mset (nth_element_rev_tail k (map Fin rs)) = mset (map Fin rs)"
    by (simp only: eq mset_map)
  show "nth_element_rev_tail k (map Fin rs) ! k = Fin (?s ! k)"
    using k by (simp add: eq nth_append)
  fix i j
  assume ij: "i < k" "k \<le> j" "j < length rs"
  have len: "length ?v = length rs" using m by (metis size_mset)
  have low: "?v ! i \<le> ?s ! k"
    using ij k by (simp add: nth_append sorted_nth_mono)
  have high: "?s ! k \<le> ?v ! j"
  proof (cases "j = k")
    case True
    then show ?thesis using k by (simp add: nth_append)
  next
    case False
    then have "?v ! j = rev (drop (Suc k) ?s) ! (j - Suc k)" using ij k by (simp add: nth_append)
    also have "\<dots> \<in> set (drop (Suc k) ?s)"
      using False ij k by (metis length_drop length_rev length_sort nth_mem set_rev
          diff_less_mono Suc_leI le_neq_implies_less)
    finally obtain l where "l < length rs - Suc k" "?v ! j = ?s ! (Suc k + l)"
      by (auto simp: in_set_conv_nth)
    then show ?thesis using k by (simp add: sorted_nth_mono)
  qed
  show "\<not> nth_element_rev_tail k (map Fin rs) ! j < nth_element_rev_tail k (map Fin rs) ! i"
  proof -
    have "map Fin ?v ! j = Fin (?v ! j)" "map Fin ?v ! i = Fin (?v ! i)"
      using ij len by (auto simp only: nth_map)
    then show ?thesis using low high by (simp only: eq less_f64.simps not_less)
  qed
qed

section \<open>Minimum and maximum\<close>

lemma min_element_Min: "min_element x xs = Min (set ((x :: 'a :: linorder) # xs))"
proof -
  have "min_element x xs = fold min xs x"
    by (induction xs arbitrary: x) (auto simp: min_def not_less intro: arg_cong)
  then show ?thesis by (simp only: Min.set_eq_fold)
qed

lemma max_element_Max: "max_element x xs = Max (set ((x :: 'a :: linorder) # xs))"
proof -
  have "max_element x xs = fold max xs x"
    by (induction xs arbitrary: x) (auto simp: max_def not_less intro: arg_cong)
  then show ?thesis by (simp only: Max.set_eq_fold)
qed

lemma min_element_Fin: "min_element (Fin x) (map Fin xs) = Fin (min_element x xs)"
  by (induction xs arbitrary: x) simp_all

lemma max_element_Fin: "max_element (Fin x) (map Fin xs) = Fin (max_element x xs)"
  by (induction xs arbitrary: x) simp_all

lemma StatisticsGetMin_Fin:
  "rs \<noteq> [] \<Longrightarrow> StatisticsGetMin (map Fin rs) = Inr (Fin (Min (set rs)))"
  by (cases rs) (simp_all add: min_element_Fin min_element_Min)

lemma StatisticsGetMax_Fin:
  "rs \<noteq> [] \<Longrightarrow> StatisticsGetMax (map Fin rs) = Inr (Fin (Max (set rs)))"
  by (cases rs) (simp_all add: max_element_Fin max_element_Max)

section \<open>Mean\<close>

lemma foldl_fadd_ints:
  assumes "0 \<le> a" and "\<forall>x \<in> set xs. 0 \<le> x" and "a + sum_list xs \<le> 2 ^ 53"
  shows "foldl fadd (Fin (of_int a)) (map (Fin \<circ> of_int) xs) = Fin (of_int (a + sum_list xs))"
  using assms
proof (induction xs arbitrary: a)
  case (Cons x xs)
  have "0 \<le> sum_list xs" using Cons.prems by (intro sum_list_nonneg) auto
  then have "fadd (Fin (of_int a)) (Fin (of_int x)) = Fin (of_int (a + x))"
    using Cons.prems by (intro fadd_int) auto
  then show ?case using Cons.IH [of "a + x"] Cons.prems by (simp add: add.assoc)
qed simp

lemma accumulate_ints:
  assumes "\<forall>x \<in> set xs. 0 \<le> x" and "sum_list xs \<le> 2 ^ 53"
  shows "accumulate (map (Fin \<circ> of_int) xs) = Fin (of_int (sum_list xs))"
  using foldl_fadd_ints [of 0 xs] assms by (simp add: accumulate_def)

lemma mean_ints:
  assumes "xs \<noteq> []" and "\<forall>x \<in> set xs. 0 \<le> x" and "sum_list xs \<le> 2 ^ 53" and "length xs \<le> 2 ^ 53"
  shows "StatisticsGetMean (map (Fin \<circ> of_int) xs) =
           Inr (Fin (fl (of_int (sum_list xs) / of_nat (length xs))))"
proof -
  have s: "size_f64 (map (Fin \<circ> of_int) xs :: f64 list) = Fin (of_nat (length xs))"
    using assms(4) by (simp add: size_f64_def f64_of_int_exact)
  have l: "1 \<le> (of_nat (length xs) :: rat)" using assms(1) by (cases xs) simp_all
  have n: "0 \<le> (of_int (sum_list xs) :: rat)" using assms(2) by (simp add: sum_list_nonneg)
  have "\<bar>of_int (sum_list xs) / of_nat (length xs)\<bar> \<le> (of_int (sum_list xs) :: rat)"
    using l n mult_left_mono [OF l n] by (simp add: divide_le_eq)
  also have "\<dots> \<le> 2 ^ 53" using assms(3) by (metis of_int_le_iff of_int_numeral of_int_power)
  also have "\<dots> \<le> 2 ^ 1000" by (rule power_1000_ge) simp
  finally have "f64_of_rat (of_int (sum_list xs) / of_nat (length xs)) =
      Fin (fl (of_int (sum_list xs) / of_nat (length xs)))"
    by (rule f64_of_rat_bounded)
  then show ?thesis using assms l
    by (simp add: StatisticsGetMean_def s accumulate_ints)
qed

text \<open>
  C40: the mean of whole-nanosecond samples is the correctly rounded quotient of their exact
  sum and lies between the minimum and the maximum the other two functions return.
\<close>

theorem mean_between_min_and_max:
  assumes "xs \<noteq> []" and "\<forall>x \<in> set xs. 0 \<le> x" and "sum_list xs \<le> 2 ^ 53" and "length xs \<le> 2 ^ 53"
  shows "\<exists>lo mean hi.
           StatisticsGetMin (map (Fin \<circ> of_int) xs) = Inr (Fin lo) \<and>
           StatisticsGetMean (map (Fin \<circ> of_int) xs) = Inr (Fin mean) \<and>
           StatisticsGetMax (map (Fin \<circ> of_int) xs) = Inr (Fin hi) \<and>
           mean = fl (of_int (sum_list xs) / of_nat (length xs)) \<and> lo \<le> mean \<and> mean \<le> hi"
proof -
  let ?lo = "Min (set xs)" and ?hi = "Max (set xs)"
  have ne: "set xs \<noteq> {}" "map of_int xs \<noteq> ([] :: rat list)" using assms(1) by auto
  have b: "?lo \<le> x" "x \<le> ?hi" if "x \<in> set xs" for x using that by simp_all
  have elem: "\<bar>x\<bar> \<le> 2 ^ 53" if "x \<in> set xs" for x
    using that assms(2,3) member_le_sum_list [of x xs] by force
  have len: "0 < (of_nat (length xs) :: rat)" using assms(1) by simp
  have sum: "of_nat (length xs) * ?lo \<le> sum_list xs" "sum_list xs \<le> of_nat (length xs) * ?hi"
    using sum_list_mono [of xs "\<lambda>_. ?lo" "\<lambda>x. x"] sum_list_mono [of xs "\<lambda>x. x" "\<lambda>_. ?hi"] b
    by (simp_all add: sum_list_triv)
  have lo: "(of_int ?lo :: rat) \<le> of_int (sum_list xs) / of_nat (length xs)"
  proof -
    have "of_int ?lo * of_nat (length xs) \<le> (of_int (sum_list xs) :: rat)"
      using sum(1) by (metis mult.commute of_int_le_iff of_int_mult of_int_of_nat_eq)
    then show ?thesis using len by (simp add: pos_le_divide_eq)
  qed
  have hi: "of_int (sum_list xs) / of_nat (length xs) \<le> (of_int ?hi :: rat)"
  proof -
    have "(of_int (sum_list xs) :: rat) \<le> of_int ?hi * of_nat (length xs)"
      using sum(2) by (metis mult.commute of_int_le_iff of_int_mult of_int_of_nat_eq)
    then show ?thesis using len by (simp add: pos_divide_le_eq)
  qed
  have rep: "representable (of_int ?lo)" "representable (of_int ?hi)"
    using elem ne by (auto intro!: representable_int simp: Min_in Max_in)
  have "StatisticsGetMin (map Fin (map of_int xs)) = Inr (Fin (of_int ?lo))"
    using StatisticsGetMin_Fin [OF ne(2)] ne by (simp add: mono_Min_commute [of of_int] mono_def)
  moreover have "StatisticsGetMax (map Fin (map of_int xs)) = Inr (Fin (of_int ?hi))"
    using StatisticsGetMax_Fin [OF ne(2)] ne by (simp add: mono_Max_commute [of of_int] mono_def)
  ultimately show ?thesis
    using mean_ints [OF assms] fl_ge [OF rep(1) lo] fl_le [OF rep(2) hi] by simp
qed

theorem mean_between_min_and_max_witness:
  "\<exists>lo mean hi.
     StatisticsGetMin (map (Fin \<circ> of_int) [10, 20, 60]) = Inr (Fin lo) \<and>
     StatisticsGetMean (map (Fin \<circ> of_int) [10, 20, 60]) = Inr (Fin mean) \<and>
     StatisticsGetMax (map (Fin \<circ> of_int) [10, 20, 60]) = Inr (Fin hi) \<and>
     mean = fl (of_int (sum_list [10, 20, 60]) / of_nat (length [10, 20, 60 :: int])) \<and>
     lo \<le> mean \<and> mean \<le> hi"
  by (rule mean_between_min_and_max) simp_all

section \<open>Median\<close>

lemma mset_map_Fin: "mset ys = mset (map Fin rs) \<Longrightarrow> \<exists>ts. ys = map Fin ts \<and> mset ts = mset rs"
proof -
  assume m: "mset ys = mset (map Fin rs)"
  let ?ts = "map fin_val ys"
  have "\<forall>y \<in> set ys. y \<in> Fin ` set rs" using m by (metis list.set_map set_mset_mset)
  then have "map (\<lambda>y. Fin (fin_val y)) ys = ys" by (intro map_idI) auto
  then have "ys = map Fin ?ts" by (simp add: o_def)
  moreover have "mset ?ts = mset (map fin_val (map Fin rs))" using m by (simp only: mset_map)
  then have "mset ?ts = mset rs" by simp
  ultimately show ?thesis by blast
qed

lemma nth_element_okD:
  assumes "nth_element_ok nth_el" and "k < length rs"
  shows "nth_el k (map Fin rs) ! k = Fin (sort rs ! k)"
    and "\<exists>ts. nth_el k (map Fin rs) = map Fin ts \<and> mset ts = mset rs \<and>
           (\<forall>i j. i < k \<longrightarrow> k \<le> j \<longrightarrow> j < length rs \<longrightarrow> ts ! i \<le> ts ! j)"
proof -
  show "nth_el k (map Fin rs) ! k = Fin (sort rs ! k)"
    using assms unfolding nth_element_ok_def by blast
  have m: "mset (nth_el k (map Fin rs)) = mset (map Fin rs)"
    using assms unfolding nth_element_ok_def by blast
  then obtain ts where ts: "nth_el k (map Fin rs) = map Fin ts" "mset ts = mset rs"
    using mset_map_Fin by blast
  have "ts ! i \<le> ts ! j" if "i < k" "k \<le> j" "j < length rs" for i j
  proof -
    have "\<not> map Fin ts ! j < map Fin ts ! i"
      using assms that ts(1) unfolding nth_element_ok_def by metis
    moreover have "length ts = length rs" using ts(2) by (metis size_mset)
    ultimately show ?thesis using that by simp
  qed
  then show "\<exists>ts. nth_el k (map Fin rs) = map Fin ts \<and> mset ts = mset rs \<and>
      (\<forall>i j. i < k \<longrightarrow> k \<le> j \<longrightarrow> j < length rs \<longrightarrow> ts ! i \<le> ts ! j)"
    using ts by blast
qed

text \<open>Behind a partition point no element is below the element of that rank.\<close>

lemma partitioned_at_least:
  fixes us :: "rat list"
  assumes "mset us = mset rs" and "\<And>i. i < k \<Longrightarrow> us ! i \<le> us ! j" and "k < j" and "j < length us"
  shows "sort rs ! k \<le> us ! j"
proof (rule ccontr)
  assume c: "\<not> ?thesis"
  let ?P = "\<lambda>x. x \<le> us ! j"
  have "insert j {..< k} \<subseteq> {i. i < length us \<and> ?P (us ! i)}" using assms by auto
  moreover have "card (insert j {..< k}) = Suc k" using assms(3) by simp
  ultimately have "Suc k \<le> length (filter ?P us)"
    unfolding length_filter_conv_card
    using card_mono [of "{i. i < length us \<and> ?P (us ! i)}" "insert j {..< k}"] by simp
  also have "\<dots> = length (filter ?P (sort rs))"
  proof -
    have "mset (filter ?P us) = mset (filter ?P (sort rs))" using assms(1) by simp
    then show ?thesis by (rule mset_eq_length)
  qed
  finally have cnt: "Suc k \<le> length (filter ?P (sort rs))" .
  have "i < k" if "i < length (sort rs)" "?P (sort rs ! i)" for i
  proof (rule ccontr)
    assume "\<not> i < k"
    then have "sort rs ! k \<le> sort rs ! i" using that by (intro sorted_nth_mono) auto
    then show False using that c by auto
  qed
  then have "{i. i < length (sort rs) \<and> ?P (sort rs ! i)} \<subseteq> {..< k}" by auto
  then have "length (filter ?P (sort rs)) \<le> k"
    unfolding length_filter_conv_card using card_mono [OF finite_lessThan] by fastforce
  then show False using cnt by linarith
qed

text \<open>
  C39: for an odd number of samples the median is the middle of the sorted samples; for an even
  number it is the rounded average of the lower middle and some sample that is not smaller,
  whatever conforming \<^verbatim>\<open>std::nth_element\<close> is used.
\<close>

theorem median_of_samples:
  assumes "nth_element_ok nth_el" and "rs \<noteq> []"
  shows "if odd (length rs)
         then StatisticsGetMedian nth_el (map Fin rs) = Inr (Fin (sort rs ! (length rs div 2)))
         else \<exists>h \<in> set rs. sort rs ! (length rs div 2 - 1) \<le> h \<and>
                StatisticsGetMedian nth_el (map Fin rs) =
                  Inr (fdiv (fadd (Fin h) (Fin (sort rs ! (length rs div 2 - 1)))) (Fin 2))"
proof (cases "odd (length rs)")
  case True
  then have "length rs mod 2 \<noteq> 0" by presburger
  moreover have "length rs div 2 < length rs" using assms(2) by (cases rs) auto
  ultimately show ?thesis
    using assms nth_element_okD(1) [OF assms(1), of "length rs div 2" rs] True
    by (simp add: StatisticsGetMedian_def Let_def)
next
  case False
  then have n: "length rs mod 2 = 0" by presburger
  let ?h = "length rs div 2"
  have "0 < length rs" using assms(2) by simp
  then have h: "?h < length rs" "(length rs - 1) div 2 = ?h - 1" "?h - 1 < ?h" using n by presburger+
  obtain ts where ts: "nth_el ?h (map Fin rs) = map Fin ts" "mset ts = mset rs"
    using nth_element_okD(2) [OF assms(1) h(1)] by blast
  have lt: "length ts = length rs" and st: "sort ts = sort rs"
    using ts(2) by (metis size_mset, metis properties_for_sort mset_sort sorted_sort)
  have k: "?h - 1 < length ts" using h lt by simp
  obtain us where us: "nth_el (?h - 1) (map Fin ts) = map Fin us" "mset us = mset ts"
      "\<forall>i j. i < ?h - 1 \<longrightarrow> ?h - 1 \<le> j \<longrightarrow> j < length ts \<longrightarrow> us ! i \<le> us ! j"
    using nth_element_okD(2) [OF assms(1) k] by blast
  have lu: "length us = length rs" using us(2) lt by (metis size_mset)
  have low: "us ! (?h - 1) = sort rs ! (?h - 1)"
    using nth_element_okD(1) [OF assms(1) k] us(1) st k lt lu by simp
  have "us ! ?h \<in> set us" using h lu by simp
  then have mem: "us ! ?h \<in> set rs" using us(2) ts(2) by (metis set_mset_mset)
  have part: "sort rs ! (?h - 1) \<le> us ! ?h"
    using us(2,3) ts(2) h lt lu by (intro partitioned_at_least) auto
  have "StatisticsGetMedian nth_el (map Fin rs) =
      Inr (fdiv (fadd (Fin (us ! ?h)) (Fin (sort rs ! (?h - 1)))) (Fin 2))"
    using assms(2) n h lu ts(1) us(1) low [symmetric] k lt
    by (simp add: StatisticsGetMedian_def Let_def)
  then show ?thesis using False mem part by auto
qed

theorem median_of_samples_witness:
  "StatisticsGetMedian nth_element_sorting (map Fin [5, 1, 3]) = Inr (Fin 3)"
proof -
  have "StatisticsGetMedian nth_element_sorting (map Fin [5, 1, 3]) =
      Inr (Fin (sort [5, 1, 3] ! (length [5, 1, 3 :: rat] div 2)))"
    using median_of_samples [OF nth_element_sorting_ok, of "[5, 1, 3]"]
    by (simp only: list.size) simp
  then show ?thesis by simp
qed

text \<open>
  The even case relies on more than the standard promises: with an implementation of
  \<^verbatim>\<open>std::nth_element\<close> that conforms, the median of 1, 2, 3, 4 comes out as 3 instead of 2.5.
\<close>

theorem median_even_not_determined:
  "nth_element_ok nth_element_rev_tail \<and>
   StatisticsGetMedian nth_element_rev_tail (map Fin [1, 2, 3, 4]) = Inr (Fin 3)"
proof
  show "nth_element_ok nth_element_rev_tail" by (rule nth_element_rev_tail_ok)
  have "fadd (Fin 4) (Fin 2) = Fin 6" "fdiv (Fin 6) (Fin 2) = Fin 3"
    using fadd_int [of 4 2] f64_of_rat_int [of 3] by simp_all
  then show "StatisticsGetMedian nth_element_rev_tail (map Fin [1, 2, 3, 4]) = Inr (Fin 3)"
    by (simp add: StatisticsGetMedian_def nth_element_rev_tail_def Let_def)
qed

section \<open>Standard deviation\<close>

definition nonneg_f64 :: "f64 \<Rightarrow> bool" where
  "nonneg_f64 x = (case x of Fin r \<Rightarrow> 0 \<le> r | PInf \<Rightarrow> True | _ \<Rightarrow> False)"

lemma nonneg_f64_of_rat: "0 \<le> x \<Longrightarrow> nonneg_f64 (f64_of_rat x)"
  using f64_of_rat_not_neg [of x] by (auto simp: nonneg_f64_def)

lemma nonneg_fadd: "nonneg_f64 x \<Longrightarrow> nonneg_f64 y \<Longrightarrow> nonneg_f64 (fadd x y)"
  by (cases x; cases y) (auto simp: nonneg_f64_def intro: nonneg_f64_of_rat [unfolded nonneg_f64_def])

lemma nonneg_fmul_self: "x \<noteq> NaN \<Longrightarrow> nonneg_f64 (fmul x x)"
  by (cases x) (auto simp: nonneg_f64_def inf_of_sign_def
      intro: nonneg_f64_of_rat [unfolded nonneg_f64_def])

lemma nonneg_fdiv: "nonneg_f64 x \<Longrightarrow> 0 < r \<Longrightarrow> nonneg_f64 (fdiv x (Fin r))"
  by (cases x) (auto simp: nonneg_f64_def inf_of_sign_def
      intro: nonneg_f64_of_rat [unfolded nonneg_f64_def])

lemma nonneg_fsqrt: "nonneg_f64 x \<Longrightarrow> nonneg_f64 (fsqrt x)"
proof (cases x)
  case (Fin r)
  assume "nonneg_f64 x"
  then show ?thesis using Fin fsqrt_nonneg [of r] by (auto simp: nonneg_f64_def simp del: fsqrt.simps)
qed (simp_all add: nonneg_f64_def)

lemma f64_of_rat_not_NaN [simp]: "f64_of_rat x \<noteq> NaN"
  by (simp add: f64_of_rat_def Let_def)

lemma fsub_Fin_not_NaN [simp]: "fsub (Fin a) (Fin b) \<noteq> NaN"
  by (simp add: fsub_def)

lemma variance_nonneg:
  "nonneg_f64 v \<Longrightarrow> nonneg_f64 (foldl (variance_step (Fin m)) v (map (Fin \<circ> of_int) xs))"
proof (induction xs arbitrary: v)
  case (Cons x xs)
  then show ?case
    by (simp add: variance_step_def Let_def nonneg_fadd nonneg_fmul_self)
qed simp

lemma variance_const:
  "foldl (variance_step (Fin (of_int c))) (Fin 0) (replicate n (Fin (of_int c))) = Fin 0"
  using f64_of_rat_int [of 0] by (induction n) (simp_all add: variance_step_def fsub_def)

text \<open>
  The standard deviation of whole-nanosecond samples is never negative or NaN, and it is
  zero when all the samples are equal.
\<close>

theorem sd_nonneg_and_zero_if_constant:
  assumes "xs \<noteq> []" and "\<forall>x \<in> set xs. 0 \<le> x" and "sum_list xs \<le> 2 ^ 53" and "length xs \<le> 2 ^ 53"
  shows "\<exists>sd. StatisticsGetSd (map (Fin \<circ> of_int) xs) = Inr sd \<and> nonneg_f64 sd \<and>
           ((\<forall>x \<in> set xs. x = c) \<longrightarrow> sd = Fin 0)"
proof -
  let ?ys = "map (Fin \<circ> of_int) xs :: f64 list"
  have sz: "size_f64 ?ys = Fin (of_nat (length xs))"
    using assms(4) by (simp add: size_f64_def f64_of_int_exact)
  have len: "0 < (of_nat (length xs) :: rat)" using assms(1) by simp
  define m where "m = fl (of_int (sum_list xs) / of_nat (length xs))"
  have sd: "StatisticsGetSd ?ys =
      Inr (fsqrt (fdiv (foldl (variance_step (Fin m)) (Fin 0) ?ys) (size_f64 ?ys)))"
    using assms(1) mean_ints [OF assms] by (simp add: StatisticsGetSd_def m_def)
  have "nonneg_f64 (fsqrt (fdiv (foldl (variance_step (Fin m)) (Fin 0) ?ys) (size_f64 ?ys)))"
    unfolding sz by (intro nonneg_fsqrt nonneg_fdiv variance_nonneg len) (simp add: nonneg_f64_def)
  moreover have "fsqrt (fdiv (foldl (variance_step (Fin m)) (Fin 0) ?ys) (size_f64 ?ys)) = Fin 0"
    if const: "\<forall>x \<in> set xs. x = c"
  proof -
    have xs: "xs = replicate (length xs) c" using const by (simp add: map_replicate_const
          replicate_eqI [symmetric] replicate_length_same)
    have "sum_list xs = int (length xs) * c" by (subst xs) (simp add: sum_list_replicate)
    moreover have "\<bar>c\<bar> \<le> 2 ^ 53"
      using assms const member_le_sum_list [of c xs] by (cases xs) force+
    ultimately have "m = of_int c"
      using len fl_representable [OF representable_int [of c]] by (simp add: m_def)
    moreover have "?ys = replicate (length xs) (Fin (of_int c))" by (subst xs) simp
    ultimately have "foldl (variance_step (Fin m)) (Fin 0) ?ys = Fin 0"
      using variance_const by metis
    then show ?thesis using sz len f64_of_rat_int [of 0] by simp
  qed
  ultimately show ?thesis using sd by blast
qed

theorem sd_nonneg_and_zero_if_constant_witness:
  "StatisticsGetSd (map (Fin \<circ> of_int) [3, 3, 3, 3]) = Inr (Fin 0)"
  using sd_nonneg_and_zero_if_constant [of "[3, 3, 3, 3]" 3] by auto

end
