(* ===== verification/Sorted_Map.thy ===== *)
theory Sorted_Map
  imports Prelude
begin

text \<open>
  \<^verbatim>\<open>std::map\<close> as the sources use it: looked up, assigned through \<^verbatim>\<open>operator[]\<close>, and iterated in
  the order of its keys. The model is an association list with increasing keys; the locale
  \<open>ordered_map\<close> is the interface, and what its clients need to know is proved once inside it.
\<close>

type_synonym ('k, 'v) smap = "('k \<times> 'v) list"

fun map_put :: "'k::linorder \<Rightarrow> 'v \<Rightarrow> ('k, 'v) smap \<Rightarrow> ('k, 'v) smap" where
  "map_put k v [] = [(k, v)]"
| "map_put k v ((k', v') # m) =
     (if k < k' then (k, v) # (k', v') # m
      else if k = k' then (k, v) # m
      else (k', v') # map_put k v m)"

definition map_find :: "'k \<Rightarrow> ('k, 'v) smap \<Rightarrow> 'v option" where
  "map_find k m = map_of m k"

definition map_keys :: "('k, 'v) smap \<Rightarrow> 'k list" where
  "map_keys m = map fst m"

definition smap_ok :: "('k::linorder, 'v) smap \<Rightarrow> bool" where
  "smap_ok m \<longleftrightarrow> sorted_wrt (<) (map fst m)"

locale ordered_map =
  fixes empty :: 'm
    and find :: "'k::linorder \<Rightarrow> 'm \<Rightarrow> 'v option"
    and put :: "'k \<Rightarrow> 'v \<Rightarrow> 'm \<Rightarrow> 'm"
    and keys :: "'m \<Rightarrow> 'k list"
    and ok :: "'m \<Rightarrow> bool"
  assumes ok_empty: "ok empty"
    and ok_put: "ok m \<Longrightarrow> ok (put k v m)"
    and find_empty: "find k empty = None"
    and find_put: "ok m \<Longrightarrow> find j (put k v m) = (if j = k then Some v else find j m)"
    and keys_sorted: "ok m \<Longrightarrow> sorted_wrt (<) (keys m)"
    and keys_find: "ok m \<Longrightarrow> set (keys m) = {k. find k m \<noteq> None}"
begin

definition puts :: "('k \<times> 'v) list \<Rightarrow> 'm \<Rightarrow> 'm" where
  "puts kvs m = foldl (\<lambda>m (k, v). put k v m) m kvs"

lemma puts_simps [simp]: "puts [] m = m" "puts ((k, v) # kvs) m = puts kvs (put k v m)"
  by (simp_all add: puts_def)

lemma ok_puts: "ok m \<Longrightarrow> ok (puts kvs m)"
  by (induction kvs arbitrary: m) (auto simp: ok_put)

text \<open>What was put last under a key is found.\<close>

lemma find_puts:
  "ok m \<Longrightarrow> find j (puts kvs m) = (case map_of (rev kvs) j of None \<Rightarrow> find j m | Some v \<Rightarrow> Some v)"
  by (induction kvs arbitrary: m) (auto simp: ok_put find_put map_add_def split: option.splits)

lemma distinct_keys: "ok m \<Longrightarrow> distinct (keys m)"
  using keys_sorted strict_sorted_iff by blast

text \<open>The keys are determined by what can be found.\<close>

lemma keys_unique: "ok m \<Longrightarrow> ok m' \<Longrightarrow> find k m = None \<longleftrightarrow> find k m' = None \<Longrightarrow> k \<in> set (keys m) \<longleftrightarrow> k \<in> set (keys m')"
  by (cases "find k m"; cases "find k m'") (auto simp: keys_find)

lemma keys_put: "ok m \<Longrightarrow> set (keys (put k v m)) = insert k (set (keys m))"
  by (auto simp: keys_find ok_put find_put split: if_splits)

end

lemma set_map_put: "fst ` set (map_put k v m) = insert k (fst ` set m)"
  by (induction k v m rule: map_put.induct) auto

interpretation smap: ordered_map "[]" map_find map_put map_keys smap_ok
proof (unfold_locales, goal_cases)
  case (2 m k v)
  then show ?case
  proof (induction k v m rule: map_put.induct)
    case (2 k v k' v' m)
    then have "\<forall>y \<in> fst ` set (map_put k v m). y = k \<or> (\<exists>x \<in> set m. y = fst x)"
      by (auto simp: set_map_put)
    with 2 show ?case by (force simp: smap_ok_def image_iff)
  qed (simp add: smap_ok_def)
next
  case (4 m j k v)
  then show ?case
  proof (induction k v m rule: map_put.induct)
    case (2 k v k' v' m)
    have "map_of m x = None" if "x \<le> k'" for x
      using 2(2) that by (force simp: smap_ok_def map_of_eq_None_iff)
    with 2 show ?case by (auto simp: map_find_def smap_ok_def)
  qed (simp add: map_find_def)
next
  case (5 m)
  then show ?case by (simp add: smap_ok_def map_keys_def)
next
  case (6 m)
  then show ?case by (simp add: map_find_def map_keys_def map_of_eq_None_iff)
qed (simp_all add: smap_ok_def map_find_def)

text \<open>Rebuilding a map by assigning its entries in order gives the map back.\<close>

lemma map_put_last:
  "(\<forall>x \<in> set m. fst x < k) \<Longrightarrow> map_put k v m = m @ [(k, v)]"
  by (induction m) auto

lemma smap_rebuild: "smap_ok (m @ kvs) \<Longrightarrow> smap.puts kvs m = m @ kvs"
proof (induction kvs arbitrary: m)
  case (Cons kv kvs)
  have "map_put (fst kv) (snd kv) m = m @ [kv]"
    using Cons.prems by (subst map_put_last) (auto simp: smap_ok_def sorted_wrt_append)
  then show ?case using Cons.IH [of "m @ [kv]"] Cons.prems by (cases kv) simp
qed simp

text \<open>\<^verbatim>\<open>std::set\<close> of names, iterated in order: insertion into a sorted list without repetition.\<close>

definition set_put :: "'k::linorder \<Rightarrow> 'k list \<Rightarrow> 'k list" where
  "set_put k s = insort_insert k s"

lemma set_put_set [simp]: "set (set_put k s) = insert k (set s)"
  by (simp add: set_put_def set_insort_insert)

lemma set_put_sorted: "sorted s \<Longrightarrow> sorted (set_put k s)"
  by (simp add: set_put_def sorted_insort_insert)

lemma set_put_distinct: "distinct s \<Longrightarrow> distinct (set_put k s)"
  by (simp add: set_put_def distinct_insort_insert)

end
