(* ===== verification/Results.thy ===== *)
theory Results
  imports Statistics Sorted_Map
begin

text \<open>
  \<^verbatim>\<open>src/result.cpp\<close> and \<^verbatim>\<open>include/ditto/result.h\<close>: the measurements of a tree of instructions, their
  statistics, and the three ways to print them. A function that prints returns the text.

  \<^verbatim>\<open>std::nth_element\<close> is the parameter \<open>nth_el\<close>, and the JSON printer of protobuf the parameter
  \<open>to_json\<close>. The units that \<^verbatim>\<open>PrintHistograms\<close> stores in the object, and the static \<^verbatim>\<open>bin_size\<close>,
  are set before every use; they are passed as arguments.
\<close>

section \<open>The data\<close>

record stats =
  st_min :: f64
  st_max :: f64
  st_mean :: f64
  st_median :: f64
  st_sd :: f64

definition no_stats :: stats where
  "no_stats = \<lparr>st_min = Fin 0, st_max = Fin 0, st_mean = Fin 0, st_median = Fin 0, st_sd = Fin 0\<rparr>"

datatype result =
  Result (re_name: string) (re_samples: "(string, f64 list) smap") (re_stats: "(string, stats) smap")
    (re_subs: "result list") (re_repeat: int)

definition Result_ctor :: "string \<Rightarrow> int \<Rightarrow> result" where
  "Result_ctor name repeat = Result name [] [] [] repeat"

text \<open>\<^verbatim>\<open>AnalyseMeasurement\<close>; an empty vector of samples ends the process.\<close>

definition AnalyseMeasurement :: "(nat \<Rightarrow> f64 list \<Rightarrow> f64 list) \<Rightarrow> f64 list \<Rightarrow> stats res" where
  "AnalyseMeasurement nth_el samples =
     bindR (StatisticsGetMin samples) (\<lambda>lo.
     bindR (StatisticsGetMax samples) (\<lambda>hi.
     bindR (StatisticsGetMean samples) (\<lambda>mean.
     bindR (StatisticsGetMedian nth_el samples) (\<lambda>median.
     bindR (StatisticsGetSd samples) (\<lambda>sd.
     Inr \<lparr>st_min = lo, st_max = hi, st_mean = mean, st_median = median, st_sd = sd\<rparr>)))))"

definition AddMeasurement ::
  "(nat \<Rightarrow> f64 list \<Rightarrow> f64 list) \<Rightarrow> string \<Rightarrow> f64 list \<Rightarrow> result \<Rightarrow> result res" where
  "AddMeasurement nth_el name samples r =
     bindR (AnalyseMeasurement nth_el samples) (\<lambda>st.
     Inr (Result (re_name r) (map_put name samples (re_samples r)) (map_put name st (re_stats r))
            (re_subs r) (re_repeat r)))"

definition AddSubResult :: "result \<Rightarrow> result \<Rightarrow> result" where
  "AddSubResult sub r =
     Result (re_name r) (re_samples r) (re_stats r) (re_subs r @ [sub]) (re_repeat r)"

text \<open>\<^verbatim>\<open>samples_.find(name)->second\<close>: undefined when the name is missing.\<close>

definition GetSamples :: "string \<Rightarrow> result \<Rightarrow> f64 list res" where
  "GetSamples name r =
     (case map_find name (re_samples r) of None \<Rightarrow> Inl (Undefined OutOfBounds) | Some s \<Rightarrow> Inr s)"

definition GetRepeat :: "result \<Rightarrow> int" where
  "GetRepeat r = re_repeat r"

text \<open>\<^verbatim>\<open>statistics_[name]\<close>: a missing entry is created with zeroes.\<close>

definition statistics_of :: "string \<Rightarrow> result \<Rightarrow> stats" where
  "statistics_of name r = (case map_find name (re_stats r) of None \<Rightarrow> no_stats | Some st \<Rightarrow> st)"

definition SetStatistics :: "string \<Rightarrow> stats \<Rightarrow> result \<Rightarrow> result" where
  "SetStatistics name st r =
     Result (re_name r) (re_samples r) (map_put name st (re_stats r)) (re_subs r) (re_repeat r)"

definition ComputeNextInstructionPath :: "string \<Rightarrow> string \<Rightarrow> string" where
  "ComputeNextInstructionPath instruction_path name =
     instruction_path @ (if instruction_path \<noteq> [] then ''/'' else []) @ name"

fun GetMeasurementsNames :: "result \<Rightarrow> string list" where
  "GetMeasurementsNames (Result name samples st subs repeat) =
     foldl (\<lambda>names sub_names. foldl (\<lambda>ns n. set_put n ns) names sub_names)
       (foldl (\<lambda>ns n. set_put n ns) [] (map_keys samples))
       (map GetMeasurementsNames subs)"

section \<open>Printing numbers\<close>

text \<open>
  \<^verbatim>\<open>operator<<\<close> of a \<^verbatim>\<open>double\<close> with the default precision: six significant digits, in scientific
  notation when the exponent is below -4 or at least 6, without trailing zeros. \<open>decimal_exponent\<close>
  is the decimal exponent of a positive number in the range of the type.
\<close>

definition decimal_exponent :: "rat \<Rightarrow> int" where
  "decimal_exponent r =
     (case find (\<lambda>e. 10 powi e \<le> r \<and> r < 10 powi (e + 1)) [-330..310] of None \<Rightarrow> 0 | Some e \<Rightarrow> e)"

definition six_digits :: "rat \<Rightarrow> int \<times> nat" where
  "six_digits r =
     (let e = decimal_exponent r; m = nat (rnd_even (r / 10 powi (e - 5)))
      in if m = 1000000 then (e + 1, 100000) else (e, m))"

definition strip_zeros :: "string \<Rightarrow> string" where
  "strip_zeros s = rev (dropWhile (\<lambda>c. c = CHR ''0'') (rev s))"

definition with_fraction :: "string \<Rightarrow> string \<Rightarrow> string" where
  "with_fraction whole part =
     (let f = strip_zeros part in if f = [] then whole else whole @ ''.'' @ f)"

definition show_exponent :: "int \<Rightarrow> string" where
  "show_exponent e =
     ''e'' @ (if e < 0 then ''-'' else ''+'') @ setw_right (CHR ''0'') 2 (show_nat (nat \<bar>e\<bar>))"

definition show_positive :: "rat \<Rightarrow> string" where
  "show_positive r =
     (let (e, m) = six_digits r; ds = show_nat m
      in if e < -4 \<or> 6 \<le> e then with_fraction (take 1 ds) (drop 1 ds) @ show_exponent e
         else if e < 0 then with_fraction ''0'' (replicate (nat (- e - 1)) (CHR ''0'') @ ds)
         else with_fraction (take (nat e + 1) ds) (drop (nat e + 1) ds))"

fun show_double :: "f64 \<Rightarrow> string" where
  "show_double (Fin r) =
     (if r = 0 then ''0'' else if r < 0 then ''-'' @ show_positive (- r) else show_positive r)"
| "show_double PInf = ''inf''"
| "show_double NInf = ''-inf''"
| "show_double NaN = ''nan''"

section \<open>The table\<close>

definition kTableDivider :: string where
  "kTableDivider = '' | ''"

definition newline :: string where
  "newline = [CHR 0x0A]"

definition esc :: "string \<Rightarrow> string" where
  "esc s = CHR 0x1B # s"

definition PrintTableBorder :: string where
  "PrintTableBorder = setw_right (CHR ''-'') 164 [] @ newline"

definition PrintStatisticsTableHeader :: string where
  "PrintStatisticsTableHeader =
     esc ''[1m'' @ newline @ PrintTableBorder @ ''| '' @
     setw_left (CHR '' '') 70 ''Instruction name'' @ kTableDivider @
     setw_right (CHR '' '') 15 '' Min'' @ kTableDivider @
     setw_right (CHR '' '') 15 '' Max'' @ kTableDivider @
     setw_right (CHR '' '') 15 '' Mean'' @ kTableDivider @
     setw_right (CHR '' '') 15 '' Median'' @ kTableDivider @
     setw_right (CHR '' '') 15 '' SD'' @ kTableDivider @
     newline @ PrintTableBorder @ esc ''[0m''"

text \<open>The parameter is an \<^verbatim>\<open>int64_t\<close>, so the \<^verbatim>\<open>double\<close> is converted, which is undefined out of range.\<close>

definition PrintMeasurementInTable :: "f64 \<Rightarrow> string \<Rightarrow> string res" where
  "PrintMeasurementInTable value measurement_name =
     bindR (f64_to_i64 value) (\<lambda>n. Inr
       (if measurement_name = ''duration'' then setw_right (CHR '' '') 13 (show_int n) @ ''ns''
        else if measurement_name = ''bandwidth'' then setw_right (CHR '' '') 11 (show_int n) @ ''KB/s''
        else []))"

definition truncate_path :: "string \<Rightarrow> string" where
  "truncate_path path =
     (if length (filter (\<lambda>c. c = CHR ''/'') path) > 2 then ''..'' @ dropWhile (\<lambda>c. c \<noteq> CHR ''/'') path
      else path)"

definition table_row :: "string \<Rightarrow> stats \<Rightarrow> string \<Rightarrow> string res" where
  "table_row path st measurement_name =
     bindR (PrintMeasurementInTable (st_min st) measurement_name) (\<lambda>c1.
     bindR (PrintMeasurementInTable (st_max st) measurement_name) (\<lambda>c2.
     bindR (PrintMeasurementInTable (st_mean st) measurement_name) (\<lambda>c3.
     bindR (PrintMeasurementInTable (st_median st) measurement_name) (\<lambda>c4.
     Inr (''| '' @ setw_left (CHR '' '') 70 path @ kTableDivider @ c1 @ kTableDivider @ c2 @
          kTableDivider @ c3 @ kTableDivider @ c4 @ kTableDivider @
          setw_right (CHR '' '') 15 (show_double (st_sd st)) @ kTableDivider @ newline @
          PrintTableBorder)))))"

fun PrintStatisticsTableContent :: "string \<Rightarrow> string \<Rightarrow> result \<Rightarrow> string res" where
  "PrintStatisticsTableContent instruction_path measurement_name (Result name samples st subs repeat) =
     (let path = truncate_path (ComputeNextInstructionPath instruction_path name) in
      bindR (if map_find measurement_name samples = None then Inr []
             else table_row path (statistics_of measurement_name (Result name samples st subs repeat))
                    measurement_name) (\<lambda>row.
      bindR (mapR (PrintStatisticsTableContent path measurement_name) subs) (\<lambda>rows.
      Inr (row @ concat rows))))"

definition PrintStatisticsTables :: "result \<Rightarrow> string res" where
  "PrintStatisticsTables r =
     bindR (mapR (\<lambda>s.
        bindR (PrintStatisticsTableContent [] s r) (\<lambda>content.
        Inr (s @ '' statistics:'' @ PrintStatisticsTableHeader @ content @ newline)))
        (GetMeasurementsNames r)) (\<lambda>tables. Inr (concat tables))"

section \<open>Histograms\<close>

definition kMaxHistogramHeight :: nat where
  "kMaxHistogramHeight = 20"

definition kMaxHistogramWidth :: nat where
  "kMaxHistogramWidth = 50"

definition kSampleDisplayWidth :: nat where
  "kSampleDisplayWidth = 16"

definition GetTimeUnit :: "int \<Rightarrow> int \<times> string" where
  "GetTimeUnit min_value =
     (if f64_of_int min_value \<le> Fin 10000000 then (1, ''ns'')
      else if f64_of_int min_value \<le> Fin 10000000000 then (1000, ''us'')
      else if f64_of_int min_value \<le> Fin 10000000000000 then (1000000, ''ms'')
      else (1000000000, ''s''))"

definition GetBandwidthUnit :: "int \<Rightarrow> int \<times> string" where
  "GetBandwidthUnit min_value =
     (if min_value \<le> 32768 then (1, ''KiB/s'')
      else if min_value \<le> 33554432 then (1024, ''MiB/s'')
      else (1048576, ''GiB/s''))"

text \<open>The unit of a measurement, from its minimum as an \<^verbatim>\<open>int64_t\<close>; other names are not scaled.\<close>

definition unit_of :: "string \<Rightarrow> int \<Rightarrow> int \<times> string" where
  "unit_of name min_value =
     (if name = ''duration'' then GetTimeUnit min_value
      else if name = ''bandwidth'' then GetBandwidthUnit min_value
      else (1, []))"

definition PrintHistogramHeader :: "string \<Rightarrow> string \<Rightarrow> string" where
  "PrintHistogramHeader measurement_name unit_name =
     (if measurement_name = ''duration''
      then setw_right (CHR '' '') (kSampleDisplayWidth - 3) ''Time('' @ unit_name @ '') |'' @
           '' Normalized number of time samples'' @ newline
      else if measurement_name = ''bandwidth''
      then setw_right (CHR '' '') (kSampleDisplayWidth - 6) ''Bandwidth('' @ unit_name @ '') |'' @
           '' Normalized number of bandwidth samples'' @ newline
      else []) @
     setw_right (CHR ''-'') kMaxHistogramWidth [] @ newline"

text \<open>One bar: the first value of the bin is computed as a \<^verbatim>\<open>size_t\<close>.\<close>

definition hist_width :: "int \<Rightarrow> int \<Rightarrow> int res" where
  "hist_width freq max_frequency =
     f64_to_i32 (fceil (fdiv (fmul (f64_of_int freq) (f64_of_int (int kMaxHistogramWidth)))
                          (f64_of_int max_frequency)))"

definition histogram_row :: "int \<Rightarrow> int \<Rightarrow> int \<Rightarrow> nat \<Rightarrow> int \<Rightarrow> string res" where
  "histogram_row min_value bin_size max_frequency i freq =
     bindR (hist_width freq max_frequency) (\<lambda>w.
     Inr (setw_right (CHR '' '') kSampleDisplayWidth
            (show_nat (unat (to_u64 min_value + to_u64 bin_size * word_of_nat i))) @ kTableDivider @
          setw_right (CHR ''#'') (nat w) [] @ '' { '' @ show_int freq @ '' }'' @ newline))"

definition MakeHistogramFromVector :: "int \<Rightarrow> int list \<Rightarrow> int \<Rightarrow> string res" where
  "MakeHistogramFromVector bin_size freq_vector min_value =
     (let max_frequency = fold max (tl freq_vector) (hd freq_vector) in
      bindR (mapR (\<lambda>(i, f). histogram_row min_value bin_size max_frequency i f)
               (enumerate 0 freq_vector)) (\<lambda>rows.
      Inr (concat rows @ newline @ ''Total samples: { '' @ show_int (sum_list freq_vector) @ '' }'' @
           newline)))"

text \<open>
  The bin of a sample; \<^verbatim>\<open>freq_vector[bin]++\<close> outside the 20 entries is undefined. Counts stay below
  the range of \<^verbatim>\<open>int\<close>: they are bounded by the number of samples held in memory.
\<close>

definition count_sample :: "int \<Rightarrow> int \<Rightarrow> int \<Rightarrow> int list \<Rightarrow> f64 \<Rightarrow> int list res" where
  "count_sample factor min_value bin_size freq sample =
     bindR (f64_to_i64 sample) (\<lambda>s.
     bindR (div64 s factor) (\<lambda>s.
     bindR (chk64 (s - min_value)) (\<lambda>d.
     bindR (div64 d bin_size) (\<lambda>bin.
     if 0 \<le> bin \<and> bin < int (length freq)
     then Inr (freq[nat bin := freq ! nat bin + 1])
     else Inl (Undefined OutOfBounds)))))"

definition ComputeNormalizedFrequencyVector ::
  "int \<Rightarrow> int \<Rightarrow> f64 list \<Rightarrow> f64 \<Rightarrow> int list res" where
  "ComputeNormalizedFrequencyVector factor bin_size samples st_minimum =
     bindR (f64_to_i64 st_minimum) (\<lambda>m.
     bindR (div64 m factor) (\<lambda>min_value.
     foldR (count_sample factor min_value bin_size) (replicate kMaxHistogramHeight 0) samples))"

definition bin_size_of :: "int \<Rightarrow> int \<Rightarrow> int res" where
  "bin_size_of min_value max_value =
     bindR (chk64 (max_value - min_value)) (\<lambda>d.
     bindR (div64 d (int kMaxHistogramHeight)) (\<lambda>q.
     Inr (narrow32 (q + 1))))"

definition histogram :: "string \<Rightarrow> f64 list \<Rightarrow> stats \<Rightarrow> string res" where
  "histogram name samples st =
     bindR (f64_to_i64 (st_min st)) (\<lambda>lo.
     bindR (f64_to_i64 (st_max st)) (\<lambda>hi.
     case unit_of name lo of (factor, unit_name) \<Rightarrow>
     bindR (div64 lo factor) (\<lambda>min_value.
     bindR (div64 hi factor) (\<lambda>max_value.
     bindR (bin_size_of min_value max_value) (\<lambda>bin_size.
     bindR (ComputeNormalizedFrequencyVector factor bin_size samples (st_min st)) (\<lambda>freq.
     bindR (MakeHistogramFromVector bin_size freq (narrow32 min_value)) (\<lambda>bars.
     Inr (PrintHistogramHeader name unit_name @ bars @ newline @ newline))))))))"

text \<open>The sub-results are printed once for every measurement of the parent.\<close>

fun PrintHistograms :: "string \<Rightarrow> result \<Rightarrow> string res" where
  "PrintHistograms instruction_path (Result name samples st subs repeat) =
     (let path = ComputeNextInstructionPath instruction_path name in
      bindR (mapR (\<lambda>(n, s).
         bindR (histogram n s (statistics_of n (Result name samples st subs repeat))) (\<lambda>h.
         bindR (mapR (PrintHistograms path) subs) (\<lambda>hs.
         Inr (h @ concat hs)))) samples) (\<lambda>parts.
      Inr (esc ''[1m'' @ ''Instruction path: '' @ path @ esc ''[0m'' @ newline @ newline @ concat parts)))"

section \<open>CSV\<close>

definition PrintMeasurementStatisticInCsv :: "stats \<Rightarrow> string" where
  "PrintMeasurementStatisticInCsv st =
     '','' @ show_double (st_min st) @ '','' @ show_double (st_max st) @ '','' @ show_double (st_mean st) @
     '','' @ show_double (st_median st) @ '','' @ show_double (st_sd st)"

definition PrintEmptyMeasurementInCsv :: string where
  "PrintEmptyMeasurementInCsv = setw_right (CHR '','') 5 []"

fun PrintStatisticInCsv :: "string \<Rightarrow> string list \<Rightarrow> result \<Rightarrow> string" where
  "PrintStatisticInCsv instruction_path names (Result name samples st subs repeat) =
     (let path = ComputeNextInstructionPath instruction_path name in
      path @
      concat (map (\<lambda>n. case map_find n st of
                         Some s \<Rightarrow> PrintMeasurementStatisticInCsv s
                       | None \<Rightarrow> PrintEmptyMeasurementInCsv) names) @
      newline @ concat (map (PrintStatisticInCsv path names) subs))"

definition PrintCsvHeader :: "string list \<Rightarrow> string" where
  "PrintCsvHeader names =
     ''Instruction path'' @
     concat (map (\<lambda>n. '','' @ n @ '' min,'' @ n @ '' max,'' @ n @ '' mean,'' @ n @ '' median,'' @ n @ '' SD'')
       names) @ newline"

definition MakeStatisticsCsv :: "result \<Rightarrow> string" where
  "MakeStatisticsCsv r =
     (let names = GetMeasurementsNames r in PrintCsvHeader names @ PrintStatisticInCsv [] names r)"

section \<open>Protocol buffers\<close>

record pb_metrics =
  pm_name :: string
  pm_stats :: stats

datatype pb_result = PbResult (pb_name: string) (pb_metrics_list: "pb_metrics list") (pb_subs: "pb_result list")

definition StoreStatisticsInPb :: "string \<Rightarrow> stats \<Rightarrow> pb_metrics" where
  "StoreStatisticsInPb name st = \<lparr>pm_name = name, pm_stats = st\<rparr>"

fun ToPb :: "result \<Rightarrow> pb_result" where
  "ToPb (Result name samples st subs repeat) =
     PbResult name (map (\<lambda>(n, s). StoreStatisticsInPb n s) st) (map ToPb subs)"

fun FromPb :: "pb_result \<Rightarrow> result" where
  "FromPb (PbResult name metrics subs) =
     foldl (\<lambda>r s. AddSubResult s r)
       (foldl (\<lambda>r m. SetStatistics (pm_name m) (pm_stats m) r) (Result_ctor name 1) metrics)
       (map FromPb subs)"

definition PrintPb :: "(pb_result \<Rightarrow> string option) \<Rightarrow> pb_result \<Rightarrow> string" where
  "PrintPb to_json pb = (case to_json pb of None \<Rightarrow> [] | Some json \<Rightarrow> json @ newline)"

datatype results_output = kNull | kReport | kCsv | kPb

definition Result_Print ::
  "(pb_result \<Rightarrow> string option) \<Rightarrow> results_output \<Rightarrow> string \<Rightarrow> result \<Rightarrow> string res" where
  "Result_Print to_json results_output instruction_path r =
     (case results_output of
        kReport \<Rightarrow>
          bindR (PrintHistograms instruction_path r) (\<lambda>h.
          bindR (PrintStatisticsTables r) (\<lambda>t. Inr (h @ t)))
      | kCsv \<Rightarrow> Inr (MakeStatisticsCsv r)
      | kPb \<Rightarrow> Inr (PrintPb to_json (ToPb r))
      | kNull \<Rightarrow> Inr [])"

end
