(* ===== verification/Results_Properties.thy ===== *)
theory Results_Properties
  imports Results
begin

text \<open>
  What is proved about \<^verbatim>\<open>src/result.cpp\<close>: that histograms count every sample in one of their 20
  bins as long as the bin size fits an \<^verbatim>\<open>int\<close>, and what happens when it does not; that bars fit
  their width; that all lines of a CSV report have the same number of fields; that results
  survive the trip through protocol buffers, and what is lost on it.
\<close>

section \<open>Histograms\<close>

lemma div64_nonneg: "0 \<le> a \<Longrightarrow> 0 < b \<Longrightarrow> a < 2 ^ 63 \<Longrightarrow> div64 a b = Inr (a div b)"
  by (intro div64_pos) (simp_all add: in_i64_def)

text \<open>The bin of a value between the minimum and the maximum.\<close>

lemma bin_in_range:
  fixes lo hi s :: int
  assumes "lo \<le> s" and "s \<le> hi"
  shows "0 \<le> (s - lo) div ((hi - lo) div 20 + 1) \<and> (s - lo) div ((hi - lo) div 20 + 1) < 20"
proof -
  let ?b = "(hi - lo) div 20 + 1"
  have b: "0 < ?b" using assms by (simp add: pos_imp_zdiv_nonneg_iff add_nonneg_pos)
  have "hi - lo < 20 * ?b" by presburger
  then have "s - lo < 20 * ?b" using assms by linarith
  moreover have "(s - lo) div ?b * ?b \<le> s - lo" using b by (simp add: minus_mod_eq_div_mult [symmetric])
  ultimately have "(s - lo) div ?b * ?b < 20 * ?b" by linarith
  then have "(s - lo) div ?b < 20" using mult_right_less_imp_less [of "(s - lo) div ?b" ?b 20] b by linarith
  moreover have "0 \<le> (s - lo) div ?b" using assms b by (simp add: pos_imp_zdiv_nonneg_iff)
  ultimately show ?thesis by blast
qed

lemma count_sample_ok:
  assumes "f64_to_i64 x = Inr s" and "0 < factor" and "0 \<le> lo" and "lo \<le> s div factor" and "s div factor \<le> hi"
    and "hi < 2 ^ 63" and "0 \<le> s" and "s < 2 ^ 63" and "length freq = 20"
  shows "\<exists>i < 20. count_sample factor lo ((hi - lo) div 20 + 1) freq x = Inr (freq[i := freq ! i + 1])"
proof -
  let ?b = "(hi - lo) div 20 + 1" and ?d = "s div factor - lo"
  have b: "0 < ?b" using assms(4,5) by (simp add: pos_imp_zdiv_nonneg_iff add_nonneg_pos)
  have d: "0 \<le> ?d" "?d < 2 ^ 63" using assms(3,4,5,6) by linarith+
  note bin = bin_in_range [OF assms(4,5)]
  have "count_sample factor lo ?b freq x = Inr (freq[nat (?d div ?b) := freq ! nat (?d div ?b) + 1])"
    using assms d b bin
    by (simp add: count_sample_def div64_nonneg chk64_in in_i64_def)
  then show ?thesis using bin by (intro exI [of _ "nat (?d div ?b)"]) auto
qed

lemma sum_list_bump: "i < length xs \<Longrightarrow> sum_list (xs[i := xs ! i + (1 :: int)]) = sum_list xs + 1"
  by (induction xs arbitrary: i) (auto split: nat.splits)

lemma count_samples_ok:
  assumes "0 < factor" and "0 \<le> lo" and "hi < 2 ^ 63"
    and "\<forall>x \<in> set samples. \<exists>s. f64_to_i64 x = Inr s \<and> 0 \<le> s \<and> s < 2 ^ 63 \<and> lo \<le> s div factor \<and> s div factor \<le> hi"
    and "length freq = 20"
  shows "\<exists>fv. foldR (count_sample factor lo ((hi - lo) div 20 + 1)) freq samples = Inr fv \<and>
           length fv = 20 \<and> sum_list fv = sum_list freq + int (length samples) \<and>
           ((\<forall>f \<in> set freq. 0 \<le> f) \<longrightarrow> (\<forall>f \<in> set fv. 0 \<le> f))"
  using assms(4,5)
proof (induction samples arbitrary: freq)
  case (Cons x xs)
  then obtain s where s: "f64_to_i64 x = Inr s" "0 \<le> s" "s < 2 ^ 63" "lo \<le> s div factor" "s div factor \<le> hi"
    by auto
  obtain i where i: "i < 20" "count_sample factor lo ((hi - lo) div 20 + 1) freq x = Inr (freq[i := freq ! i + 1])"
    using count_sample_ok [OF s(1) assms(1,2) s(4,5) assms(3) s(2,3) Cons.prems(2)] by blast
  have "\<forall>f \<in> set freq. 0 \<le> f \<Longrightarrow> \<forall>f \<in> set (freq[i := freq ! i + 1]). 0 \<le> f"
    using i(1) Cons.prems(2) by (metis add_nonneg_nonneg nth_mem set_update_subset_insert subsetD insert_iff zero_le_one)
  moreover have "sum_list (freq[i := freq ! i + 1]) = sum_list freq + 1"
    using i(1) Cons.prems(2) by (simp add: sum_list_bump)
  moreover obtain fv where "foldR (count_sample factor lo ((hi - lo) div 20 + 1)) (freq[i := freq ! i + 1]) xs = Inr fv"
      "length fv = 20" "sum_list fv = sum_list (freq[i := freq ! i + 1]) + int (length xs)"
      "(\<forall>f \<in> set (freq[i := freq ! i + 1]). 0 \<le> f) \<longrightarrow> (\<forall>f \<in> set fv. 0 \<le> f)"
    using Cons.IH [of "freq[i := freq ! i + 1]"] Cons.prems by auto
  ultimately show ?case using i(2) by auto
qed simp

text \<open>
  C36: as long as the size of a bin fits an \<^verbatim>\<open>int\<close>, the frequency vector has 20 entries and counts
  every sample exactly once.
\<close>

theorem histogram_counts_all:
  assumes "f64_to_i64 st_minimum = Inr lo" and "0 < factor" and "0 \<le> lo" and "lo \<le> hi" and "hi < 2 ^ 63"
    and "\<forall>x \<in> set samples. \<exists>s. f64_to_i64 x = Inr s \<and> lo \<le> s \<and> s \<le> hi"
    and "(hi div factor - lo div factor) div 20 + 1 < 2 ^ 31"
  shows "\<exists>bs fv. bin_size_of (lo div factor) (hi div factor) = Inr bs \<and>
           ComputeNormalizedFrequencyVector factor bs samples st_minimum = Inr fv \<and>
           length fv = 20 \<and> sum_list fv = int (length samples) \<and> (\<forall>f \<in> set fv. 0 \<le> f)"
proof -
  let ?lo = "lo div factor" and ?hi = "hi div factor"
  let ?bs = "(?hi - ?lo) div 20 + 1"
  have o: "0 \<le> ?lo" "?lo \<le> ?hi" using assms(2,3,4) by (simp_all add: pos_imp_zdiv_nonneg_iff zdiv_mono1)
  have "?hi \<le> hi" using assms(2,3,4) zdiv_mono2 [of hi 1 factor] by simp
  then have hi: "?hi < 2 ^ 63" using assms(5) by linarith
  have d: "0 \<le> ?hi - ?lo" "?hi - ?lo < 2 ^ 63" using o hi by linarith+
  have bs0: "0 \<le> ?bs" using d by (simp add: pos_imp_zdiv_nonneg_iff)
  have bs: "bin_size_of ?lo ?hi = Inr ?bs"
    using d bs0 assms(7)
    by (simp add: bin_size_of_def chk64_in in_i64_def div64_nonneg kMaxHistogramHeight_def narrow32_in
        in_i32_def)
  have "\<forall>x \<in> set samples. \<exists>s. f64_to_i64 x = Inr s \<and> 0 \<le> s \<and> s < 2 ^ 63 \<and> ?lo \<le> s div factor \<and> s div factor \<le> ?hi"
    using assms(2,3,5,6) by (meson order_le_less_trans order_trans zdiv_mono1)
  from count_samples_ok [OF assms(2) o(1) hi this, of "replicate 20 0"]
  obtain fv where "foldR (count_sample factor ?lo ?bs) (replicate 20 0) samples = Inr fv"
      "length fv = 20" "sum_list fv = int (length samples)" "\<forall>f \<in> set fv. 0 \<le> f"
    by (auto simp: sum_list_replicate)
  then have "ComputeNormalizedFrequencyVector factor ?bs samples st_minimum = Inr fv"
    using assms(1-5)
    by (simp add: ComputeNormalizedFrequencyVector_def div64_nonneg kMaxHistogramHeight_def)
  then show ?thesis
    using bs \<open>length fv = 20\<close> \<open>sum_list fv = int (length samples)\<close> \<open>\<forall>f \<in> set fv. 0 \<le> f\<close> by blast
qed

theorem histogram_counts_all_witness:
  "\<exists>bs fv. bin_size_of 100 (500 div 1) = Inr bs \<and>
     ComputeNormalizedFrequencyVector 1 bs [Fin 100, Fin 300, Fin 500] (Fin 100) = Inr fv \<and>
     length fv = 20 \<and> sum_list fv = 3"
proof -
  have "f64_to_i64 (Fin 100) = Inr 100" "f64_to_i64 (Fin 300) = Inr 300" "f64_to_i64 (Fin 500) = Inr 500"
    using f64_to_i64_of_int [of 100] f64_to_i64_of_int [of 300] f64_to_i64_of_int [of 500] by simp_all
  then show ?thesis
    using histogram_counts_all [of "Fin 100" 100 1 500 "[Fin 100, Fin 300, Fin 500]"] by auto
qed

text \<open>
  Without that bound the code writes outside the vector: a duration of 5 ms next to one of 43 s
  is measured in nanoseconds, the bin size overflows to a negative number, and the second sample
  falls into bin -20.
\<close>

theorem histogram_out_of_bounds:
  "unit_of ''duration'' 5000000 = (1, ''ns'') \<and>
   bin_size_of 5000000 43005000000 = Inr (- 2144967295) \<and>
   ComputeNormalizedFrequencyVector 1 (- 2144967295) [Fin 5000000, Fin 43005000000] (Fin 5000000)
     = Inl (Undefined OutOfBounds)"
proof (intro conjI)
  have "f64_of_int 5000000 = Fin 5000000" using int_in_f64 [of 5000000] by simp
  then show "unit_of ''duration'' 5000000 = (1, ''ns'')" by (simp add: unit_of_def GetTimeUnit_def)
  show "bin_size_of 5000000 43005000000 = Inr (- 2144967295)"
    by (simp add: bin_size_of_def chk64_in in_i64_def div64_nonneg kMaxHistogramHeight_def narrow32_def)
  have v: "f64_to_i64 (Fin 5000000) = Inr 5000000" "f64_to_i64 (Fin 43005000000) = Inr 43005000000"
    using f64_to_i64_of_int [of 5000000] f64_to_i64_of_int [of 43005000000] by simp_all
  have "div64 43000000000 (- 2144967295) = Inr (- 20)" "div64 0 (- 2144967295) = Inr 0"
    by (simp_all add: div64_def signed_divide_int_def chk64_in in_i64_def)
  then show "ComputeNormalizedFrequencyVector 1 (- 2144967295) [Fin 5000000, Fin 43005000000] (Fin 5000000)
     = Inl (Undefined OutOfBounds)"
    by (simp add: ComputeNormalizedFrequencyVector_def v div64_nonneg count_sample_def chk64_in in_i64_def
        kMaxHistogramHeight_def)
qed

text \<open>
  A bar is between 0 and 50 characters wide; the longest is exactly 50, and a bin that is not
  empty has at least one.
\<close>

theorem hist_width_bounds:
  assumes "0 \<le> f" and "f \<le> m" and "0 < m" and "m < 2 ^ 31"
  shows "\<exists>w. hist_width f m = Inr w \<and> 0 \<le> w \<and> w \<le> 50 \<and> (f = m \<longrightarrow> w = 50) \<and> (0 < f \<longrightarrow> 1 \<le> w)"
proof -
  let ?q = "of_int (f * 50) / of_int m :: rat"
  have ints: "f64_of_int f = Fin (of_int f)" "f64_of_int m = Fin (of_int m)" "f64_of_int (int kMaxHistogramWidth) = Fin (of_int 50)"
    using assms int_in_f64 [of f] int_in_f64 [of m] int_in_f64 [of 50] by (simp_all add: kMaxHistogramWidth_def)
  have prod: "fmul (Fin (of_int f)) (Fin (of_int 50)) = Fin (of_int (f * 50))"
    using assms by (intro fmul_int) simp
  have q: "0 \<le> ?q" "?q \<le> 50"
    using assms by (simp_all add: divide_le_eq flip: of_int_mult)
  have rep50: "representable 50" using representable_int [of 50] by simp
  have fl: "0 \<le> fl ?q" "fl ?q \<le> 50"
    using q fl_nonneg fl_le [OF rep50] by blast+
  have "\<bar>?q\<bar> \<le> 2 ^ 1000" using q power_1000_ge [of 6] by simp
  then have quot: "fdiv (Fin (of_int (f * 50))) (Fin (of_int m)) = Fin (fl ?q)"
    using assms(3) f64_of_rat_bounded by simp
  let ?w = "\<lceil>fl ?q\<rceil>"
  have w: "0 \<le> ?w" "?w \<le> 50" using fl by (simp_all add: ceiling_le_iff)
  have "hist_width f m = f64_to_i32 (Fin (of_int ?w))"
    unfolding hist_width_def ints prod quot fceil.simps by (rule refl)
  then have "hist_width f m = Inr ?w"
    using w by (simp add: f64_to_i32_def in_i32_def)
  moreover have "?w = 50" if "f = m"
  proof -
    have "?q = 50" using that assms(3) by simp
    then show ?thesis using fl_representable [OF rep50] by simp
  qed
  moreover have "1 \<le> ?w" if "0 < f"
  proof -
    have "representable (2 powi (- 31))"
      unfolding representable_def by (rule exI [of _ 1], rule exI [of _ "- 31"]) simp
    moreover have "2 powi (- 31) \<le> ?q"
    proof -
      have "of_int m \<le> (2 :: rat) ^ 31" using assms(4) by (metis of_int_le_iff of_int_numeral of_int_power order_less_imp_le)
      then have "of_int m * 2 powi (- 31) \<le> (1 :: rat)" by (simp add: power_int_minus field_simps)
      moreover have "(1 :: rat) \<le> of_int (f * 50)" using that by simp
      ultimately show ?thesis using assms(3) by (simp add: pos_le_divide_eq mult.commute del: of_int_mult)
    qed
    ultimately have "2 powi (- 31) \<le> fl ?q" by (rule fl_ge)
    moreover have "(0 :: rat) < 2 powi (- 31)" by simp
    ultimately have "0 < fl ?q" by (rule order_less_le_trans [rotated])
    then show ?thesis by simp
  qed
  ultimately show ?thesis using w by blast
qed

theorem hist_width_bounds_witness: "\<exists>w. hist_width 3 7 = Inr w \<and> 1 \<le> w \<and> w \<le> 50"
  using hist_width_bounds [of 3 7] by auto

section \<open>Paths in the table\<close>

text \<open>
  The shortening of long paths in the table replaces the first component by dots but never
  removes a level: the number of slashes stays the same, however deep the instruction is, where
  the comment promises that only the last two are printed.
\<close>

theorem truncate_path_keeps_levels:
  "length (filter (\<lambda>c. c = CHR ''/'') (truncate_path path)) = length (filter (\<lambda>c. c = CHR ''/'') path) \<and>
   (length (filter (\<lambda>c. c = CHR ''/'') path) > 2 \<longrightarrow> take 3 (truncate_path path) = ''../'')"
proof -
  have "filter (\<lambda>c. c = CHR ''/'') (dropWhile (\<lambda>c. c \<noteq> CHR ''/'') p) = filter (\<lambda>c. c = CHR ''/'') p" for p
    by (induction p) auto
  moreover have "take 1 (dropWhile (\<lambda>c. c \<noteq> CHR ''/'') p) = ''/''" if "filter (\<lambda>c. c = CHR ''/'') p \<noteq> []" for p
    using that by (induction p) auto
  moreover have "filter (\<lambda>c. c = CHR ''/'') path \<noteq> []" if "length (filter (\<lambda>c. c = CHR ''/'') path) > 2"
    using that by auto
  ultimately show ?thesis
    by (auto simp: truncate_path_def numeral_3_eq_3)
qed

theorem truncate_path_keeps_levels_witness:
  "take 3 (truncate_path ''a/b/c/d'') = ''../'' \<and> truncate_path ''../b/c/d/e'' = ''../b/c/d/e''"
  using truncate_path_keeps_levels [of "''a/b/c/d''"] by (simp add: truncate_path_def)

section \<open>Protocol buffers\<close>

text \<open>The statistics of every node are a map.\<close>

fun result_ok :: "result \<Rightarrow> bool" where
  "result_ok (Result name samples st subs repeat) \<longleftrightarrow>
     smap_ok samples \<and> smap_ok st \<and> (\<forall>r \<in> set subs. result_ok r)"

text \<open>What the trip keeps: names, statistics and the tree.\<close>

fun without_samples :: "result \<Rightarrow> result" where
  "without_samples (Result name samples st subs repeat) = Result name [] st (map without_samples subs) 1"

lemma set_all_statistics:
  "foldl (\<lambda>r m. SetStatistics (pm_name m) (pm_stats m) r) (Result n sa st su rp)
     (map (\<lambda>(n, s). StoreStatisticsInPb n s) kvs) = Result n sa (smap.puts kvs st) su rp"
  by (induction kvs arbitrary: st) (auto simp: StoreStatisticsInPb_def SetStatistics_def)

lemma add_all_subs:
  "foldl (\<lambda>r s. AddSubResult s r) (Result n sa st su rp) subs = Result n sa st (su @ subs) rp"
  by (induction subs arbitrary: su) (simp_all add: AddSubResult_def)

lemma FromPb_ToPb_lemma: "result_ok r \<Longrightarrow> FromPb (ToPb r) = without_samples r"
proof (induction r)
  case (Result name samples st subs repeat)
  have "map FromPb (map ToPb subs) = map without_samples subs"
    using Result by simp
  moreover have "smap.puts st [] = st" using smap_rebuild [of "[]" st] Result.prems by simp
  ultimately show ?case
    by (simp add: Result_ctor_def set_all_statistics add_all_subs)
qed



text \<open>
  A result read back from a pipe names no measurement, so no statistics table and no CSV column
  is printed for it on its own.
\<close>

theorem forked_results_have_no_names:
  "GetMeasurementsNames (FromPb pb) = [] \<and> PrintStatisticsTables (FromPb pb) = Inr [] \<and>
   MakeStatisticsCsv (FromPb pb) = ''Instruction path'' @ newline @ PrintStatisticInCsv [] [] (FromPb pb)"
proof -
  have st: "\<exists>st'. foldl (\<lambda>r m. SetStatistics (pm_name m) (pm_stats m) r) (Result n [] st su 1) ms =
      Result n [] st' su 1" for n st su ms
    by (induction ms arbitrary: st) (auto simp: SetStatistics_def)
  have "GetMeasurementsNames (FromPb pb) = []"
  proof (induction pb)
    case (PbResult name metrics subs)
    obtain st' where "FromPb (PbResult name metrics subs) = Result name [] st' (map FromPb subs) 1"
      using st [of name "[]" "[]" metrics] by (auto simp: Result_ctor_def add_all_subs)
    moreover have "foldl (\<lambda>names sub_names. foldl (\<lambda>ns n. set_put n ns) names sub_names) []
        (map GetMeasurementsNames (map FromPb subs)) = []"
      using PbResult by (induction subs) auto
    ultimately show ?case by (simp add: map_keys_def del: FromPb.simps)
  qed
  then show ?thesis by (simp add: PrintStatisticsTables_def MakeStatisticsCsv_def PrintCsvHeader_def)
qed

section \<open>CSV\<close>

definition plain_char :: "char \<Rightarrow> bool" where
  "plain_char c \<longleftrightarrow> c \<noteq> CHR '','' \<and> c \<noteq> CHR 0x0A"

definition plain :: "string \<Rightarrow> bool" where
  "plain s \<longleftrightarrow> (\<forall>c \<in> set s. plain_char c)"

lemma plain_simps [simp]:
  "plain []" "plain (c # s) \<longleftrightarrow> plain_char c \<and> plain s" "plain (s @ t) \<longleftrightarrow> plain s \<and> plain t"
  by (auto simp: plain_def)

lemma plain_char_digit: "is_digit c \<Longrightarrow> plain_char c"
  by (auto simp: is_digit_def plain_char_def)

lemma plain_show_nat [simp]: "plain (show_nat n)"
  using show_nat_digits plain_char_digit by (auto simp: plain_def)

lemma plain_sub: "plain s \<Longrightarrow> set t \<subseteq> set s \<Longrightarrow> plain t"
  by (auto simp: plain_def)

lemma plain_parts [simp]: "plain s \<Longrightarrow> plain (take n s)" "plain s \<Longrightarrow> plain (drop n s)"
  "plain s \<Longrightarrow> plain (strip_zeros s)"
proof -
  assume s: "plain s"
  show "plain (take n s)" by (rule plain_sub [OF s set_take_subset])
  show "plain (drop n s)" by (rule plain_sub [OF s set_drop_subset])
  show "plain (strip_zeros s)"
    using s by (auto simp: strip_zeros_def plain_def dest!: set_dropWhileD)
qed

lemma plain_replicate [simp]: "plain_char c \<Longrightarrow> plain (replicate n c)"
  by (simp add: plain_def)

lemma plain_fraction: "plain whole \<Longrightarrow> plain part \<Longrightarrow> plain (with_fraction whole part)"
  by (simp add: with_fraction_def Let_def plain_char_def)

lemma plain_positive: "plain (show_positive r)"
  by (simp add: show_positive_def case_prod_beta Let_def plain_fraction show_exponent_def
      setw_right_def plain_char_def)

lemma plain_show_double [simp]: "plain (show_double x)"
  by (cases x) (simp_all add: plain_positive plain_char_def)

definition commas :: "string \<Rightarrow> nat" where
  "commas s = length (filter (\<lambda>c. c = CHR '','') s)"

lemma commas_simps [simp]:
  "commas [] = 0" "commas (s @ t) = commas s + commas t"
  "commas (c # s) = (if c = CHR '','' then Suc (commas s) else commas s)"
  by (simp_all add: commas_def)

lemma commas_plain [simp]: "plain s \<Longrightarrow> commas s = 0"
  by (induction s) (auto simp: plain_char_def)

fun text_lines :: "string \<Rightarrow> string list" where
  "text_lines [] = []"
| "text_lines (c # s) =
     (if c = CHR 0x0A then [] # text_lines s
      else case text_lines s of [] \<Rightarrow> [[c]] | l # ls \<Rightarrow> (c # l) # ls)"

lemma text_lines_line: "CHR 0x0A \<notin> set l \<Longrightarrow> text_lines (l @ newline @ s) = l # text_lines s"
  by (induction l) (auto simp: newline_def)

lemma text_lines_rows:
  "\<forall>l \<in> set rows. CHR 0x0A \<notin> set l \<Longrightarrow> text_lines (concat (map (\<lambda>l. l @ newline) rows)) = rows"
  by (induction rows) (simp_all add: text_lines_line)

text \<open>The rows of the report, one per node of the tree.\<close>

definition csv_row :: "string \<Rightarrow> string list \<Rightarrow> (string, stats) smap \<Rightarrow> string" where
  "csv_row path names st =
     path @ concat (map (\<lambda>n. case map_find n st of
                         Some s \<Rightarrow> PrintMeasurementStatisticInCsv s
                       | None \<Rightarrow> PrintEmptyMeasurementInCsv) names)"

fun csv_rows :: "string \<Rightarrow> string list \<Rightarrow> result \<Rightarrow> string list" where
  "csv_rows instruction_path names (Result name samples st subs repeat) =
     (let path = ComputeNextInstructionPath instruction_path name
      in csv_row path names st # concat (map (csv_rows path names) subs))"

fun nodes :: "result \<Rightarrow> nat" where
  "nodes (Result name samples st subs repeat) = Suc (sum_list (map nodes subs))"

lemma csv_text: "PrintStatisticInCsv p names r = concat (map (\<lambda>l. l @ newline) (csv_rows p names r))"
proof (induction r arbitrary: p)
  case (Result name samples st subs repeat)
  have "concat (map (PrintStatisticInCsv q names) subs) =
      concat (map (\<lambda>l. l @ newline) (concat (map (csv_rows q names) subs)))" for q
    using Result by (induction subs) auto
  then show ?case by (simp add: Let_def csv_row_def)
qed

lemma csv_rows_length: "length (csv_rows p names r) = nodes r"
proof (induction r arbitrary: p)
  case (Result name samples st subs repeat)
  have "length (concat (map (csv_rows q names) subs)) = sum_list (map nodes subs)" for q
    using Result by (induction subs) auto
  then show ?case by (simp add: Let_def)
qed

fun plain_names :: "result \<Rightarrow> bool" where
  "plain_names (Result name samples st subs repeat) \<longleftrightarrow>
     plain name \<and> (\<forall>n \<in> set (map_keys samples). plain n) \<and> (\<forall>r \<in> set subs. plain_names r)"

lemma csv_row_commas:
  assumes "plain path"
  shows "commas (csv_row path names st) = 5 * length names \<and> CHR 0x0A \<notin> set (csv_row path names st)"
proof -
  have cell: "commas (case map_find n st of Some s \<Rightarrow> PrintMeasurementStatisticInCsv s
        | None \<Rightarrow> PrintEmptyMeasurementInCsv) = 5 \<and>
      CHR 0x0A \<notin> set (case map_find n st of Some s \<Rightarrow> PrintMeasurementStatisticInCsv s
        | None \<Rightarrow> PrintEmptyMeasurementInCsv)" for n
  proof -
    have "CHR 0x0A \<notin> set (show_double x)" for x
      using plain_show_double [of x] by (auto simp: plain_def plain_char_def)
    then show ?thesis
      by (auto simp: PrintMeasurementStatisticInCsv_def PrintEmptyMeasurementInCsv_def setw_right_def
          numeral_eq_Suc split: option.splits)
  qed
  have "commas (concat (map f names)) = 5 * length names \<and> CHR 0x0A \<notin> set (concat (map f names))"
    if "\<And>n. commas (f n) = 5 \<and> CHR 0x0A \<notin> set (f n)" for f :: "string \<Rightarrow> string"
    using that by (induction names) auto
  note cells = this [where f = "\<lambda>n. case map_find n st of Some s \<Rightarrow> PrintMeasurementStatisticInCsv s
        | None \<Rightarrow> PrintEmptyMeasurementInCsv", OF cell]
  have "CHR 0x0A \<notin> set path"
    using assms by (auto simp: plain_def plain_char_def)
  with cells commas_plain [OF assms] show ?thesis
    by (simp only: csv_row_def commas_simps set_append Un_iff) simp
qed

lemma csv_rows_commas:
  "plain p \<Longrightarrow> plain_names r \<Longrightarrow>
     \<forall>l \<in> set (csv_rows p names r). commas l = 5 * length names \<and> CHR 0x0A \<notin> set l"
proof (induction r arbitrary: p)
  case (Result name samples st subs repeat)
  then have "plain (ComputeNextInstructionPath p name)"
    by (auto simp: ComputeNextInstructionPath_def plain_char_def)
  note row = csv_row_commas [OF this, of names st]
  have subs: "\<forall>l \<in> set (csv_rows (ComputeNextInstructionPath p name) names x).
      commas l = 5 * length names \<and> CHR 0x0A \<notin> set l" if "x \<in> set subs" for x
    using Result that \<open>plain (ComputeNextInstructionPath p name)\<close> by simp
  show ?case
    using row subs by (simp add: Let_def)
qed

lemma names_plain:
  "plain_names r \<Longrightarrow> \<forall>n \<in> set (GetMeasurementsNames r). plain n"
proof (induction r)
  case (Result name samples st subs repeat)
  have put: "set (foldl (\<lambda>ns n. set_put n ns) acc ns) = set acc \<union> set ns" for acc ns :: "string list"
    by (induction ns arbitrary: acc) auto
  have "set (foldl (\<lambda>names sub_names. foldl (\<lambda>ns n. set_put n ns) names sub_names) acc nss) =
      set acc \<union> \<Union> (set ` set nss)" for acc and nss :: "string list list"
    by (induction nss arbitrary: acc) (auto simp: put)
  then show ?case using Result by (auto simp: put)
qed

lemma header_commas:
  assumes "\<forall>n \<in> set names. plain n"
  shows "\<exists>l. PrintCsvHeader names = l @ newline \<and> commas l = 5 * length names \<and> CHR 0x0A \<notin> set l"
proof -
  let ?cells = "concat (map (\<lambda>n. '','' @ n @ '' min,'' @ n @ '' max,'' @ n @ '' mean,'' @ n @ '' median,'' @
      n @ '' SD'') names)"
  have "commas ?cells = 5 * length names \<and> CHR 0x0A \<notin> set ?cells"
    using assms by (induction names) (auto simp: plain_def plain_char_def)
  then show ?thesis
    by (intro exI [of _ "''Instruction path'' @ ?cells"]) (simp add: PrintCsvHeader_def)
qed

text \<open>
  C38: every line of a CSV report, the header included, has one field for the path and five for
  each measurement of the whole tree, and there is one line per instruction: the table is
  rectangular, provided the names contain no comma or line break.
\<close>

theorem csv_is_rectangular:
  assumes "plain_names r"
  shows "length (text_lines (MakeStatisticsCsv r)) = Suc (nodes r) \<and>
         (\<forall>l \<in> set (text_lines (MakeStatisticsCsv r)). commas l = 5 * length (GetMeasurementsNames r))"
proof -
  let ?names = "GetMeasurementsNames r"
  obtain h where h: "PrintCsvHeader ?names = h @ newline" "commas h = 5 * length ?names" "CHR 0x0A \<notin> set h"
    using header_commas [OF names_plain [OF assms]] by blast
  have rows: "\<forall>l \<in> set (csv_rows [] ?names r). commas l = 5 * length ?names \<and> CHR 0x0A \<notin> set l"
    using csv_rows_commas [of "[]" r] assms by simp
  have "text_lines (MakeStatisticsCsv r) = h # csv_rows [] ?names r"
    using text_lines_line [OF h(3)] text_lines_rows [of "csv_rows [] ?names r"] rows
    by (simp add: MakeStatisticsCsv_def Let_def h(1) csv_text)
  then show ?thesis using rows h(2) csv_rows_length by simp
qed

theorem csv_is_rectangular_witness:
  "length (text_lines (MakeStatisticsCsv
     (Result ''a'' [(''duration'', [Fin 1])] [(''duration'', no_stats)] [Result ''b'' [] [] [] 1] 1))) = 3"
  using csv_is_rectangular [of "Result ''a'' [(''duration'', [Fin 1])] [(''duration'', no_stats)]
      [Result ''b'' [] [] [] 1] 1"]
  by (auto simp: map_keys_def plain_char_def)

end
