(* ===== verification/Work_Instructions.thy ===== *)
theory Work_Instructions
  imports File_Instructions
begin

text \<open>
  The instructions that do not touch files: \<^verbatim>\<open>src/cpu_work.cpp\<close>,
  \<^verbatim>\<open>src/memory_allocation.cpp\<close> and \<^verbatim>\<open>src/lock.cpp\<close>.

  Busy waiting may never end, so its loop is \<open>do_whileC\<close>; the stack of addresses is a list with
  the top first; a mutex is a pointer into the shared variables, \<open>None\<close> where the code has a
  null pointer, and using it while it dangles is undefined.
\<close>

section \<open>CPU work\<close>

fun flip_times :: "nat \<Rightarrow> int \<Rightarrow> int" where
  "flip_times 0 target = target"
| "flip_times (Suc n) target = flip_times n (not target)"

definition CpuWork_ctor :: "string \<Rightarrow> params \<Rightarrow> ibase" where
  "CpuWork_ctor name p = Instruction_ctor name p"

definition CpuWorkCycles_ctor :: "params \<Rightarrow> u64 \<Rightarrow> ibase \<times> u64" where
  "CpuWorkCycles_ctor p cycles = (CpuWork_ctor ''cpu_work_cycles'' p, cycles)"

definition CpuWorkCycles_RunSingle :: "u64 \<Rightarrow> ('w, unit) act" where
  "CpuWorkCycles_RunSingle cycles = (let target = flip_times (unat cycles) (-1) in returnC ())"

definition CpuWorkUtilization_ctor :: "params \<Rightarrow> f64 \<Rightarrow> (ibase \<times> timespec) res" where
  "CpuWorkUtilization_ctor p utilization =
     (if utilization < Fin 0 \<or> Fin 1 < utilization
      then Inl (Logf ''Utilization value must be in the range [0,1]'')
      else if pr_period_us p = 0
      then Inl (Logf ''The period of the instruction must be greater than 0'')
      else bindR (f64_to_i64 (fmul (f64_of_int (uint (pr_period_us p))) utilization)) (\<lambda>us.
           bindR (MicrosToTimespec us) (\<lambda>work_time.
           Inr (CpuWork_ctor ''cpu_work_utilization'' p, work_time))))"

definition CpuWorkDurationUs_ctor :: "params \<Rightarrow> u64 \<Rightarrow> (ibase \<times> timespec) res" where
  "CpuWorkDurationUs_ctor p duration_us =
     bindR (MicrosToTimespec (u64_to_i64 duration_us)) (\<lambda>work_time.
     Inr (CpuWork_ctor ''cpu_work_duration'' p, work_time))"

definition cpu_time :: "('w, 'g) env \<Rightarrow> ('w, timespec) act" where
  "cpu_time E =
     bindC (sysC (clock_gettime E CLOCK_THREAD_CPUTIME_ID)) (\<lambda>(ret, now).
     if ret \<noteq> 0 then failC (Logf ''Error getting current time'') else returnC now)"

definition wait_step :: "('w, 'g) env \<Rightarrow> timespec \<Rightarrow> ('w, bool) act" where
  "wait_step E time_end = bindC (cpu_time E) (\<lambda>now. returnC (timespec_less now time_end))"

definition threadWaitAbsoluteTime :: "('w, 'g) env \<Rightarrow> timespec \<Rightarrow> ('w, unit) act" where
  "threadWaitAbsoluteTime E work_time =
     bindC (cpu_time E) (\<lambda>time_now.
     bindC (liftR (timespec_plus time_now work_time)) (\<lambda>time_end.
     do_whileC (wait_step E time_end)))"

section \<open>Memory allocation\<close>

record mem_alloc =
  ma_size :: u64
  ma_free_policy :: free_policy
  ma_addresses :: "int list"

type_synonym mem_obj = "ibase \<times> mem_alloc"

definition MemoryAllocation_ctor :: "params \<Rightarrow> u64 \<Rightarrow> free_policy \<Rightarrow> mem_obj" where
  "MemoryAllocation_ctor p sz policy =
     (Instruction_ctor ''memory_allocation'' p,
      \<lparr>ma_size = sz, ma_free_policy = policy, ma_addresses = []\<rparr>)"

definition allocate_memory :: "('w, 'g) env \<Rightarrow> int list \<Rightarrow> u64 \<Rightarrow> ('w, int list) act" where
  "allocate_memory E addresses sz =
     bindC (sysC (mmap_anon E sz)) (\<lambda>addr.
     case addr of None \<Rightarrow> failC (Plogf ''mmap failed'') | Some a \<Rightarrow> returnC (a # addresses))"

fun deallocate_memory :: "('w, 'g) env \<Rightarrow> int list \<Rightarrow> u64 \<Rightarrow> ('w, int list) act" where
  "deallocate_memory E [] sz = returnC []"
| "deallocate_memory E (a # as) sz =
     bindC (sysC (munmap E a sz)) (\<lambda>ret.
     bindC (fail_ifC (ret = -1) (Plogf ''munmap failed'')) (\<lambda>_. deallocate_memory E as sz))"

definition MemoryAllocation_destroy :: "('w, 'g) env \<Rightarrow> mem_obj \<Rightarrow> ('w, mem_obj) act" where
  "MemoryAllocation_destroy E ob =
     bindC (deallocate_memory E (ma_addresses (snd ob)) (ma_size (snd ob))) (\<lambda>as.
     returnC (fst ob, (snd ob)\<lparr>ma_addresses := as\<rparr>))"

definition MemoryAllocation_RunSingle :: "('w, 'g) env \<Rightarrow> mem_obj \<Rightarrow> ('w, mem_obj) act" where
  "MemoryAllocation_RunSingle E ob =
     bindC (allocate_memory E (ma_addresses (snd ob)) (ma_size (snd ob))) (\<lambda>as.
     returnC (fst ob, (snd ob)\<lparr>ma_addresses := as\<rparr>))"

text \<open>It does not call \<^verbatim>\<open>Instruction::TearDownSingle\<close>.\<close>

definition MemoryAllocation_TearDownSingle ::
  "('w, 'g) env \<Rightarrow> bool \<Rightarrow> mem_obj \<Rightarrow> ('w, mem_obj) act" where
  "MemoryAllocation_TearDownSingle E is_last ob =
     bindC (case ma_free_policy (snd ob) of
              kKeep \<Rightarrow> returnC (ma_addresses (snd ob))
            | kFreeEveryPeriod \<Rightarrow> deallocate_memory E (ma_addresses (snd ob)) (ma_size (snd ob))
            | kFreeLastPeriod \<Rightarrow>
                if is_last then deallocate_memory E (ma_addresses (snd ob)) (ma_size (snd ob))
                else returnC (ma_addresses (snd ob))) (\<lambda>as.
     returnC (fst ob, (snd ob)\<lparr>ma_addresses := as\<rparr>))"

section \<open>Locks\<close>

definition on_mutex ::
  "(var_ptr \<Rightarrow> mutex_bytes \<Rightarrow> 'w \<Rightarrow> (int \<times> mutex_bytes) \<times> 'w) \<Rightarrow> var_ptr option \<Rightarrow> ('w, int) act" where
  "on_mutex call mutex s =
     (case mutex of
        None \<Rightarrow> (Inl (Undefined NullPointer), s)
      | Some p \<Rightarrow>
          if \<not> ptr_live (ps_vars s) p then (Inl (Undefined StalePointer), s)
          else (case sv_variables (ps_vars s) ! nat (snd p) of
                  VMutex m \<Rightarrow>
                    (case call p m (ps_world s) of ((ret, m'), w) \<Rightarrow>
                       (Inr ret, s\<lparr>ps_world := w,
                          ps_vars := (ps_vars s)\<lparr>sv_variables :=
                             (sv_variables (ps_vars s))[nat (snd p) := VMutex m']\<rparr>\<rparr>))
                | _ \<Rightarrow> (Inl (Undefined StalePointer), s)))"

definition LockInterface_ctor :: "string \<Rightarrow> params \<Rightarrow> var_ptr option \<Rightarrow> ibase \<times> var_ptr option" where
  "LockInterface_ctor name p mutex = (Instruction_ctor name p, mutex)"

definition Lock_ctor :: "params \<Rightarrow> var_ptr option \<Rightarrow> ibase \<times> var_ptr option" where
  "Lock_ctor p mutex = LockInterface_ctor ''lock'' p mutex"

definition Unlock_ctor :: "params \<Rightarrow> var_ptr option \<Rightarrow> ibase \<times> var_ptr option" where
  "Unlock_ctor p mutex = LockInterface_ctor ''unlock'' p mutex"

definition Lock_RunSingle :: "('w, 'g) env \<Rightarrow> var_ptr option \<Rightarrow> ('w, unit) act" where
  "Lock_RunSingle E mutex =
     bindC (on_mutex (sys_LockMutex E) mutex) (\<lambda>ret.
     fail_ifC (ret \<noteq> 0) (Plogf ''Cannot lock mutex''))"

definition Unlock_RunSingle :: "('w, 'g) env \<Rightarrow> var_ptr option \<Rightarrow> ('w, unit) act" where
  "Unlock_RunSingle E mutex =
     bindC (on_mutex (sys_UnlockMutex E) mutex) (\<lambda>ret.
     fail_ifC (ret \<noteq> 0) (Plogf ''Cannot unlock mutex''))"

section \<open>The classes meet the interface\<close>

interpretation cpu_work: instruction_class E "\<lambda>b. b" "Instruction_SetUpSingle E"
  "run_work (threadWaitAbsoluteTime E work_time)" "Instruction_TearDownSingle E" "\<lambda>_. True"
  for E :: "('w, 'g) env" and work_time :: timespec
  by unfold_locales (auto simp: run_work_def bindC_Inr_iff)

interpretation lock: instruction_class E "\<lambda>b. b" "Instruction_SetUpSingle E"
  "run_work (Lock_RunSingle E mutex)" "Instruction_TearDownSingle E" "\<lambda>_. True"
  for E :: "('w, 'g) env" and mutex :: "var_ptr option"
  by unfold_locales (auto simp: run_work_def bindC_Inr_iff)

section \<open>Properties of CPU work\<close>

text \<open>The state of the system after \<open>n\<close> readings of the clock.\<close>

fun after_readings :: "('w, 'g) env \<Rightarrow> nat \<Rightarrow> 'w \<Rightarrow> 'w" where
  "after_readings E 0 w = w"
| "after_readings E (Suc n) w = after_readings E n (snd (clock_gettime E CLOCK_THREAD_CPUTIME_ID w))"

definition reading :: "('w, 'g) env \<Rightarrow> 'w \<Rightarrow> timespec" where
  "reading E w = snd (fst (clock_gettime E CLOCK_THREAD_CPUTIME_ID w))"

lemma cpu_time_app:
  assumes "\<And>w. fst (fst (clock_gettime E CLOCK_THREAD_CPUTIME_ID w)) = 0"
  shows "cpu_time E s =
    (Inr (reading E (ps_world s)), s\<lparr>ps_world := snd (clock_gettime E CLOCK_THREAD_CPUTIME_ID (ps_world s))\<rparr>)"
  using assms by (simp add: cpu_time_def bindC_app sysC_app case_prod_beta reading_def)

lemma wait_loop:
  fixes E :: "('w, 'g) env"
  assumes "\<And>w. fst (fst (clock_gettime E CLOCK_THREAD_CPUTIME_ID w)) = 0"
    and "\<not> timespec_less (reading E (after_readings E n (ps_world s))) time_end"
  shows "\<exists>k. k \<le> n \<and> \<not> timespec_less (reading E (after_readings E k (ps_world s))) time_end \<and>
           (\<forall>j < k. timespec_less (reading E (after_readings E j (ps_world s))) time_end) \<and>
           do_whileC (wait_step E time_end) s =
             (Inr (), s\<lparr>ps_world := after_readings E (Suc k) (ps_world s)\<rparr>)"
  using assms(2)
proof (induction n arbitrary: s)
  case 0
  then have "wait_step E time_end s = (Inr False, s\<lparr>ps_world := after_readings E 1 (ps_world s)\<rparr>)"
    by (simp add: wait_step_def bindC_app cpu_time_app [OF assms(1)])
  from do_whileC_stop [where body = "wait_step E time_end", OF this] 0
  show ?case by (intro exI [of _ 0]) simp
next
  case (Suc n)
  let ?s = "s\<lparr>ps_world := snd (clock_gettime E CLOCK_THREAD_CPUTIME_ID (ps_world s))\<rparr>"
  show ?case
  proof (cases "timespec_less (reading E (ps_world s)) time_end")
    case False
    then have "wait_step E time_end s = (Inr False, s\<lparr>ps_world := after_readings E 1 (ps_world s)\<rparr>)"
      by (simp add: wait_step_def bindC_app cpu_time_app [OF assms(1)])
    from do_whileC_stop [where body = "wait_step E time_end", OF this] False
    show ?thesis by (intro exI [of _ 0]) simp
  next
    case True
    then have step: "wait_step E time_end s = (Inr True, ?s)"
      by (simp add: wait_step_def bindC_app cpu_time_app [OF assms(1)])
    have "\<not> timespec_less (reading E (after_readings E n (ps_world ?s))) time_end"
      using Suc.prems by simp
    from Suc.IH [OF this] obtain k where k: "k \<le> n"
      "\<not> timespec_less (reading E (after_readings E k (ps_world ?s))) time_end"
      "\<forall>j < k. timespec_less (reading E (after_readings E j (ps_world ?s))) time_end"
      "do_whileC (wait_step E time_end) ?s = (Inr (), ?s\<lparr>ps_world := after_readings E (Suc k) (ps_world ?s)\<rparr>)"
      by blast
    have "\<forall>j < Suc k. timespec_less (reading E (after_readings E j (ps_world s))) time_end"
      using True k(3) by (auto simp: less_Suc_eq_0_disj)
    then show ?thesis
      using do_whileC_again [where body = "wait_step E time_end", OF step k(4)] k(1,2)
      by (intro exI [of _ "Suc k"]) simp
  qed
qed

text \<open>
  C24: busy waiting ends at the first reading of the thread's CPU clock that is at least the
  requested work time after the reading it started with, provided the clock ever gets there.
\<close>

theorem wait_consumes_work_time:
  assumes "\<And>w. fst (fst (clock_gettime E CLOCK_THREAD_CPUTIME_ID w)) = 0"
    and "\<And>w. normal_ts (reading E w)" and "normal_ts work_time"
    and "nanos (reading E (ps_world s)) + nanos work_time < 2 ^ 61 * 1000000000"
    and "nanos (reading E (ps_world s)) + nanos work_time
           \<le> nanos (reading E (after_readings E (Suc n) (ps_world s)))"
  shows "\<exists>k. threadWaitAbsoluteTime E work_time s =
             (Inr (), s\<lparr>ps_world := after_readings E (Suc (Suc k)) (ps_world s)\<rparr>) \<and> k \<le> n \<and>
           nanos (reading E (ps_world s)) + nanos work_time
             \<le> nanos (reading E (after_readings E (Suc k) (ps_world s))) \<and>
           (\<forall>j < k. nanos (reading E (after_readings E (Suc j) (ps_world s)))
                     < nanos (reading E (ps_world s)) + nanos work_time)"
proof -
  let ?s = "s\<lparr>ps_world := after_readings E 1 (ps_world s)\<rparr>"
  obtain v where v: "timespec_plus (reading E (ps_world s)) work_time = Inr v"
      "nanos v = nanos (reading E (ps_world s)) + nanos work_time"
      "0 \<le> tv_sec v" "0 \<le> tv_nsec v" "tv_nsec v < 1000000000"
    using timespec_plus_normal [OF assms(2,3)] by blast
  have "normal_ts v" using v assms(4) unfolding normal_ts_def nanos_def by auto
  note less = timespec_less_nanos [OF assms(2) this]
  have "threadWaitAbsoluteTime E work_time s = do_whileC (wait_step E v) ?s"
    by (simp add: threadWaitAbsoluteTime_def bindC_app cpu_time_app [OF assms(1)] v(1))
  moreover have "\<not> timespec_less (reading E (after_readings E n (ps_world ?s))) v"
    using assms(5) v(2) by (simp add: less)
  from wait_loop [OF assms(1) this] obtain k where "k \<le> n"
      "\<not> timespec_less (reading E (after_readings E k (ps_world ?s))) v"
      "\<forall>j < k. timespec_less (reading E (after_readings E j (ps_world ?s))) v"
      "do_whileC (wait_step E v) ?s = (Inr (), ?s\<lparr>ps_world := after_readings E (Suc k) (ps_world ?s)\<rparr>)"
    by blast
  ultimately show ?thesis using v(2) by (auto simp: less)
qed

theorem wait_consumes_work_time_witness:
  "\<exists>k. threadWaitAbsoluteTime sample_env (Timespec 0 2500) sample_state =
         (Inr (), sample_state\<lparr>ps_world := after_readings sample_env (Suc (Suc k)) sample_world0\<rparr>) \<and>
       7000002500 \<le> nanos (reading sample_env (after_readings sample_env (Suc k) sample_world0))"
proof -
  have "normal_ts (reading sample_env w)" for w
  proof -
    have "int (sw_now w) div 1000000000 mod 1000000 < 1000000" by simp
    then have "7 + int (sw_now w) div 1000000000 mod 1000000 < 4611686018427387904" by linarith
    then show ?thesis by (simp add: reading_def sample_env_def sample_clock_def normal_ts_def)
  qed
  moreover have "nanos (reading sample_env (after_readings sample_env (Suc 2) sample_world0)) = 7000003000"
      "nanos (reading sample_env sample_world0) = 7000000000"
    by (simp_all add: numeral_2_eq_2 reading_def sample_env_def sample_clock_def sample_world0_def nanos_def)
  ultimately show ?thesis
    using wait_consumes_work_time [of sample_env "Timespec 0 2500" sample_state 2]
    by (auto simp: normal_ts_def nanos_def [of "Timespec 0 2500"] sample_state_def)
      (auto simp: sample_env_def sample_clock_def)
qed

section \<open>Properties of memory allocation\<close>

text \<open>
  What \<^verbatim>\<open>mmap\<close> and \<^verbatim>\<open>munmap\<close> document, for the set \<open>live\<close> of mapped regions of a system; the
  clock calls leave it alone.
\<close>

definition maps_spec :: "('w, 'g) env \<Rightarrow> ('w \<Rightarrow> int set) \<Rightarrow> bool" where
  "maps_spec E live \<longleftrightarrow>
     (\<forall>n w a w'. mmap_anon E n w = (Some a, w') \<longrightarrow> a \<notin> live w \<and> live w' = insert a (live w)) \<and>
     (\<forall>a n w. a \<in> live w \<longrightarrow>
        fst (munmap E a n w) \<noteq> -1 \<and> live (snd (munmap E a n w)) = live w - {a}) \<and>
     (\<forall>c w. live (snd (clock_gettime E c w)) = live w) \<and>
     (\<forall>t w. live (snd (clock_nanosleep E t w)) = live w)"

lemma maps_spec_mmap:
  assumes "maps_spec E live" and "mmap_anon E n w = (Some a, w')"
  shows "a \<notin> live w \<and> live w' = insert a (live w)"
proof -
  have "\<forall>n w a w'. mmap_anon E n w = (Some a, w') \<longrightarrow> a \<notin> live w \<and> live w' = insert a (live w)"
    using assms(1) by (simp add: maps_spec_def)
  then show ?thesis using assms(2) by simp
qed

text \<open>The regions of the object are mapped, distinct, and none of those mapped before (\<open>L\<close>).\<close>

definition owns :: "('w \<Rightarrow> int set) \<Rightarrow> int set \<Rightarrow> mem_obj \<Rightarrow> 'w pstate \<Rightarrow> bool" where
  "owns live L ob s \<longleftrightarrow>
     distinct (ma_addresses (snd ob)) \<and> set (ma_addresses (snd ob)) \<inter> L = {} \<and>
     live (ps_world s) = L \<union> set (ma_addresses (snd ob))"

lemma deallocate_all:
  assumes "maps_spec E live" and "distinct as" and "set as \<inter> L = {}" and "live (ps_world s) = L \<union> set as"
  shows "\<exists>w. deallocate_memory E as n s = (Inr [], s\<lparr>ps_world := w\<rparr>) \<and> live w = L"
  using assms(2-4)
proof (induction as arbitrary: s)
  case (Cons a as)
  let ?s = "s\<lparr>ps_world := snd (munmap E a n (ps_world s))\<rparr>"
  have "a \<in> live (ps_world s)" using Cons.prems(3) by simp
  then have ret: "fst (munmap E a n (ps_world s)) \<noteq> -1"
    and "live (ps_world ?s) = live (ps_world s) - {a}"
    using assms(1) by (simp_all add: maps_spec_def)
  then have "live (ps_world ?s) = L \<union> set as" using Cons.prems by auto
  then obtain w where "deallocate_memory E as n ?s = (Inr [], ?s\<lparr>ps_world := w\<rparr>)" "live w = L"
    using Cons.IH [of ?s] Cons.prems by auto
  then show ?case using ret by (intro exI [of _ w]) (simp add: bindC_app sysC_app fail_ifC_def)
next
  case Nil
  then show ?case by (intro exI [of _ "ps_world s"]) simp
qed

lemma SetUpSingle_keeps_live:
  assumes "maps_spec E live" and "Instruction_SetUpSingle E b s = (Inr b', t)"
  shows "live (ps_world t) = live (ps_world s)"
proof -
  have clock: "live (ps_world u') = live (ps_world u)" if "read_clock E old u = (Inr x, u')" for u u' old x
    using that assms(1) by (auto simp: read_clock_def bindC_Inr_iff sysC_app maps_spec_def case_prod_beta)
  have sleep: "live (ps_world u') = live (ps_world u)" if "wait_wakeup E b u = (Inr x, u')" for u u' x
    using that assms(1) by (auto simp: wait_wakeup_def comp_Inr_iffs sysC_app maps_spec_def split: if_splits)
  obtain b1 s1 s2 ts where "wait_wakeup E b s = (Inr b1, s1)" "Tracer_Start E (ib_name b) s1 = (Inr (), s2)"
      "read_clock E (ts_start (ib_sampler b1)) s2 = (Inr ts, t)"
    using assms(2) by (auto simp: Instruction_SetUpSingle_def MeasureStart_def bindC_Inr_iff)
  then show ?thesis
    using clock sleep by (auto simp: Tracer_Start_def write_mark_app split: if_splits)
qed

definition mem_single :: "('w, 'g) env \<Rightarrow> bool \<Rightarrow> mem_obj \<Rightarrow> ('w, mem_obj) act" where
  "mem_single E = Instruction_single (inherit (Instruction_SetUpSingle E)) (MemoryAllocation_RunSingle E)
                    (MemoryAllocation_TearDownSingle E)"

lemma mem_single_cases:
  assumes "mem_single E l ob s = (Inr ob', t)"
  obtains b a s1 s2 w where "Instruction_SetUpSingle E (fst ob) s = (Inr b, s1)"
    "mmap_anon E (ma_size (snd ob)) (ps_world s1) = (Some a, w)"
    "MemoryAllocation_TearDownSingle E l
       (b, (snd ob)\<lparr>ma_addresses := a # ma_addresses (snd ob)\<rparr>) (s1\<lparr>ps_world := w\<rparr>) = (Inr ob', t)"
  using assms
  by (auto simp: mem_single_def Instruction_single_def MemoryAllocation_RunSingle_def allocate_memory_def
      bindC_Inr_iff inherit_def sysC_Inr_iff split: prod.splits option.splits)

lemma TearDownSingle_Inr:
  assumes "maps_spec E live" and "owns live L ob s" and "MemoryAllocation_TearDownSingle E l ob s = (Inr ob', t)"
  shows "owns live L ob' t" and "ma_free_policy (snd ob') = ma_free_policy (snd ob)"
    and "ma_addresses (snd ob') =
      (if ma_free_policy (snd ob) = kKeep \<or> (ma_free_policy (snd ob) = kFreeLastPeriod \<and> \<not> l)
       then ma_addresses (snd ob) else [])"
proof -
  obtain w where "deallocate_memory E (ma_addresses (snd ob)) (ma_size (snd ob)) s
      = (Inr [], s\<lparr>ps_world := w\<rparr>)" "live w = L"
    using deallocate_all [OF assms(1)] assms(2) unfolding owns_def by blast
  then show "owns live L ob' t" "ma_free_policy (snd ob') = ma_free_policy (snd ob)"
    "ma_addresses (snd ob') =
      (if ma_free_policy (snd ob) = kKeep \<or> (ma_free_policy (snd ob) = kFreeLastPeriod \<and> \<not> l)
       then ma_addresses (snd ob) else [])"
    using assms(2,3)
    by (auto simp: MemoryAllocation_TearDownSingle_def bindC_app owns_def
        split: free_policy.splits if_splits)
qed

lemma mem_single_effect:
  assumes "maps_spec E live" and "owns live L ob s" and "mem_single E l ob s = (Inr ob', t)"
  shows "owns live L ob' t" and "ma_free_policy (snd ob') = ma_free_policy (snd ob)"
    and "length (ma_addresses (snd ob')) =
      (if ma_free_policy (snd ob) = kKeep \<or> (ma_free_policy (snd ob) = kFreeLastPeriod \<and> \<not> l)
       then Suc (length (ma_addresses (snd ob))) else 0)"
proof -
  obtain b a s1 w where *: "Instruction_SetUpSingle E (fst ob) s = (Inr b, s1)"
    "mmap_anon E (ma_size (snd ob)) (ps_world s1) = (Some a, w)"
    "MemoryAllocation_TearDownSingle E l
       (b, (snd ob)\<lparr>ma_addresses := a # ma_addresses (snd ob)\<rparr>) (s1\<lparr>ps_world := w\<rparr>) = (Inr ob', t)"
    using mem_single_cases [OF assms(3)] by metis
  have "a \<notin> live (ps_world s1)" "live w = insert a (live (ps_world s1))"
    using maps_spec_mmap [OF assms(1) *(2)] by auto
  then have o: "owns live L (b, (snd ob)\<lparr>ma_addresses := a # ma_addresses (snd ob)\<rparr>) (s1\<lparr>ps_world := w\<rparr>)"
    using assms(2) SetUpSingle_keeps_live [OF assms(1) *(1)] by (auto simp: owns_def)
  note td = TearDownSingle_Inr [OF assms(1) o *(3)]
  show "owns live L ob' t" by (rule td(1))
  show "ma_free_policy (snd ob') = ma_free_policy (snd ob)" using td(2) by simp
  show "length (ma_addresses (snd ob')) =
      (if ma_free_policy (snd ob) = kKeep \<or> (ma_free_policy (snd ob) = kFreeLastPeriod \<and> \<not> l)
       then Suc (length (ma_addresses (snd ob))) else 0)"
    unfolding td(3) by simp
qed

text \<open>Running it \<open>n\<close> times.\<close>

lemma mem_run_times:
  assumes "maps_spec E live" and "owns live L ob s" and "run_times (mem_single E) n ob s = (Inr ob', t)"
  shows "owns live L ob' t \<and> ma_free_policy (snd ob') = ma_free_policy (snd ob) \<and>
     (n \<noteq> 0 \<longrightarrow> length (ma_addresses (snd ob')) =
        (if ma_free_policy (snd ob) = kKeep then length (ma_addresses (snd ob)) + n else 0))"
  using assms(2,3)
proof (induction n arbitrary: ob s)
  case (Suc n)
  then obtain o1 s1 where i: "mem_single E (n = 0) ob s = (Inr o1, s1)"
      and rest: "run_times (mem_single E) n o1 s1 = (Inr ob', t)"
    by (auto simp: bindC_Inr_iff)
  note e = mem_single_effect [OF assms(1) Suc.prems(1) i]
  note r = Suc.IH [OF e(1) rest]
  show ?case
  proof (cases n)
    case 0
    then have "ob' = o1" "t = s1" using rest by simp_all
    then show ?thesis using e 0 by (cases "ma_free_policy (snd ob)") auto
  next
    case (Suc m)
    then show ?thesis using r e by (cases "ma_free_policy (snd ob)") auto
  qed
qed simp


lemma sample_maps: "maps_spec sample_env (\<lambda>w. set (sw_maps w))"
proof -
  have "a \<in> set xs \<Longrightarrow> a \<le> foldr max xs (0 :: int)" for a xs by (induction xs) auto
  then have "1 + foldr max xs 0 \<notin> set xs" for xs :: "int list" by force
  then show ?thesis
    by (auto simp: maps_spec_def sample_env_def sample_mmap_def sample_munmap_def sample_clock_def
        log_call_def Let_def)
qed

definition sample_mem :: mem_obj where
  "sample_mem = MemoryAllocation_ctor \<lparr>pr_repeat = 2, pr_period_us = 0, pr_offset_us = 0\<rparr> 4096 kFreeLastPeriod"

lemma sample_mem_runs:
  "\<exists>ob' t. Instruction_Run fst (inherit (Instruction_SetUpSingle sample_env)) (MemoryAllocation_RunSingle sample_env)
           (MemoryAllocation_TearDownSingle sample_env) sample_mem sample_state = (Inr ob', t)"
proof -
  have "\<not> isl (fst (Instruction_Run fst (inherit (Instruction_SetUpSingle sample_env))
      (MemoryAllocation_RunSingle sample_env) (MemoryAllocation_TearDownSingle sample_env)
      sample_mem sample_state))"
    by code_simp
  then show ?thesis using not_isl_Inr by blast
qed


lemma deallocate_silent [silent_intros]: "silent (deallocate_memory E as n)"
  by (induction as) (auto intro!: silent_intros)

lemma mem_single_unmeasured:
  assumes "mem_single E l ob s = (Inr ob', t)" and "trace_good E"
  shows "ts_samples (ib_sampler (fst ob')) = ts_samples (ib_sampler (fst ob)) \<and>
         same_params (fst ob) (fst ob') \<and>
         ps_trace t = ps_trace s @ [begin_mark (env_pid E) (ib_name (fst ob))]"
proof -
  obtain b a s1 w where *: "Instruction_SetUpSingle E (fst ob) s = (Inr b, s1)"
    "MemoryAllocation_TearDownSingle E l
       (b, (snd ob)\<lparr>ma_addresses := a # ma_addresses (snd ob)\<rparr>) (s1\<lparr>ps_world := w\<rparr>) = (Inr ob', t)"
    using mem_single_cases [OF assms(1)] by metis
  have td: "silent (MemoryAllocation_TearDownSingle E l x)" for x
    unfolding MemoryAllocation_TearDownSingle_def
    by (auto intro!: silent_intros split: free_policy.splits)
  have "ps_trace t = ps_trace s1"
    using td *(2) unfolding silent_def by (metis pstate.select_convs(3) pstate.surjective
        pstate.update_convs(1) snd_conv)
  moreover have "ps_trace s1 = ps_trace s @ [begin_mark (env_pid E) (ib_name (fst ob))]"
    using SetUpSingle_trace [OF *(1)] assms(2) by simp
  moreover have "fst ob' = b"
    using *(2) by (auto simp: MemoryAllocation_TearDownSingle_def bindC_Inr_iff)
  ultimately show ?thesis using set_up_base_effect [of E "fst ob" b] *(1) by auto
qed

text \<open>
  \<open>MemoryAllocation\<close> overrides \<^verbatim>\<open>TearDownSingle\<close> without calling the base class, so a run takes
  no sample of the duration and leaves every trace span it began open.
\<close>

theorem MemoryAllocation_is_not_measured:
  assumes "trace_good E"
    and "Instruction_Run fst (inherit (Instruction_SetUpSingle E)) (MemoryAllocation_RunSingle E)
           (MemoryAllocation_TearDownSingle E) ob s = (Inr ob', t)"
  shows "ts_samples (ib_sampler (fst ob')) = ts_samples (ib_sampler (fst ob)) \<and>
         ps_trace t = ps_trace s @
           replicate (nat (ib_repeat (fst ob))) (begin_mark (env_pid E) (ib_name (fst ob)))"
proof -
  have "run_times (mem_single E) n ob s = (Inr ob', t) \<Longrightarrow>
      ts_samples (ib_sampler (fst ob')) = ts_samples (ib_sampler (fst ob)) \<and>
      ps_trace t = ps_trace s @ replicate n (begin_mark (env_pid E) (ib_name (fst ob)))" for n
  proof (induction n arbitrary: ob s)
    case (Suc n)
    then obtain o1 s1 where i: "mem_single E (n = 0) ob s = (Inr o1, s1)"
        and rest: "run_times (mem_single E) n o1 s1 = (Inr ob', t)"
      by (auto simp: bindC_Inr_iff)
    have "ib_name (fst o1) = ib_name (fst ob)"
      using mem_single_unmeasured [OF i assms(1)] by (simp add: same_params_def)
    then show ?case using Suc.IH [OF rest] mem_single_unmeasured [OF i assms(1)] by simp
  qed simp
  then show ?thesis using assms(2) by (simp add: Instruction_Run_def mem_single_def)
qed

theorem MemoryAllocation_is_not_measured_witness:
  "\<exists>ob' t. Instruction_Run fst (inherit (Instruction_SetUpSingle sample_env))
       (MemoryAllocation_RunSingle sample_env) (MemoryAllocation_TearDownSingle sample_env)
       sample_mem sample_state = (Inr ob', t) \<and> ts_samples (ib_sampler (fst ob')) = [] \<and>
     ps_trace t = [begin_mark 42 ''memory_allocation'', begin_mark 42 ''memory_allocation'']"
proof -
  obtain ob' t where r: "Instruction_Run fst (inherit (Instruction_SetUpSingle sample_env))
      (MemoryAllocation_RunSingle sample_env) (MemoryAllocation_TearDownSingle sample_env)
      sample_mem sample_state = (Inr ob', t)"
    using sample_mem_runs by blast
  have "trace_good sample_env" "env_pid sample_env = 42" by (simp_all add: sample_env_def)
  then show ?thesis
    using MemoryAllocation_is_not_measured [OF _ r] r
    by (auto simp: sample_state_def sample_mem_def MemoryAllocation_ctor_def Instruction_ctor_def
        new_sampler_def numeral_2_eq_2)
qed

section \<open>Properties of locks\<close>

text \<open>
  A lock whose pointer is live hands the mutex of its variable to the system once, and
  touches no other variable; once the variables have outgrown their buffer, the same instruction
  uses a dangling pointer.
\<close>

theorem Lock_pointer_discipline:
  assumes "ptr_live (ps_vars s) p" and "sv_variables (ps_vars s) ! nat (snd p) = VMutex m"
    and "sys_LockMutex E p m (ps_world s) = ((0, m'), w)"
    and "vars_ok (ps_vars s)" and "ids \<noteq> []"
    and "find_key (sv_keys (ps_vars s)) (rev ids) name = None"
    and "length (sv_variables (ps_vars s)) = sv_capacity (ps_vars s)"
  shows "Lock_RunSingle E (Some p) s =
           (Inr (), s\<lparr>ps_world := w, ps_vars := (ps_vars s)\<lparr>sv_variables :=
              (sv_variables (ps_vars s))[nat (snd p) := VMutex m']\<rparr>\<rparr>) \<and>
         fst (bindC (varsC (GetKey ids name)) (\<lambda>_. Lock_RunSingle E (Some p)) s) = Inl (Undefined StalePointer)"
proof -
  obtain k sv' where k: "GetKey ids name (ps_vars s) = (Inr k, sv')" and b: "sv_buffer sv' \<noteq> sv_buffer (ps_vars s)"
    using assms(5,6,7) by (auto simp: GetKey_def Let_def grow_variables_def)
  then have "\<not> ptr_live sv' p" using assms(1) by (auto simp: ptr_live_def)
  then have "fst (bindC (varsC (GetKey ids name)) (\<lambda>_. Lock_RunSingle E (Some p)) s)
      = Inl (Undefined StalePointer)"
    by (simp add: bindC_app varsC_def k Lock_RunSingle_def on_mutex_def)
  then show ?thesis using assms(1,2,3) by (simp add: Lock_RunSingle_def bindC_app on_mutex_def fail_ifC_def)
qed

theorem Lock_pointer_discipline_witness:
  "let vars = \<lparr>sv_variables = [VMutex []], sv_capacity = 1, sv_buffer = 1, sv_keys = Map.empty\<rparr>;
       s = sample_state\<lparr>ps_vars := vars\<rparr>
   in fst (Lock_RunSingle sample_env (Some (1, 0)) s) = Inr () \<and>
      fst (bindC (varsC (GetKey [0] ''fd'')) (\<lambda>_. Lock_RunSingle sample_env (Some (1, 0))) s)
        = Inl (Undefined StalePointer)"
proof -
  let ?vars = "\<lparr>sv_variables = [VMutex []], sv_capacity = 1, sv_buffer = 1, sv_keys = Map.empty\<rparr>"
  have "vars_ok ?vars" by (simp add: vars_ok_def key_of_def)
  then show ?thesis
    using Lock_pointer_discipline [of "sample_state\<lparr>ps_vars := ?vars\<rparr>" "(1, 0)" "[]" sample_env "[]"
        "log_call ''lock'' [] (ps_world sample_state)" "[0]" "''fd''"]
    by (simp add: ptr_live_def valid_key_def sample_env_def)
qed

end
