(* ===== verification/Multithreading_Utils.thy ===== *)
theory Multithreading_Utils
  imports Instruction
begin

unbundle bit_operations_syntax

text \<open>
  \<^verbatim>\<open>src/multithreading_utils.cpp\<close> and \<^verbatim>\<open>include/ditto/multithreading_utils.h\<close>: what the threads and
  processes of a workload ask of the scheduler, and how a forked process is renamed.

  \<^verbatim>\<open>SchedAttr::sched_attr_\<close> has no initialiser, so the assignment takes the indeterminate old
  value as an argument. For the renaming, a process image is the addresses and contents of the
  strings of \<^verbatim>\<open>argv\<close> and \<^verbatim>\<open>environ\<close>, and whether the array \<^verbatim>\<open>environ\<close> ends with a null pointer.
\<close>

section \<open>Scheduling attributes\<close>

datatype sched_policy =
  SchedNormal | SchedFifo | SchedRr | SchedBatch | SchedIdle | SchedDeadline

fun policy_number :: "sched_policy \<Rightarrow> u32" where
  "policy_number SchedNormal = 0"
| "policy_number SchedFifo = 1"
| "policy_number SchedRr = 2"
| "policy_number SchedBatch = 3"
| "policy_number SchedIdle = 5"
| "policy_number SchedDeadline = 6"

text \<open>The protobuf messages of \<^verbatim>\<open>schema/benchmark.proto\<close>.\<close>

datatype other_policy = OTHER | BATCH
datatype rt_policy = FIFO | RR

datatype pb_attributes =
    PbOther other_policy int
  | PbRt rt_policy u32
  | PbDeadline u64 u64 u64
  | PbAttributesNotSet

record pb_sched_attr =
  pb_flags :: u64
  pb_attributes :: pb_attributes

record sched_attr =
  sc_initialized :: bool
  sc_raw :: sched_attr_raw

definition SchedAttr_IsSet :: "sched_attr \<Rightarrow> bool" where
  "SchedAttr_IsSet a = sc_initialized a"

definition sched_attr_to_string :: "sched_attr_raw \<Rightarrow> string" where
  "sched_attr_to_string a =
     ''size: '' @ show_nat (unat (sa_size a)) @ '', policy: '' @ show_nat (unat (sa_policy a)) @
     '', flags: '' @ show_nat (unat (sa_flags a)) @ '', nice: '' @ show_int (sa_nice a) @
     '', priority: '' @ show_nat (unat (sa_priority a)) @ '', runtime: '' @ show_nat (unat (sa_runtime a)) @
     '', deadline: '' @ show_nat (unat (sa_deadline a)) @ '', period: '' @ show_nat (unat (sa_period a))"

text \<open>\<^verbatim>\<open>Syscall::SchedSetattr\<close> is the one method of \<^verbatim>\<open>src/syscall.cpp\<close> the sources use that checks its call.\<close>

definition Syscall_SchedSetattr :: "('w, 'g) env \<Rightarrow> int \<Rightarrow> sched_attr_raw \<Rightarrow> u32 \<Rightarrow> ('w, int) act" where
  "Syscall_SchedSetattr E pid attr flags =
     bindC (sysC (sys_SchedSetattr E pid attr flags)) (\<lambda>ret.
     bindC (fail_ifC (ret = -1) (Plogf ''Error calling syscall(__NR_sched_setattr)'')) (\<lambda>_. returnC ret))"

definition SchedAttr_Set :: "('w, 'g) env \<Rightarrow> sched_attr \<Rightarrow> ('w, unit) act" where
  "SchedAttr_Set E a =
     bindC (fail_ifC (\<not> sc_initialized a) (Logf ''Setting uninitialized scheduling attributes'')) (\<lambda>_.
     bindC (Syscall_SchedSetattr E 0 (sc_raw a) 0) (\<lambda>ret.
     fail_ifC (ret \<noteq> 0)
       (Plogf (''Failed setting scheduling attributes '' @ [CHR 0x0A] @
               sched_attr_to_string (sc_raw a) @ [CHR 0x0A]))))"

definition SchedAttr_assign :: "sched_attr_raw \<Rightarrow> pb_sched_attr \<Rightarrow> sched_attr res" where
  "SchedAttr_assign old pb =
     (let a = old\<lparr>sa_size := 48, sa_flags := pb_flags pb\<rparr> in
      bindR (case pb_attributes pb of
          PbOther policy nice \<Rightarrow>
            Inr (a\<lparr>sa_policy := policy_number (case policy of OTHER \<Rightarrow> SchedNormal | BATCH \<Rightarrow> SchedBatch),
                   sa_nice := nice\<rparr>)
        | PbRt policy priority \<Rightarrow>
            let a = a\<lparr>sa_policy := policy_number (case policy of FIFO \<Rightarrow> SchedFifo | RR \<Rightarrow> SchedRr)\<rparr>
            in if priority < 1 \<or> priority > 99
               then Inl (Logf ''Scheduling priority should be in the range [1, 99]'')
               else Inr (a\<lparr>sa_priority := priority\<rparr>)
        | PbDeadline runtime deadline period \<Rightarrow>
            Inr (a\<lparr>sa_policy := policy_number SchedDeadline, sa_runtime := runtime,
                   sa_deadline := deadline, sa_period := period\<rparr>)
        | PbAttributesNotSet \<Rightarrow> Inl (Logf ''Missing scheduling attribute''))
        (\<lambda>a. Inr \<lparr>sc_initialized = True, sc_raw = a\<rparr>))"

section \<open>CPU affinity\<close>

record sched_affinity =
  sf_initialized :: bool
  sf_mask :: u64

text \<open>The loop over the bits: \<open>n\<close> rounds left, the next CPU is \<open>i\<close>.\<close>

fun affinity_loop :: "nat \<Rightarrow> nat \<Rightarrow> u64 \<Rightarrow> nat list \<Rightarrow> nat list" where
  "affinity_loop 0 i tmp_bitset cpus = cpus"
| "affinity_loop (Suc n) i tmp_bitset cpus =
     affinity_loop n (Suc i) (drop_bit 1 tmp_bitset)
       (if tmp_bitset AND 1 \<noteq> 0 then cpus @ [i] else cpus)"

definition SchedAffinity_IsSet :: "sched_affinity \<Rightarrow> bool" where
  "SchedAffinity_IsSet a = sf_initialized a"

definition SchedAffinity_Set :: "('w, 'g) env \<Rightarrow> sched_affinity \<Rightarrow> ('w, unit) act" where
  "SchedAffinity_Set E a =
     bindC (fail_ifC (\<not> sf_initialized a) (Logf ''Setting uninitialized affinity attributes'')) (\<lambda>_.
     bindC (sysC (sched_setaffinity E (set (affinity_loop 64 0 (sf_mask a) [])))) (\<lambda>ret.
     fail_ifC (ret \<noteq> 0) (Plogf ''Failed setting scheduling affinity'')))"

definition SchedAffinity_assign :: "u64 \<Rightarrow> sched_affinity res" where
  "SchedAffinity_assign m =
     (if m = 0 then Inl (Logf ''Empty CPU affinity mask'')
      else Inr \<lparr>sf_initialized = True, sf_mask = m\<rparr>)"

record thread_params =
  tp_name :: string
  tp_sched_attr :: sched_attr
  tp_sched_affinity :: sched_affinity

section \<open>Renaming a process\<close>

record process_image =
  pi_argv :: "(int \<times> string) list"
  pi_environ :: "(int \<times> string) list option"
  pi_environ_terminated :: bool

definition string_end :: "int \<times> string \<Rightarrow> int" where
  "string_end p = fst p + int (length (snd p))"

text \<open>
  \<^verbatim>\<open>move_environ\<close>: the copies of the strings live at \<open>new_address i\<close>; the new array has one slot
  per string, none for the terminating null pointer. Both of its loops walk the old array to its null
  pointer. The result is converted from \<^verbatim>\<open>unsigned int\<close>.
\<close>

definition move_environ ::
  "(nat \<Rightarrow> int) \<Rightarrow> process_image \<Rightarrow> (int \<times> process_image) res" where
  "move_environ new_address p =
     (case pi_environ p of
        None \<Rightarrow> Inr (narrow32 (string_end (last (pi_argv p)) - fst (hd (pi_argv p))), p)
      | Some env \<Rightarrow>
          if \<not> pi_environ_terminated p then Inl (Undefined OutOfBounds)
          else let env_last_id = length env;
                   argv_strings_size =
                     (if env_last_id > 0 then string_end (env ! (env_last_id - 1)) - fst (hd (pi_argv p))
                      else string_end (last (pi_argv p)) - fst (hd (pi_argv p)))
               in Inr (narrow32 argv_strings_size,
                       p\<lparr>pi_environ := Some (map (\<lambda>i. (new_address i, snd (env ! i))) [0..<env_last_id]),
                         pi_environ_terminated := False\<rparr>))"

text \<open>
  \<^verbatim>\<open>memset(argv[0], 0, n)\<close> and \<^verbatim>\<open>snprintf(argv[0], n - 1, "%s", title)\<close>: the bytes they leave
  from the address \<^verbatim>\<open>argv[0]\<close> on. The subtraction is on \<^verbatim>\<open>size_t\<close> and wraps; \<^verbatim>\<open>snprintf\<close> with size 0
  writes nothing.
\<close>

definition title_bytes :: "u64 \<Rightarrow> string \<Rightarrow> string" where
  "title_bytes available_size title =
     (let zeros = replicate (unat available_size) nul; n = unat (available_size - 1);
          printed = (if n = 0 then [] else take (n - 1) title @ [nul])
      in printed @ drop (length printed) zeros)"

definition setproctitle ::
  "(nat \<Rightarrow> int) \<Rightarrow> process_image \<Rightarrow> string \<Rightarrow> (string \<times> process_image) res" where
  "setproctitle new_address p title =
     (let available_size = word_of_nat (length (snd (hd (pi_argv p)))) :: u64;
          argv_size = word_of_int (string_end (last (pi_argv p)) - fst (hd (pi_argv p))) :: u64
      in if available_size < argv_size
         then bindR (move_environ new_address p) (\<lambda>(sz, p'). Inr (title_bytes (word_of_int sz) title, p'))
         else Inr (title_bytes available_size title, p))"

section \<open>Properties\<close>

lemma affinity_loop_set:
  "set (affinity_loop n i w cpus) = set cpus \<union> {i + j | j. j < n \<and> bit w j}"
proof (induction n arbitrary: i w cpus)
  case (Suc n)
  have low: "w AND 1 \<noteq> 0 \<longleftrightarrow> bit w 0"
    by (simp add: and_one_eq bit_0 odd_iff_mod_2_eq_one)
  have shift: "{i + j | j. j < Suc n \<and> bit w j} =
      (if bit w 0 then {i} else {}) \<union> {Suc i + j | j. j < n \<and> bit (drop_bit 1 w) j}"
    by (auto simp: bit_drop_bit_eq less_Suc_eq_0_disj)
  show ?case unfolding affinity_loop.simps Suc.IH low shift by auto
qed simp

text \<open>
  \<^verbatim>\<open>syscall\<close> returns 0 or -1 here, and -1 already ends the process in \<^verbatim>\<open>Syscall::SchedSetattr\<close>: the check
  in \<^verbatim>\<open>SchedAttr::Set\<close>, which would print the attributes, is never reached with a failure.
\<close>

theorem SchedAttr_Set_reports_no_attributes:
  assumes "fst (sys_SchedSetattr E 0 (sc_raw a) 0 (ps_world s)) \<in> {0, -1}" and "sc_initialized a"
  shows "fst (SchedAttr_Set E a s) =
    (if fst (sys_SchedSetattr E 0 (sc_raw a) 0 (ps_world s)) = 0 then Inr ()
     else Inl (Plogf ''Error calling syscall(__NR_sched_setattr)''))"
  using assms by (auto simp: SchedAttr_Set_def Syscall_SchedSetattr_def bindC_app fail_ifC_def sysC_app)

text \<open>
  The kernel is asked for exactly the CPUs whose bit is set in the mask, and an accepted
  mask names at least one.
\<close>

theorem SchedAffinity_cpus:
  assumes "SchedAffinity_assign m = Inr a"
  shows "SchedAffinity_Set E a s =
     (case sched_setaffinity E {i. i < 64 \<and> bit m i} (ps_world s) of (ret, w) \<Rightarrow>
        if ret \<noteq> 0 then (Inl (Plogf ''Failed setting scheduling affinity''), s\<lparr>ps_world := w\<rparr>)
        else (Inr (), s\<lparr>ps_world := w\<rparr>)) \<and> {i. i < 64 \<and> bit m i} \<noteq> {}"
proof -
  have a: "a = \<lparr>sf_initialized = True, sf_mask = m\<rparr>" "m \<noteq> 0"
    using assms by (auto simp: SchedAffinity_assign_def split: if_splits)
  have cpus: "set (affinity_loop 64 0 m []) = {i. i < 64 \<and> bit m i}"
    by (simp add: affinity_loop_set)
  have "\<exists>i. bit m i" using a(2) by (metis bit_eq_iff bit_0_eq bot_apply bot_bool_def)
  moreover have "i < 64" if "bit m i" for i using bit_imp_le_length [OF that] by simp
  ultimately have "\<exists>i. i < 64 \<and> bit m i" by blast
  then show ?thesis
    by (simp add: SchedAffinity_Set_def a(1) bindC_app fail_ifC_def sysC_def cpus split: prod.splits)
qed

theorem SchedAffinity_cpus_witness:
  "\<exists>a. SchedAffinity_assign 10 = Inr a \<and> fst (SchedAffinity_Set sample_env a sample_state) = Inr ()"
proof -
  obtain a where a: "SchedAffinity_assign 10 = Inr a" by (simp add: SchedAffinity_assign_def)
  show ?thesis using SchedAffinity_cpus [OF a, of sample_env sample_state] a by (simp add: sample_env_def)
qed

lemma word_not_zero_ge: "(x :: 'a :: len word) \<noteq> 0 \<longleftrightarrow> 1 \<le> x"
  by (metis linorder_not_less word_less_1)

lemma small_words_less:
  fixes d :: int
  assumes "int a < d" and "d < 2 ^ 31"
  shows "(word_of_nat a :: u64) < word_of_int d"
proof -
  have "(word_of_nat a :: u64) = word_of_int (int a)" by simp
  moreover have "uint (word_of_int (int a) :: u64) = int a"
    by (subst uint_word_of_int) (use assms in simp)
  moreover have "uint (word_of_int d :: u64) = d"
    by (subst uint_word_of_int) (use assms in simp)
  ultimately show ?thesis using assms(1) by (simp add: word_less_def)
qed

text \<open>
  An accepted scheduling attribute has the policy, flags and parameters of the configuration
  and a real-time priority from 1 to 99; but the fields that belong to the other policies keep
  the value the uninitialised member had, and are passed to the kernel.
\<close>

theorem SchedAttr_assign_fields:
  assumes "SchedAttr_assign old pb = Inr a"
  shows "sc_initialized a \<and> sa_size (sc_raw a) = 48 \<and> sa_flags (sc_raw a) = pb_flags pb \<and>
    (case pb_attributes pb of
       PbOther policy nice \<Rightarrow> sa_nice (sc_raw a) = nice \<and> sa_priority (sc_raw a) = sa_priority old \<and>
         sa_runtime (sc_raw a) = sa_runtime old \<and> sa_policy (sc_raw a) \<in> {0, 3}
     | PbRt policy priority \<Rightarrow> sa_priority (sc_raw a) = priority \<and> 1 \<le> priority \<and> priority \<le> 99 \<and>
         sa_nice (sc_raw a) = sa_nice old \<and> sa_policy (sc_raw a) \<in> {1, 2}
     | PbDeadline runtime deadline period \<Rightarrow> sa_runtime (sc_raw a) = runtime \<and>
         sa_deadline (sc_raw a) = deadline \<and> sa_period (sc_raw a) = period \<and>
         sa_priority (sc_raw a) = sa_priority old \<and> sa_policy (sc_raw a) = 6
     | PbAttributesNotSet \<Rightarrow> False)"
  using assms
  by (cases "pb_attributes pb")
    (auto simp: SchedAttr_assign_def Let_def word_not_zero_ge split: if_splits other_policy.splits rt_policy.splits)

definition sample_raw :: "int \<Rightarrow> sched_attr_raw" where
  "sample_raw garbage =
     \<lparr>sa_size = 0, sa_policy = 0, sa_flags = 0, sa_nice = garbage, sa_priority = word_of_int garbage,
      sa_runtime = 0, sa_deadline = 0, sa_period = 0\<rparr>"

theorem SchedAttr_assign_fields_witness:
  "\<exists>a. SchedAttr_assign (sample_raw 7) \<lparr>pb_flags = 0, pb_attributes = PbRt FIFO 42\<rparr> = Inr a \<and>
     sa_priority (sc_raw a) = 42 \<and> sa_nice (sc_raw a) = 7"
proof -
  let ?pb = "\<lparr>pb_flags = 0, pb_attributes = PbRt FIFO 42\<rparr>"
  obtain a where a: "SchedAttr_assign (sample_raw 7) ?pb = Inr a"
    by (simp add: SchedAttr_assign_def Let_def)
  then show ?thesis using SchedAttr_assign_fields [OF a] by (auto simp: sample_raw_def)
qed

text \<open>
  The renaming writes at most the bytes it computed to be available and leaves the title,
  cut to two bytes less, when there are at least two of them; with none, the subtraction
  wraps and the whole title is written past the end.
\<close>

theorem title_bytes_bounds:
  "(0 < available \<longrightarrow> length (title_bytes available title) = unat available) \<and>
   (1 < available \<longrightarrow>
      (\<exists>zeros. title_bytes available title = take (unat available - 2) title @ nul # zeros)) \<and>
   (available = 0 \<longrightarrow> length title < 2 ^ 64 - 1 \<longrightarrow> title_bytes available title = title @ [nul])"
proof -
  have pred: "unat (available - 1) = unat available - 1" if "0 < available"
    using that by (simp add: unat_minus_one word_gt_0_no word_neq_0_conv)
  have "length (title_bytes available title) = unat available" if "0 < available"
  proof -
    have "0 < unat available" using that by (simp add: word_less_nat_alt)
    then show ?thesis using pred [OF that] by (auto simp: title_bytes_def Let_def)
  qed
  moreover have "\<exists>zeros. title_bytes available title = take (unat available - 2) title @ nul # zeros"
    if "1 < available"
  proof -
    have "1 < unat available" using that by (simp add: word_less_nat_alt)
    moreover have "0 < available" using that by (metis word_gt_0 word_not_simps(1))
    ultimately show ?thesis
      using pred by (auto simp: title_bytes_def Let_def numeral_2_eq_2)
  qed
  moreover have "title_bytes 0 title = title @ [nul]" if "length title < 2 ^ 64 - 1"
  proof -
    have "unat (- 1 :: u64) = 2 ^ 64 - 1" by (simp add: unsigned_minus_1_eq_mask mask_eq_exp_minus_1)
    then show ?thesis using that by (simp add: title_bytes_def Let_def)
  qed
  ultimately show ?thesis by blast
qed

theorem title_bytes_bounds_witness:
  "length (title_bytes 6 ''worker'') = 6 \<and>
   (\<exists>zeros. title_bytes 6 ''worker'' = ''work'' @ nul # zeros) \<and> title_bytes 0 ''w'' = ''w'' @ [nul]"
  using title_bytes_bounds [of 6 "''worker''"] title_bytes_bounds [of 0 "''w''"] by simp

text \<open>
  A command line of at least two strings makes \<^verbatim>\<open>setproctitle\<close> move the environment whatever
  the length of the title, and the moved array has no terminating null pointer: the next call
  reads past its end.
\<close>

theorem setproctitle_moves_environ:
  assumes "pi_argv p = a0 # rest" and "rest \<noteq> []" and "pi_environ p = Some env"
    and "pi_environ_terminated p"
    and "string_end a0 < string_end (last rest)" and "string_end (last rest) - fst a0 < 2 ^ 31"
  shows "\<exists>bytes p'. setproctitle f p title = Inr (bytes, p') \<and>
           map snd (the (pi_environ p')) = map snd env \<and> pi_argv p' = pi_argv p \<and>
           setproctitle g p' title' = Inl (Undefined OutOfBounds)"
proof -
  let ?d = "string_end (last rest) - fst a0"
  have d: "int (length (snd a0)) < ?d" "?d < 2 ^ 31" "0 \<le> ?d"
    using assms(5,6) by (simp_all add: string_end_def)
  have less: "(word_of_nat (length (snd a0)) :: u64) < word_of_int ?d"
    by (rule small_words_less [OF d(1,2)])
  obtain bytes p' where p': "setproctitle f p title = Inr (bytes, p')"
      "p' = p\<lparr>pi_environ := Some (map (\<lambda>i. (f i, snd (env ! i))) [0..<length env]),
             pi_environ_terminated := False\<rparr>"
    using assms(1-4) less by (simp add: setproctitle_def move_environ_def Let_def)
  have "map snd (map (\<lambda>i. (f i, snd (env ! i))) [0..<length env]) = map snd env"
    by (rule nth_equalityI) simp_all
  moreover have "setproctitle g p' title' = Inl (Undefined OutOfBounds)"
    using p'(2) assms(1,2) less by (simp add: setproctitle_def move_environ_def Let_def)
  ultimately show ?thesis using p' by auto
qed

theorem setproctitle_moves_environ_witness:
  "let p = \<lparr>pi_argv = [(100, ''dittobench''), (111, ''a.ditto'')], pi_environ = Some [(119, ''HOME=/'')],
            pi_environ_terminated = True\<rparr>
   in \<exists>bytes p'. setproctitle (\<lambda>i. 5000 + int i) p ''t'' = Inr (bytes, p') \<and>
        setproctitle (\<lambda>i. 6000 + int i) p' ''t'' = Inl (Undefined OutOfBounds)"
proof -
  define p where "p = \<lparr>pi_argv = [(100, ''dittobench''), (111, ''a.ditto'')],
      pi_environ = Some [(119, ''HOME=/'')], pi_environ_terminated = True\<rparr>"
  have "\<exists>bytes p'. setproctitle (\<lambda>i. 5000 + int i) p ''t'' = Inr (bytes, p') \<and>
      map snd (the (pi_environ p')) = map snd [(119 :: int, ''HOME=/'')] \<and> pi_argv p' = pi_argv p \<and>
      setproctitle (\<lambda>i. 6000 + int i) p' ''t'' = Inl (Undefined OutOfBounds)"
    by (rule setproctitle_moves_environ [of p "(100, ''dittobench'')" "[(111, ''a.ditto'')]"])
      (simp_all add: p_def string_end_def)
  then show ?thesis unfolding p_def [symmetric] Let_def by blast
qed

end
