(* ===== verification/Engine.thy ===== *)
theory Engine
  imports ReadWrite_File File_Instructions Work_Instructions Multithreading_Utils Results
begin

text \<open>
  The tree of instructions and how it runs: the virtual methods of \<^verbatim>\<open>Instruction\<close> dispatched over
  all classes, \<^verbatim>\<open>src/instruction_set.cpp\<close>, \<^verbatim>\<open>src/multithreading.cpp\<close>, and the rest of
  \<^verbatim>\<open>src/instruction.cpp\<close> (\<^verbatim>\<open>RunSynchronized\<close>, \<^verbatim>\<open>SpawnThread\<close>, \<^verbatim>\<open>CollectResults\<close>).

  An object of a class without children is a \<open>Leaf\<close>: the fields of the base class and those of
  the class. The children of \<open>InstructionSet\<close> and \<open>Multithreading\<close> change when they run, so a
  run returns the changed tree, and the recursion of the virtual methods goes down the levels of
  the tree: \<open>vRunSingle E n\<close> may go down \<open>n\<close> levels. \<open>depth\<close> counts the levels of a tree; the
  properties show that the methods keep them and that \<open>depth\<close> levels are enough.

  Threads are interleaved at the granularity of the methods \<^verbatim>\<open>SetUpSingle\<close>, \<^verbatim>\<open>RunSingle\<close> and
  \<^verbatim>\<open>TearDownSingle\<close> of the instruction a thread runs; the scheduler is the parameter
  \<open>pick_thread\<close>. The main thread does nothing between the creation of the threads and the joins,
  so the threads are run at the joins.
\<close>

section \<open>The classes\<close>

datatype 'g leaf =
    OpenFile "'g open_file"
  | CloseFile int
  | DeleteFile delete_file
  | ResizeFile "'g resize_file"
  | ResizeFileRandom "'g resize_file"
  | WriteFile bool "'g rw_file"
  | ReadFile int "'g rw_file"
  | ReadDirectory read_directory
  | InvalidateCache
  | CpuWorkCycles u64
  | CpuWorkUtilization timespec
  | CpuWorkDurationUs timespec
  | MemoryAllocation mem_alloc
  | Lock "var_ptr option"
  | Unlock "var_ptr option"

record 'g iset =
  is_list_key :: int
  is_item_key :: int
  is_access_order :: order_kind
  is_reseeding :: reseeding_kind
  is_seed :: u64
  is_gen :: 'g

text \<open>
  What a thread has left to do: \<^verbatim>\<open>RunSynchronized\<close> up to the barrier, then the three steps of
  every iteration of \<^verbatim>\<open>Run\<close>.
\<close>

datatype phase = Enter | SetUpPhase | RunPhase | TearDownPhase bool

record mt_fields =
  mt_params :: "thread_params list"
  mt_threads :: "phase list list"

datatype 'g instr =
    Leaf ibase "'g leaf"
  | InstructionSet ibase "'g iset" "'g instr list"
  | Multithreading ibase mt_fields "'g instr list"

fun in_base :: "'g instr \<Rightarrow> ibase" where
  "in_base (Leaf b k) = b"
| "in_base (InstructionSet b f cs) = b"
| "in_base (Multithreading b m cs) = b"

text \<open>
  The two constructors of \<^verbatim>\<open>InstructionSet\<close>. The second one leaves \<^verbatim>\<open>access_order_\<close>,
  \<^verbatim>\<open>reseeding_\<close> and \<^verbatim>\<open>seed_\<close> uninitialised: their values are arguments here.
\<close>

definition InstructionSet_ctor ::
  "('w, 'g) env \<Rightarrow> params \<Rightarrow> 'g instr list \<Rightarrow> int \<Rightarrow> int \<Rightarrow> order_kind \<Rightarrow> reseeding_kind \<Rightarrow> u32 \<Rightarrow> 'g instr"
where
  "InstructionSet_ctor E p instructions list_key item_key access_order reseeding seed =
     InstructionSet (Instruction_ctor ''instruction_set'' p)
       \<lparr>is_list_key = list_key, is_item_key = item_key, is_access_order = access_order,
        is_reseeding = reseeding, is_seed = ucast seed, is_gen = rng_seed E (ucast seed)\<rparr> instructions"

definition InstructionSet_plain_ctor ::
  "('w, 'g) env \<Rightarrow> order_kind \<Rightarrow> reseeding_kind \<Rightarrow> u32 \<Rightarrow> params \<Rightarrow> 'g instr list \<Rightarrow> 'g instr" where
  "InstructionSet_plain_ctor E junk_order junk_reseeding junk_seed p instructions =
     InstructionSet (Instruction_ctor ''instruction_set'' p)
       \<lparr>is_list_key = -1, is_item_key = -1, is_access_order = junk_order, is_reseeding = junk_reseeding,
        is_seed = ucast junk_seed, is_gen = rng_seed E 5489\<rparr> instructions"

definition Multithreading_ctor :: "params \<Rightarrow> 'g instr list \<Rightarrow> thread_params list \<Rightarrow> 'g instr" where
  "Multithreading_ctor p instructions params =
     Multithreading (Instruction_ctor ''multithreading'' p) \<lparr>mt_params = params, mt_threads = []\<rparr> instructions"

section \<open>The virtual methods of the leaves\<close>

text \<open>A method of a class, on the objects of that class.\<close>

definition leafC ::
  "('f \<Rightarrow> 'g leaf) \<Rightarrow> (ibase \<times> 'f \<Rightarrow> ('w, ibase \<times> 'f) act) \<Rightarrow> ibase \<Rightarrow> 'f \<Rightarrow> ('w, ibase \<times> 'g leaf) act"
where
  "leafC C m b f = bindC (m (b, f)) (\<lambda>(b', f'). returnC (b', C f'))"

definition leaf_SetUp :: "('w, 'g) env \<Rightarrow> ibase \<times> 'g leaf \<Rightarrow> ('w, ibase \<times> 'g leaf) act" where
  "leaf_SetUp E ob =
     (case ob of (b, k) \<Rightarrow> case k of
        WriteFile fsync f \<Rightarrow> leafC (WriteFile fsync) (ReadWriteFile_SetUp E) b f
      | ReadFile fadvise f \<Rightarrow> leafC (ReadFile fadvise) (ReadWriteFile_SetUp E) b f
      | ResizeFileRandom f \<Rightarrow> leafC ResizeFileRandom (ResizeFileRandom_SetUp E) b f
      | _ \<Rightarrow> inherit (Instruction_SetUp E) (b, k))"

definition leaf_SetUpSingle :: "('w, 'g) env \<Rightarrow> ibase \<times> 'g leaf \<Rightarrow> ('w, ibase \<times> 'g leaf) act" where
  "leaf_SetUpSingle E ob =
     (case ob of (b, k) \<Rightarrow> case k of
        OpenFile f \<Rightarrow> leafC OpenFile (OpenFile_SetUpSingle E) b f
      | DeleteFile f \<Rightarrow> leafC DeleteFile (DeleteFile_SetUpSingle E) b f
      | ResizeFileRandom f \<Rightarrow> leafC ResizeFileRandom (ResizeFileRandom_SetUpSingle E) b f
      | WriteFile fsync f \<Rightarrow> leafC (WriteFile fsync) (ReadWriteFile_SetUpSingle E) b f
      | ReadFile fadvise f \<Rightarrow> leafC (ReadFile fadvise) (ReadFile_SetUpSingle E fadvise) b f
      | _ \<Rightarrow> inherit (Instruction_SetUpSingle E) (b, k))"

definition leaf_RunSingle :: "('w, 'g) env \<Rightarrow> ibase \<times> 'g leaf \<Rightarrow> ('w, ibase \<times> 'g leaf) act" where
  "leaf_RunSingle E ob =
     (case ob of (b, k) \<Rightarrow> case k of
        OpenFile f \<Rightarrow> leafC OpenFile (OpenFile_RunSingle E) b f
      | CloseFile key \<Rightarrow> inherit (run_work (CloseFile_RunSingle E key)) (b, k)
      | DeleteFile f \<Rightarrow> leafC DeleteFile (DeleteFile_RunSingle E) b f
      | ResizeFile f \<Rightarrow> leafC ResizeFile (ResizeFile_RunSingle E) b f
      | ResizeFileRandom f \<Rightarrow> leafC ResizeFileRandom (ResizeFile_RunSingle E) b f
      | WriteFile fsync f \<Rightarrow> leafC (WriteFile fsync) (WriteFile_RunSingle E fsync) b f
      | ReadFile fadvise f \<Rightarrow> leafC (ReadFile fadvise) (ReadFile_RunSingle E) b f
      | ReadDirectory f \<Rightarrow> leafC ReadDirectory (ReadDirectory_RunSingle E) b f
      | InvalidateCache \<Rightarrow> inherit (run_work (InvalidateCache_RunSingle E)) (b, k)
      | CpuWorkCycles cycles \<Rightarrow> inherit (run_work (CpuWorkCycles_RunSingle cycles)) (b, k)
      | CpuWorkUtilization work_time \<Rightarrow> inherit (run_work (threadWaitAbsoluteTime E work_time)) (b, k)
      | CpuWorkDurationUs work_time \<Rightarrow> inherit (run_work (threadWaitAbsoluteTime E work_time)) (b, k)
      | MemoryAllocation f \<Rightarrow> leafC MemoryAllocation (MemoryAllocation_RunSingle E) b f
      | Lock mutex \<Rightarrow> inherit (run_work (Lock_RunSingle E mutex)) (b, k)
      | Unlock mutex \<Rightarrow> inherit (run_work (Unlock_RunSingle E mutex)) (b, k))"

definition leaf_TearDownSingle ::
  "('w, 'g) env \<Rightarrow> bool \<Rightarrow> ibase \<times> 'g leaf \<Rightarrow> ('w, ibase \<times> 'g leaf) act" where
  "leaf_TearDownSingle E is_last ob =
     (case ob of (b, k) \<Rightarrow> case k of
        WriteFile fsync f \<Rightarrow> leafC (WriteFile fsync) (ReadWriteFile_TearDownSingle E is_last) b f
      | ReadFile fadvise f \<Rightarrow> leafC (ReadFile fadvise) (ReadWriteFile_TearDownSingle E is_last) b f
      | MemoryAllocation f \<Rightarrow> leafC MemoryAllocation (MemoryAllocation_TearDownSingle E is_last) b f
      | _ \<Rightarrow> inherit (Instruction_TearDownSingle E is_last) (b, k))"

definition to_leaf :: "ibase \<times> 'g leaf \<Rightarrow> 'g instr" where
  "to_leaf ob = Leaf (fst ob) (snd ob)"

definition mapC_result :: "('a \<Rightarrow> 'b) \<Rightarrow> ('s, 'a) comp \<Rightarrow> ('s, 'b) comp" where
  "mapC_result f m = bindC m (\<lambda>x. returnC (f x))"

section \<open>The methods that do not run children\<close>

definition InstructionSet_SetUp :: "('w, 'g) env \<Rightarrow> ibase \<times> 'g iset \<Rightarrow> ('w, ibase \<times> 'g iset) act" where
  "InstructionSet_SetUp E ob =
     (case ob of (b, f) \<Rightarrow>
        let f' = (if is_reseeding f = kEachRoundOfCycles then f\<lparr>is_gen := rng_seed E (is_seed f)\<rparr> else f)
        in bindC (Instruction_SetUp E b) (\<lambda>b'. returnC (b', f')))"

definition InstructionSet_SetUpSingle :: "('w, 'g) env \<Rightarrow> ibase \<times> 'g iset \<Rightarrow> ('w, ibase \<times> 'g iset) act" where
  "InstructionSet_SetUpSingle E ob =
     (case ob of (b, f) \<Rightarrow>
        let f' = (if is_reseeding f = kEachCycle then f\<lparr>is_gen := rng_seed E (is_seed f)\<rparr> else f)
        in bindC (Instruction_SetUpSingle E b) (\<lambda>b'. returnC (b', f')))"

fun vSetUp :: "('w, 'g) env \<Rightarrow> 'g instr \<Rightarrow> ('w, 'g instr) act" where
  "vSetUp E (Leaf b k) = mapC_result to_leaf (leaf_SetUp E (b, k))"
| "vSetUp E (InstructionSet b f cs) =
     mapC_result (\<lambda>(b', f'). InstructionSet b' f' cs) (InstructionSet_SetUp E (b, f))"
| "vSetUp E (Multithreading b m cs) =
     mapC_result (\<lambda>b'. Multithreading b' m cs) (Instruction_SetUp E b)"

text \<open>\<^verbatim>\<open>TearDown\<close> is empty in every modelled class.\<close>

definition vTearDown :: "'g instr \<Rightarrow> ('w, 'g instr) act" where
  "vTearDown i = returnC i"

definition Multithreading_SetUpSingle ::
  "('w, 'g) env \<Rightarrow> ibase \<Rightarrow> mt_fields \<Rightarrow> 'g instr list \<Rightarrow> ('w, 'g instr) act" where
  "Multithreading_SetUpSingle E b m cs =
     bindC (mapC (vSetUp E) cs) (\<lambda>cs'.
     bindC (Instruction_SetUpSingle E b) (\<lambda>b'.
     returnC (Multithreading b' (m\<lparr>mt_threads := []\<rparr>) cs')))"

fun vSetUpSingle :: "('w, 'g) env \<Rightarrow> 'g instr \<Rightarrow> ('w, 'g instr) act" where
  "vSetUpSingle E (Leaf b k) = mapC_result to_leaf (leaf_SetUpSingle E (b, k))"
| "vSetUpSingle E (InstructionSet b f cs) =
     mapC_result (\<lambda>(b', f'). InstructionSet b' f' cs) (InstructionSet_SetUpSingle E (b, f))"
| "vSetUpSingle E (Multithreading b m cs) = Multithreading_SetUpSingle E b m cs"

section \<open>\<^verbatim>\<open>InstructionSet::RunSingle\<close>\<close>

text \<open>\<open>run\<close> is \<^verbatim>\<open>Run\<close> of a child.\<close>

definition RunInstructions ::
  "('w, 'g) env \<Rightarrow> ('g instr \<Rightarrow> ('w, 'g instr) act) \<Rightarrow> 'g instr list \<Rightarrow> ('w, 'g instr list) act" where
  "RunInstructions E run instructions =
     mapC (\<lambda>c. bindC (vSetUp E c) (\<lambda>c1. bindC (run c1) vTearDown)) instructions"

text \<open>
  The distribution is constructed for every list, with an upper end narrowed to \<^verbatim>\<open>int\<close>; it
  has no value when the list is empty.
\<close>

definition set_item :: "('w, 'g) env \<Rightarrow> string list \<Rightarrow> nat \<Rightarrow> 'g iset \<Rightarrow> ('w, 'g iset) act" where
  "set_item E xs i f =
     (case is_access_order f of
        kSequential \<Rightarrow> bindC (varsC (SetVar (is_item_key f) (VString (xs ! i)))) (\<lambda>_. returnC f)
      | kRandom \<Rightarrow>
          (case rng_draw E 0 (narrow32 (int (length xs) - 1)) (is_gen f) of (j, g) \<Rightarrow>
             if j < 0 \<or> int (length xs) \<le> j then failC (Undefined OutOfBounds)
             else bindC (varsC (SetVar (is_item_key f) (VString (xs ! nat j)))) (\<lambda>_.
                  returnC (f\<lparr>is_gen := g\<rparr>))))"

definition not_iterable :: err where
  "not_iterable = Loge_exit ''Input for InstructionSet is not iterable.''"

definition iterate_step ::
  "('w, 'g) env \<Rightarrow> ('g instr \<Rightarrow> ('w, 'g instr) act) \<Rightarrow> string list \<Rightarrow> 'g iset \<times> 'g instr list \<Rightarrow> nat
     \<Rightarrow> ('w, 'g iset \<times> 'g instr list) act" where
  "iterate_step E run xs ob i =
     bindC (set_item E xs i (fst ob)) (\<lambda>f'.
     bindC (RunInstructions E run (snd ob)) (\<lambda>cs'. returnC (f', cs')))"

definition InstructionSet_RunSingle ::
  "('w, 'g) env \<Rightarrow> ('g instr \<Rightarrow> ('w, 'g instr) act) \<Rightarrow> 'g iset \<times> 'g instr list
     \<Rightarrow> ('w, 'g iset \<times> 'g instr list) act" where
  "InstructionSet_RunSingle E run ob =
     (if is_list_key (fst ob) \<noteq> -1 \<and> is_item_key (fst ob) \<noteq> -1
      then bindC (varsC (Get (is_list_key (fst ob)))) (\<lambda>v.
           case v of
             VList xs \<Rightarrow>
               if narrow32 (int (length xs) - 1) < 0 then failC (Undefined EmptyRange)
               else foldC (iterate_step E run xs) ob [0..<length xs]
           | _ \<Rightarrow> failC not_iterable)
      else bindC (RunInstructions E run (snd ob)) (\<lambda>cs'. returnC (fst ob, cs')))"

section \<open>Threads\<close>

text \<open>\<^verbatim>\<open>RunSynchronized\<close> up to \<^verbatim>\<open>pthread_barrier_wait\<close>; 34 is \<^verbatim>\<open>ERANGE\<close>.\<close>

definition enter_thread :: "('w, 'g) env \<Rightarrow> thread_params \<Rightarrow> ('w, unit) act" where
  "enter_thread E p =
     bindC (sysC (pthread_setname E (tp_name p))) (\<lambda>ret.
     bindC (if ret \<noteq> 0
            then if ret = 34
                 then failC (Logf (''Name too long for thread, max 15 chars allowed: '' @ tp_name p))
                 else failC (Logf (''Error setting thread name: '' @ show_int ret))
            else returnC ()) (\<lambda>_.
     bindC (if SchedAttr_IsSet (tp_sched_attr p) then SchedAttr_Set E (tp_sched_attr p) else returnC ()) (\<lambda>_.
     if SchedAffinity_IsSet (tp_sched_affinity p) then SchedAffinity_Set E (tp_sched_affinity p)
     else returnC ())))"

text \<open>The steps of \<^verbatim>\<open>Run\<close>, as a list.\<close>

fun run_phases :: "nat \<Rightarrow> phase list" where
  "run_phases 0 = []"
| "run_phases (Suc n) = [SetUpPhase, RunPhase, TearDownPhase (n = 0)] @ run_phases n"

definition SpawnThread :: "'g instr \<Rightarrow> phase list" where
  "SpawnThread i = Enter # run_phases (nat (ib_repeat (in_base i)))"

definition Multithreading_RunSingle :: "mt_fields \<Rightarrow> 'g instr list \<Rightarrow> ('w, mt_fields) act" where
  "Multithreading_RunSingle m cs =
     (if length (mt_params m) < length cs then failC (Undefined OutOfBounds)
      else returnC (m\<lparr>mt_threads := mt_threads m @ map SpawnThread cs\<rparr>))"

text \<open>A thread is blocked by the barrier as long as some thread has not reached it.\<close>

definition can_run :: "phase list list \<Rightarrow> nat \<Rightarrow> bool" where
  "can_run todo j \<longleftrightarrow>
     todo ! j \<noteq> [] \<and> (hd (todo ! j) = Enter \<or> (\<forall>ps \<in> set todo. Enter \<notin> set ps))"

definition runnable :: "phase list list \<Rightarrow> nat list" where
  "runnable todo = filter (can_run todo) [0..<length todo]"

definition pick :: "('w, 'g) env \<Rightarrow> phase list list \<Rightarrow> ('w, nat) act" where
  "pick E todo =
     bindC (sysC (pick_thread E (runnable todo))) (\<lambda>k.
     returnC (runnable todo ! (k mod length (runnable todo))))"

text \<open>
  The joins: \<open>n\<close> steps of runnable threads, or fewer when there is no runnable thread left.
  \<open>step\<close> executes a step of a thread on its instruction, thread \<open>j\<close> on instruction \<open>j\<close>; there is
  no thread without an instruction.
\<close>

fun join_threads ::
  "('w, 'g) env \<Rightarrow> (phase \<Rightarrow> nat \<Rightarrow> 'g instr \<Rightarrow> ('w, 'g instr) act) \<Rightarrow> nat \<Rightarrow> phase list list \<times> 'g instr list
     \<Rightarrow> ('w, phase list list \<times> 'g instr list) act" where
  "join_threads E step 0 ob = returnC ob"
| "join_threads E step (Suc n) ob =
     (if runnable (fst ob) = [] then returnC ob
      else bindC (pick E (fst ob)) (\<lambda>j.
           if length (snd ob) \<le> j then failC (Undefined OutOfBounds)
           else bindC (step (hd (fst ob ! j)) j (snd ob ! j)) (\<lambda>c.
                join_threads E step n ((fst ob)[j := tl (fst ob ! j)], (snd ob)[j := c]))))"

definition thread_phase ::
  "('w, 'g) env \<Rightarrow> ('g instr \<Rightarrow> ('w, 'g instr) act) \<Rightarrow> (bool \<Rightarrow> 'g instr \<Rightarrow> ('w, 'g instr) act)
     \<Rightarrow> thread_params list \<Rightarrow> phase \<Rightarrow> nat \<Rightarrow> 'g instr \<Rightarrow> ('w, 'g instr) act" where
  "thread_phase E run_single tear_down_single params p j c =
     (case p of
        Enter \<Rightarrow> bindC (enter_thread E (params ! j)) (\<lambda>_. returnC c)
      | SetUpPhase \<Rightarrow> vSetUpSingle E c
      | RunPhase \<Rightarrow> run_single c
      | TearDownPhase is_last \<Rightarrow> tear_down_single is_last c)"

definition Multithreading_TearDownSingle ::
  "('w, 'g) env \<Rightarrow> (phase \<Rightarrow> nat \<Rightarrow> 'g instr \<Rightarrow> ('w, 'g instr) act) \<Rightarrow> bool \<Rightarrow> ibase \<Rightarrow> mt_fields
     \<Rightarrow> 'g instr list \<Rightarrow> ('w, 'g instr) act" where
  "Multithreading_TearDownSingle E step is_last b m cs =
     bindC (join_threads E step (sum_list (map length (mt_threads m))) (mt_threads m, cs)) (\<lambda>(todo, cs').
     bindC (Instruction_TearDownSingle E is_last b) (\<lambda>b'.
     bindC (mapC vTearDown cs') (\<lambda>cs''.
     returnC (Multithreading b' (m\<lparr>mt_threads := todo\<rparr>) cs''))))"

section \<open>The virtual methods that run children\<close>

fun vRunSingle :: "('w, 'g) env \<Rightarrow> nat \<Rightarrow> 'g instr \<Rightarrow> ('w, 'g instr) act"
  and vTearDownSingle :: "('w, 'g) env \<Rightarrow> nat \<Rightarrow> bool \<Rightarrow> 'g instr \<Rightarrow> ('w, 'g instr) act" where
  "vRunSingle E 0 i = failC Unbounded_tree"
| "vRunSingle E (Suc n) (Leaf b k) = mapC_result to_leaf (leaf_RunSingle E (b, k))"
| "vRunSingle E (Suc n) (InstructionSet b f cs) =
     mapC_result (\<lambda>(f', cs'). InstructionSet b f' cs')
       (InstructionSet_RunSingle E
          (Instruction_Run in_base (vSetUpSingle E) (vRunSingle E n) (vTearDownSingle E n)) (f, cs))"
| "vRunSingle E (Suc n) (Multithreading b m cs) =
     mapC_result (\<lambda>m'. Multithreading b m' cs) (Multithreading_RunSingle m cs)"
| "vTearDownSingle E 0 is_last i = failC Unbounded_tree"
| "vTearDownSingle E (Suc n) is_last (Leaf b k) = mapC_result to_leaf (leaf_TearDownSingle E is_last (b, k))"
| "vTearDownSingle E (Suc n) is_last (InstructionSet b f cs) =
     mapC_result (\<lambda>b'. InstructionSet b' f cs) (Instruction_TearDownSingle E is_last b)"
| "vTearDownSingle E (Suc n) is_last (Multithreading b m cs) =
     Multithreading_TearDownSingle E
       (thread_phase E (vRunSingle E n) (vTearDownSingle E n) (mt_params m)) is_last b m cs"

definition vRun :: "('w, 'g) env \<Rightarrow> nat \<Rightarrow> 'g instr \<Rightarrow> ('w, 'g instr) act" where
  "vRun E n = Instruction_Run in_base (vSetUpSingle E) (vRunSingle E n) (vTearDownSingle E n)"

fun depth :: "'g instr \<Rightarrow> nat" where
  "depth (Leaf b k) = 1"
| "depth (InstructionSet b f cs) = Suc (foldr max (map depth cs) 0)"
| "depth (Multithreading b m cs) = Suc (foldr max (map depth cs) 0)"

text \<open>\<^verbatim>\<open>i->SetUp(); i->Run(); i->TearDown()\<close>, with as many levels as the tree has.\<close>

definition Run :: "('w, 'g) env \<Rightarrow> 'g instr \<Rightarrow> ('w, 'g instr) act" where
  "Run E i = vRun E (depth i) i"

definition run_instruction :: "('w, 'g) env \<Rightarrow> 'g instr \<Rightarrow> ('w, 'g instr) act" where
  "run_instruction E i = bindC (vSetUp E i) (\<lambda>i1. bindC (Run E i1) vTearDown)"

section \<open>\<^verbatim>\<open>CollectResults\<close>\<close>

definition Instruction_CollectResults ::
  "(nat \<Rightarrow> f64 list \<Rightarrow> f64 list) \<Rightarrow> string \<Rightarrow> ibase \<Rightarrow> result res" where
  "Instruction_CollectResults nth_el prefix b =
     bindR (TimespecToDoubleNanos_vec (ts_samples (ib_sampler b))) (\<lambda>samples.
     AddMeasurement nth_el ''duration'' samples (Result_ctor (prefix @ ib_name b) (ib_repeat b)))"

definition leaf_CollectResults ::
  "(nat \<Rightarrow> f64 list \<Rightarrow> f64 list) \<Rightarrow> string \<Rightarrow> ibase \<Rightarrow> 'g leaf \<Rightarrow> result res" where
  "leaf_CollectResults nth_el prefix b k =
     bindR (Instruction_CollectResults nth_el prefix b) (\<lambda>r.
     case k of
       WriteFile fsync f \<Rightarrow> AddMeasurement nth_el ''bandwidth'' (rw_bandwidth f) r
     | ReadFile fadvise f \<Rightarrow> AddMeasurement nth_el ''bandwidth'' (rw_bandwidth f) r
     | _ \<Rightarrow> Inr r)"

text \<open>
  The durations of an \<^verbatim>\<open>InstructionSet\<close> are sums over its children. \<^verbatim>\<open>samples.size() / repeat\<close>
  is a division of \<^verbatim>\<open>size_t\<close>, to which \<^verbatim>\<open>repeat\<close> is converted.
\<close>

definition rounds_of :: "nat \<Rightarrow> int \<Rightarrow> nat res" where
  "rounds_of n repeat =
     (if repeat = 0 then Inl (Undefined DivisionByZero)
      else Inr (unat ((word_of_nat n :: u64) div word_of_int repeat)))"

definition add_round :: "f64 list \<Rightarrow> int \<Rightarrow> f64 list \<Rightarrow> nat \<Rightarrow> f64 list res" where
  "add_round samples repeat duration i =
     (if nat repeat > 0 \<and> length duration \<le> i then Inl (Undefined OutOfBounds)
      else Inr (duration[i := foldl (\<lambda>acc j. fadd acc (samples ! (i * nat repeat + j))) (duration ! i)
                                [0..<nat repeat]]))"

definition add_durations :: "f64 list \<Rightarrow> f64 list \<Rightarrow> int \<Rightarrow> f64 list res" where
  "add_durations duration samples repeat =
     bindR (rounds_of (length samples) repeat) (\<lambda>k.
     let d0 = (if duration = [] then replicate k (Fin 0) else duration)
     in foldR (add_round samples repeat) d0 [0..<k])"

definition add_child :: "f64 list \<times> result \<Rightarrow> result \<Rightarrow> (f64 list \<times> result) res" where
  "add_child acc sub =
     bindR (GetSamples ''duration'' sub) (\<lambda>samples.
     bindR (add_durations (fst acc) samples (GetRepeat sub)) (\<lambda>duration.
     Inr (duration, AddSubResult sub (snd acc))))"

lemma foldR_cong [fundef_cong]:
  "b = b' \<Longrightarrow> xs = ys \<Longrightarrow> (\<And>b x. x \<in> set ys \<Longrightarrow> f b x = g b x) \<Longrightarrow> foldR f b xs = foldR g b' ys"
  by (induction ys arbitrary: xs b b') (auto simp: bindR_def split: sum.splits)

lemma size_enumerate [termination_simp]:
  "(i, c) \<in> set (enumerate n cs) \<Longrightarrow> f c < Suc (size_list f cs)"
proof -
  assume "(i, c) \<in> set (enumerate n cs)"
  then have "c \<in> set cs" by (auto simp: in_set_enumerate_eq)
  from size_list_estimation' [OF this order_refl] show ?thesis by (rule le_imp_less_Suc)
qed

fun CollectResults ::
  "(nat \<Rightarrow> f64 list \<Rightarrow> f64 list) \<Rightarrow> string \<Rightarrow> 'g instr \<Rightarrow> result res" where
  "CollectResults nth_el prefix (Leaf b k) = leaf_CollectResults nth_el prefix b k"
| "CollectResults nth_el prefix (InstructionSet b f cs) =
     bindR (foldR (\<lambda>acc c. bindR (CollectResults nth_el [] c) (add_child acc))
              ([], Result_ctor (prefix @ ib_name b) (ib_repeat b)) cs) (\<lambda>(duration, r).
     AddMeasurement nth_el ''duration'' duration r)"
| "CollectResults nth_el prefix (Multithreading b m cs) =
     bindR (Instruction_CollectResults nth_el prefix b) (\<lambda>r0.
     foldR (\<lambda>r (i, c).
              if length (mt_params m) \<le> i then Inl (Undefined OutOfBounds)
              else bindR (CollectResults nth_el (tp_name (mt_params m ! i) @ ''/'') c) (\<lambda>sub.
                   Inr (AddSubResult sub r))) r0 (enumerate 0 cs))"

end
