(* ===== verification/Threads.thy ===== *)
theory Threads
  imports Engine
begin

text \<open>
  What the threads of a \<open>Multithreading\<close> promise, as a step relation: a thread does its phases in
  order, and no thread passes the barrier before every thread has reached it. \<open>join_threads\<close>, the
  model of the joins, is shown to execute one such interleaving to its end.
\<close>

section \<open>Interleavings\<close>

inductive thread_step :: "phase list list \<Rightarrow> nat \<times> phase \<Rightarrow> phase list list \<Rightarrow> bool" where
  enter: "j < length todo \<Longrightarrow> todo ! j = Enter # ps \<Longrightarrow> thread_step todo (j, Enter) (todo[j := ps])"
| work: "j < length todo \<Longrightarrow> todo ! j = p # ps \<Longrightarrow> \<forall>qs \<in> set todo. Enter \<notin> set qs \<Longrightarrow>
           thread_step todo (j, p) (todo[j := ps])"

inductive interleaving :: "phase list list \<Rightarrow> (nat \<times> phase) list \<Rightarrow> phase list list \<Rightarrow> bool" where
  none: "interleaving todo [] todo"
| step: "thread_step todo x todo1 \<Longrightarrow> interleaving todo1 lg todo2 \<Longrightarrow> interleaving todo (x # lg) todo2"

inductive_cases thread_stepE: "thread_step todo x todo1"
inductive_simps interleaving_Nil: "interleaving todo [] todo1"
inductive_simps interleaving_Cons: "interleaving todo (x # lg) todo1"

lemma thread_step_iff:
  "thread_step todo (j, p) todo1 \<longleftrightarrow>
     j < length todo \<and> (\<exists>ps. todo ! j = p # ps \<and> todo1 = todo[j := ps]) \<and>
     (p = Enter \<or> (\<forall>qs \<in> set todo. Enter \<notin> set qs))"
  by (auto simp: thread_step.simps)

lemma can_run_iff:
  "j \<in> set (runnable todo) \<longleftrightarrow> (\<exists>p todo1. thread_step todo (j, p) todo1)"
  by (cases "todo ! j") (auto simp: runnable_def can_run_def thread_step_iff)

text \<open>The steps that thread \<open>j\<close> has done.\<close>

definition steps_of :: "nat \<Rightarrow> (nat \<times> phase) list \<Rightarrow> phase list" where
  "steps_of j lg = map snd (filter (\<lambda>x. fst x = j) lg)"

lemma steps_of_simps [simp]:
  "steps_of j [] = []"
  "steps_of j (x # lg) = (if fst x = j then snd x # steps_of j lg else steps_of j lg)"
  "steps_of j (xs @ ys) = steps_of j xs @ steps_of j ys"
  by (simp_all add: steps_of_def)

lemma interleaving_order:
  assumes "interleaving todo lg todo1"
  shows "length todo1 = length todo \<and>
    (\<forall>j < length todo. todo ! j = steps_of j lg @ todo1 ! j) \<and> (\<forall>x \<in> set lg. fst x < length todo)"
  using assms
proof (induction rule: interleaving.induct)
  case (step todo x todo1 lg todo2)
  obtain j p ps where x: "x = (j, p)" "j < length todo" "todo ! j = p # ps" "todo1 = todo[j := ps]"
    using step.hyps(1) by (cases x) (auto simp: thread_step_iff)
  show ?case
    using step.IH x by (auto simp: nth_list_update split: if_splits)
qed simp

text \<open>The threads as they are spawned, and what stays true of them: they wait at the barrier once.\<close>

definition waits_first :: "phase list list \<Rightarrow> bool" where
  "waits_first todo \<longleftrightarrow> (\<forall>ps \<in> set todo. Enter \<notin> set (tl ps))"

lemma run_phases_Enter [simp]: "Enter \<notin> set (run_phases n)"
  by (induction n) auto

lemma waits_first_spawn: "waits_first (map SpawnThread cs)"
  by (auto simp: waits_first_def SpawnThread_def)

lemma waits_first_step:
  assumes "waits_first todo" and "thread_step todo x todo1"
  shows "waits_first todo1"
proof -
  obtain j p ps where x: "j < length todo" "todo ! j = p # ps" "todo1 = todo[j := ps]"
    using assms(2) by (cases x) (auto simp: thread_step_iff)
  have "Enter \<notin> set ps"
    using assms(1) x(1,2) unfolding waits_first_def by (metis list.sel(3) nth_mem)
  then have "Enter \<notin> set (tl ps)" by (cases ps) auto
  then show ?thesis
    using assms(1) x(3) set_update_subset_insert [of todo j ps] by (auto simp: waits_first_def)
qed

lemma waits_first_interleaving:
  "interleaving todo lg todo1 \<Longrightarrow> waits_first todo \<Longrightarrow> waits_first todo1"
  by (induction rule: interleaving.induct) (auto intro: waits_first_step)

lemma waits_first_progress:
  assumes "waits_first todo" and "ps \<in> set todo" and "ps \<noteq> []"
  shows "\<exists>x todo1. thread_step todo x todo1"
proof (cases "\<exists>qs \<in> set todo. Enter \<in> set qs")
  case True
  then obtain qs j where q: "Enter \<in> set qs" "qs = todo ! j" "j < length todo"
    by (metis in_set_conv_nth)
  have "Enter \<notin> set (tl qs)" using assms(1) q unfolding waits_first_def by (metis nth_mem)
  with q(1) obtain rs where "qs = Enter # rs" by (cases qs) auto
  then show ?thesis using q thread_step.enter by metis
next
  case False
  obtain j where "j < length todo" "todo ! j = ps" using assms(2) by (metis in_set_conv_nth)
  moreover obtain p rs where "ps = p # rs" using assms(3) by (cases ps) auto
  ultimately show ?thesis using False thread_step.work by metis
qed

lemma step_done:
  "thread_step todo x todo1 \<Longrightarrow> sum_list (map length todo) = Suc (sum_list (map length todo1))"
proof -
  assume "thread_step todo x todo1"
  then obtain j p ps where x: "j < length todo" "todo ! j = p # ps" "todo1 = todo[j := ps]"
    by (cases x) (auto simp: thread_step_iff)
  have "sum_list (map length (todo[j := ps])) + length (todo ! j) = sum_list (map length todo) + length ps"
  proof -
    have "length (todo ! j) \<le> sum_list (map length todo)"
      using x(1) by (intro member_le_sum_list) auto
    then show ?thesis using x(1) by (simp add: map_update sum_list_update)
  qed
  then show ?thesis using x by simp
qed

section \<open>The joins execute an interleaving\<close>

text \<open>
  \<open>executes step lg (cs, s) (cs', t)\<close>: the steps of \<open>lg\<close> were executed one after the other on the
  instructions \<open>cs\<close>, and every one succeeded; before a step the operating system may have done
  anything that choosing a thread involves.
\<close>

inductive executes ::
  "(phase \<Rightarrow> nat \<Rightarrow> 'g instr \<Rightarrow> ('w, 'g instr) act) \<Rightarrow> (nat \<times> phase) list
     \<Rightarrow> 'g instr list \<times> 'w pstate \<Rightarrow> 'g instr list \<times> 'w pstate \<Rightarrow> bool"
  for step where
  nothing: "executes step [] (cs, s) (cs, s)"
| one: "step p j (cs ! j) (s\<lparr>ps_world := w\<rparr>) = (Inr c, s1) \<Longrightarrow> executes step lg (cs[j := c], s1) (cs', t) \<Longrightarrow>
          executes step ((j, p) # lg) (cs, s) (cs', t)"

lemma pick_Inr:
  assumes "pick E todo s = (Inr j, t)" and "runnable todo \<noteq> []"
  shows "j \<in> set (runnable todo) \<and> (\<exists>w. t = s\<lparr>ps_world := w\<rparr>)"
proof -
  obtain k w where "j = runnable todo ! (k mod length (runnable todo))" "t = s\<lparr>ps_world := w\<rparr>"
    using assms(1) by (auto simp: pick_def bindC_Inr_iff sysC_Inr_iff)
  then show ?thesis using assms(2) by auto
qed

lemma sum_list_0_lengths: "\<forall>ps \<in> set todo. ps = [] \<Longrightarrow> sum_list (map length todo) = 0"
  by (induction todo) auto

lemma join_threads_executes:
  assumes "join_threads E step n (todo, cs) s = (Inr (todo', cs'), t)"
    and "waits_first todo" and "n = sum_list (map length todo)"
  shows "\<exists>lg. interleaving todo lg todo' \<and> executes step lg (cs, s) (cs', t) \<and>
    (\<forall>ps \<in> set todo'. ps = [])"
  using assms
proof (induction n arbitrary: todo cs s)
  case 0
  then have "\<forall>ps \<in> set todo. ps = []" by simp
  then show ?case using 0 by (auto intro: interleaving.intros executes.intros)
next
  case (Suc n)
  have "\<exists>ps \<in> set todo. ps \<noteq> []"
  proof (rule ccontr)
    assume "\<not> ?thesis"
    then have "sum_list (map length todo) = 0" by (intro sum_list_0_lengths) auto
    then show False using Suc.prems(3) by (metis Zero_not_Suc)
  qed
  then have "\<exists>x todo1. thread_step todo x todo1"
    using waits_first_progress [OF Suc.prems(2)] by blast
  then have run: "runnable todo \<noteq> []" by (metis can_run_iff empty_iff list.set(1) surj_pair)
  then obtain j s1 c s2 where *: "pick E todo s = (Inr j, s1)"
      "step (hd (todo ! j)) j (cs ! j) s1 = (Inr c, s2)"
      "join_threads E step n (todo[j := tl (todo ! j)], cs[j := c]) s2 = (Inr (todo', cs'), t)"
    using Suc.prems(1) by (auto simp: bindC_Inr_iff split: if_splits)
  note p = pick_Inr [OF *(1) run]
  then obtain p todo1 where st: "thread_step todo (j, p) todo1" by (auto simp: can_run_iff)
  then have eq: "hd (todo ! j) = p" "todo1 = todo[j := tl (todo ! j)]"
    by (auto simp: thread_step_iff)
  obtain lg where lg: "interleaving todo1 lg todo'" "executes step lg (cs[j := c], s2) (cs', t)"
      "\<forall>ps \<in> set todo'. ps = []"
    using Suc.IH [OF *(3) [folded eq(2)]] waits_first_step [OF Suc.prems(2) st] step_done [OF st] Suc.prems(3)
    by auto
  have "executes step ((j, p) # lg) (cs, s) (cs', t)"
    using p *(2) lg(2) eq(1) by (auto intro: executes.one)
  then show ?case using lg st by (auto intro: interleaving.step)
qed

lemma executes_length: "executes step lg x y \<Longrightarrow> length (fst y) = length (fst x)"
  by (induction rule: executes.induct) simp_all

text \<open>In an interleaving of threads that wait at the barrier first, the steps up to it come first.\<close>

lemma enters_first:
  assumes "interleaving todo lg todo1" and "waits_first todo"
  shows "\<exists>before after. lg = before @ after \<and> (\<forall>x \<in> set before. snd x = Enter) \<and>
    (\<forall>x \<in> set after. snd x \<noteq> Enter) \<and>
    (after \<noteq> [] \<longrightarrow> (\<exists>mid. interleaving todo before mid \<and> (\<forall>qs \<in> set mid. Enter \<notin> set qs)))"
  using assms
proof (induction rule: interleaving.induct)
  case (step todo x todo1 lg todo2)
  obtain j p where x: "x = (j, p)" by (cases x)
  obtain before after where *: "lg = before @ after" "\<forall>x \<in> set before. snd x = Enter"
      "\<forall>x \<in> set after. snd x \<noteq> Enter"
      "after \<noteq> [] \<longrightarrow> (\<exists>mid. interleaving todo1 before mid \<and> (\<forall>qs \<in> set mid. Enter \<notin> set qs))"
    using step.IH waits_first_step [OF step.prems step.hyps(1)] by blast
  show ?case
  proof (cases "p = Enter")
    case True
    have "interleaving todo (x # before) mid" if "interleaving todo1 before mid" for mid
      using step.hyps(1) that by (rule interleaving.step)
    then have "after \<noteq> [] \<longrightarrow>
        (\<exists>mid. interleaving todo (x # before) mid \<and> (\<forall>qs \<in> set mid. Enter \<notin> set qs))"
      using *(4) by blast
    then show ?thesis using *(1,2,3) x True
      by (intro exI [of _ "x # before"] exI [of _ after]) simp
  next
    case False
    then have free: "\<forall>qs \<in> set todo. Enter \<notin> set qs"
      using step.hyps(1) x by (auto simp: thread_step_iff)
    have "\<forall>y \<in> set (x # lg). snd y \<noteq> Enter"
    proof
      fix y assume y: "y \<in> set (x # lg)"
      note order = interleaving_order [OF interleaving.step [OF step.hyps]]
      have "snd y \<in> set (steps_of (fst y) (x # lg))" using y by (auto simp: steps_of_def)
      then have "snd y \<in> set (todo ! fst y)" "fst y < length todo" using order y by auto
      then show "snd y \<noteq> Enter" using free by (metis nth_mem)
    qed
    then show ?thesis using free interleaving.none
      by (intro exI [of _ "[]"] exI [of _ "x # lg"]) auto
  qed
qed auto

text \<open>When all threads have left the barrier by steps up to it, each has made exactly one of them.\<close>

lemma one_step_to_the_barrier:
  assumes "interleaving (map SpawnThread cs) before mid" and "\<forall>qs \<in> set mid. Enter \<notin> set qs"
    and "\<forall>x \<in> set before. snd x = Enter" and "j < length cs"
  shows "steps_of j before = [Enter]"
proof -
  note order = interleaving_order [OF assms(1)]
  have eq: "Enter # run_phases (nat (ib_repeat (in_base (cs ! j)))) = steps_of j before @ mid ! j"
    using order assms(4) by (simp add: SpawnThread_def)
  have "Enter \<notin> set (mid ! j)" using assms(2) order assms(4) by auto
  then have "steps_of j before \<noteq> []" using eq by (metis append_Nil list.set_intros(1))
  then obtain rest where rest: "steps_of j before = Enter # rest"
    using eq by (cases "steps_of j before") auto
  have "set (steps_of j before) \<subseteq> {Enter}" using assms(3) by (auto simp: steps_of_def)
  moreover have "Enter \<notin> set rest" using eq rest by (metis append_Cons list.inject run_phases_Enter Un_iff set_append)
  ultimately have "rest = []" using rest by (cases rest) auto
  then show ?thesis using rest by simp
qed

section \<open>Properties\<close>

text \<open>
  C9: when the joins of a \<^verbatim>\<open>Multithreading\<close> return, they have executed an interleaving of the
  spawned threads in which every thread has run all its iterations, in order, from
  \<^verbatim>\<open>SetUpSingle\<close> to \<^verbatim>\<open>TearDownSingle\<close>; no thread is left with work to do.
\<close>

theorem joins_run_all_threads:
  assumes "join_threads E step (sum_list (map length (map SpawnThread cs))) (map SpawnThread cs, cs) s
             = (Inr (todo', cs'), t)"
  shows "\<exists>lg. interleaving (map SpawnThread cs) lg todo' \<and> executes step lg (cs, s) (cs', t) \<and>
    todo' = replicate (length cs) [] \<and> length cs' = length cs \<and>
    (\<forall>j < length cs. steps_of j lg = Enter # run_phases (nat (ib_repeat (in_base (cs ! j)))))"
proof -
  obtain lg where lg: "interleaving (map SpawnThread cs) lg todo'" "executes step lg (cs, s) (cs', t)"
      "\<forall>ps \<in> set todo'. ps = []"
    using join_threads_executes [OF assms waits_first_spawn refl] by blast
  note order = interleaving_order [OF lg(1)]
  have todo': "todo' = replicate (length cs) []"
    using lg(3) order by (intro replicate_eqI) auto
  have "steps_of j lg = Enter # run_phases (nat (ib_repeat (in_base (cs ! j))))" if "j < length cs" for j
    using order that todo' by (auto simp: SpawnThread_def)
  then show ?thesis using lg todo' executes_length [OF lg(2)] by auto
qed



section \<open>Examples\<close>

definition sample_child :: "int \<Rightarrow> nat instr" where
  "sample_child n = Leaf (Instruction_ctor ''cpu_work_cycles''
     \<lparr>pr_repeat = n, pr_period_us = 0, pr_offset_us = 0\<rparr>) (CpuWorkCycles 0)"

theorem joins_run_all_threads_witness:
  "\<exists>lg todo'. interleaving (map SpawnThread [sample_child 1, sample_child 2]) lg todo' \<and>
     steps_of 1 lg = Enter # run_phases 2"
proof -
  let ?r = "join_threads sample_env (\<lambda>p j c. returnC c)
      (sum_list (map length (map SpawnThread [sample_child 1, sample_child 2])))
      (map SpawnThread [sample_child 1, sample_child 2], [sample_child 1, sample_child 2]) sample_state"
  have "\<not> isl (fst ?r)" by code_simp
  from not_isl_Inr [OF this] obtain todo' cs' t where "?r = (Inr (todo', cs'), t)" by (metis surj_pair)
  from joins_run_all_threads [OF this] obtain lg where
      "interleaving (map SpawnThread [sample_child 1, sample_child 2]) lg todo'"
      "\<forall>j < 2. steps_of j lg = Enter # run_phases (nat (ib_repeat (in_base ([sample_child 1, sample_child 2] ! j))))"
    by auto
  moreover from this(2) have "steps_of 1 lg = Enter # run_phases 2"
    by (auto simp: sample_child_def Instruction_ctor_def dest: spec [of _ 1])
  ultimately show ?thesis by blast
qed

lemma sample_interleaving:
  "interleaving (map SpawnThread [sample_child 0, sample_child 0]) [(1, Enter)] [[Enter], []]"
  by (auto simp: interleaving_Cons interleaving_Nil thread_step_iff SpawnThread_def sample_child_def
      Instruction_ctor_def)



end
