(* ===== verification/Engine_Properties.thy ===== *)
theory Engine_Properties
  imports Engine
begin

text \<open>
  What the tree of instructions keeps: every class meets the interface \<open>instruction_class\<close>, the
  methods keep the shape of a tree, and the durations of the children of a set agree in number, so
  that \<^verbatim>\<open>CollectResults\<close> stays inside its vectors. It leaves them when a set iterates over a
  list inside another set.
\<close>

section \<open>The leaves meet the interface\<close>

definition is_mem :: "'g leaf \<Rightarrow> bool" where
  "is_mem k \<longleftrightarrow> (case k of MemoryAllocation f \<Rightarrow> True | _ \<Rightarrow> False)"

text \<open>A read or a write has one bandwidth per duration.\<close>

definition leaf_even :: "ibase \<times> 'g leaf \<Rightarrow> bool" where
  "leaf_even ob \<longleftrightarrow> (case snd ob of
       WriteFile fsync f \<Rightarrow> length (rw_bandwidth f) = length (ts_samples (ib_sampler (fst ob)))
     | ReadFile fadvise f \<Rightarrow> length (rw_bandwidth f) = length (ts_samples (ib_sampler (fst ob)))
     | _ \<Rightarrow> True)"

definition leaf_ok :: "ibase \<times> 'g leaf \<Rightarrow> bool" where
  "leaf_ok ob \<longleftrightarrow> \<not> is_mem (snd ob) \<and> leaf_even ob"

lemma leafC_Inr_iff:
  "leafC C m b f s = (Inr ob', t) \<longleftrightarrow> (\<exists>b' f'. m (b, f) s = (Inr (b', f'), t) \<and> ob' = (b', C f'))"
  by (auto simp: leafC_def bindC_Inr_iff split: prod.splits)

lemmas leaf_set_up_laws =
  open_file.set_up_law delete_file.set_up_law resize_file_random.set_up_law
  write_file.set_up_law read_file.set_up_law

lemmas leaf_run_laws =
  open_file.run_law delete_file.run_law resize_file.run_law resize_file_random.run_law
  write_file.run_law read_file.run_law read_directory.run_law

lemma inherit_set_up_base:
  "inherit (Instruction_SetUpSingle E) (b, k) s = (Inr ob', t) \<Longrightarrow> set_up_base E b (fst ob') \<and> snd ob' = k"
  by (auto simp: inherit_Inr_iff)

lemma inherit_tear_down_base:
  "inherit (Instruction_TearDownSingle E l) (b, k) s = (Inr ob', t) \<Longrightarrow>
     tear_down_base E b (fst ob') \<and> snd ob' = k"
  by (auto simp: inherit_Inr_iff)

lemma inherit_run_work:
  "inherit (run_work m) (b, k) s = (Inr ob', t) \<Longrightarrow> ob' = (b, k)"
  by (cases ob') (auto simp: inherit_Inr_iff run_work_def bindC_Inr_iff)

lemma leaf_set_up:
  assumes "leaf_SetUpSingle E (b, k) s = (Inr (b', k'), t)"
  shows "set_up_base E b b'" and "leaf_ok (b, k) \<Longrightarrow> leaf_ok (b', k')" and "is_mem k' = is_mem k"
proof -
  have *: "set_up_base E b b' \<and> (leaf_even (b, k) \<longrightarrow> leaf_even (b', k')) \<and> is_mem k' = is_mem k"
  proof (cases k)
    case (WriteFile fsync f)
    then obtain f' where m: "ReadWriteFile_SetUpSingle E (b, f) s = (Inr (b', f'), t)" "k' = WriteFile fsync f'"
      using assms by (auto simp: leaf_SetUpSingle_def leafC_Inr_iff)
    have "set_up_base E b b'" using write_file.set_up_law [OF _ m(1)] by simp
    then show ?thesis
      using m WriteFile write_file.set_up_count [OF _ m(1)] set_up_base_effect(2) [of E b b']
      by (simp add: leaf_even_def is_mem_def)
  next
    case (ReadFile fadvise f)
    then obtain f' where m: "ReadFile_SetUpSingle E fadvise (b, f) s = (Inr (b', f'), t)" "k' = ReadFile fadvise f'"
      using assms by (auto simp: leaf_SetUpSingle_def leafC_Inr_iff)
    have "set_up_base E b b'" using read_file.set_up_law [OF _ m(1)] by simp
    then show ?thesis
      using m ReadFile read_file.set_up_count [OF _ m(1)] set_up_base_effect(2) [of E b b']
      by (simp add: leaf_even_def is_mem_def)
  qed (use assms in \<open>force simp: leaf_SetUpSingle_def leafC_Inr_iff leaf_even_def is_mem_def
         dest: leaf_set_up_laws [rotated] inherit_set_up_base\<close>)+
  then show "set_up_base E b b'" "leaf_ok (b, k) \<Longrightarrow> leaf_ok (b', k')" "is_mem k' = is_mem k"
    by (auto simp: leaf_ok_def)
qed

lemma leaf_run:
  assumes "leaf_RunSingle E (b, k) s = (Inr (b', k'), t)"
  shows "b' = b" and "leaf_ok (b, k) \<Longrightarrow> leaf_ok (b', k')" and "is_mem k' = is_mem k"
proof -
  have *: "b' = b \<and> (leaf_even (b, k) \<longrightarrow> leaf_even (b', k')) \<and> is_mem k' = is_mem k"
  proof (cases k)
    case (WriteFile fsync f)
    then obtain f' where m: "WriteFile_RunSingle E fsync (b, f) s = (Inr (b', f'), t)" "k' = WriteFile fsync f'"
      using assms by (auto simp: leaf_RunSingle_def leafC_Inr_iff)
    then show ?thesis
      using WriteFile write_file.run_law [OF _ m(1)] write_file.run_count [OF _ m(1)]
      by (simp add: leaf_even_def is_mem_def)
  next
    case (ReadFile fadvise f)
    then obtain f' where m: "ReadFile_RunSingle E (b, f) s = (Inr (b', f'), t)" "k' = ReadFile fadvise f'"
      using assms by (auto simp: leaf_RunSingle_def leafC_Inr_iff)
    then show ?thesis
      using ReadFile read_file.run_law [OF _ m(1)] read_file.run_count [OF _ m(1)]
      by (simp add: leaf_even_def is_mem_def)
  next
    case (MemoryAllocation f)
    then show ?thesis
      using assms by (auto simp: leaf_RunSingle_def leafC_Inr_iff MemoryAllocation_RunSingle_def
          bindC_Inr_iff leaf_even_def is_mem_def)
  qed (use assms in \<open>force simp: leaf_RunSingle_def leafC_Inr_iff leaf_even_def is_mem_def
         dest: leaf_run_laws [rotated] inherit_run_work\<close>)+
  then show "b' = b" "leaf_ok (b, k) \<Longrightarrow> leaf_ok (b', k')" "is_mem k' = is_mem k"
    by (auto simp: leaf_ok_def)
qed

lemma leaf_tear_down:
  assumes "leaf_TearDownSingle E l (b, k) s = (Inr (b', k'), t)" and "leaf_ok (b, k)"
  shows "tear_down_base E b b'" and "leaf_ok (b', k')"
proof -
  have *: "tear_down_base E b b' \<and> leaf_even (b', k') \<and> is_mem k' = is_mem k"
  proof (cases k)
    case (WriteFile fsync f)
    then obtain f' where m: "ReadWriteFile_TearDownSingle E l (b, f) s = (Inr (b', f'), t)" "k' = WriteFile fsync f'"
      using assms by (auto simp: leaf_TearDownSingle_def leafC_Inr_iff)
    have "tear_down_base E b b'" using write_file.tear_down_law [OF _ m(1)] by simp
    then show ?thesis
      using m WriteFile write_file.tear_down_count [OF _ m(1)] tear_down_base_effect(2) [of E b b'] assms(2)
      by (auto simp: leaf_even_def is_mem_def leaf_ok_def)
  next
    case (ReadFile fadvise f)
    then obtain f' where m: "ReadWriteFile_TearDownSingle E l (b, f) s = (Inr (b', f'), t)" "k' = ReadFile fadvise f'"
      using assms by (auto simp: leaf_TearDownSingle_def leafC_Inr_iff)
    have "tear_down_base E b b'" using read_file.tear_down_law [OF _ m(1)] by simp
    then show ?thesis
      using m ReadFile read_file.tear_down_count [OF _ m(1)] tear_down_base_effect(2) [of E b b'] assms(2)
      by (auto simp: leaf_even_def is_mem_def leaf_ok_def)
  qed (use assms in \<open>force simp: leaf_TearDownSingle_def leaf_even_def is_mem_def leaf_ok_def
         dest: inherit_tear_down_base\<close>)+
  then show "tear_down_base E b b'" "leaf_ok (b', k')"
    using assms(2) by (auto simp: leaf_ok_def)
qed

interpretation leaf: instruction_class E fst "leaf_SetUpSingle E" "leaf_RunSingle E"
  "leaf_TearDownSingle E" leaf_ok
  for E :: "('w, 'g) env"
  by unfold_locales (auto dest: leaf_set_up leaf_run leaf_tear_down)

section \<open>The tree meets the interface\<close>

definition taken :: "'g instr \<Rightarrow> nat" where
  "taken i = length (ts_samples (ib_sampler (in_base i)))"

definition repeats :: "'g instr \<Rightarrow> nat" where
  "repeats i = nat (ib_repeat (in_base i))"

definition iterating :: "'g instr \<Rightarrow> bool" where
  "iterating i \<longleftrightarrow>
     (case i of InstructionSet b f cs \<Rightarrow> is_list_key f \<noteq> -1 \<and> is_item_key f \<noteq> -1 | _ \<Rightarrow> False)"

definition is_set :: "'g instr \<Rightarrow> bool" where
  "is_set i \<longleftrightarrow> (case i of InstructionSet b f cs \<Rightarrow> True | _ \<Rightarrow> False)"

lemma is_set_simps [simp]:
  "is_set (InstructionSet b f cs)" "\<not> is_set (Leaf b k)" "\<not> is_set (Multithreading b m cs)"
  by (simp_all add: is_set_def)

lemma is_setE: "is_set i \<Longrightarrow> (\<And>b f cs. i = InstructionSet b f cs \<Longrightarrow> P) \<Longrightarrow> P"
  by (cases i) auto

text \<open>
  The number of durations that \<^verbatim>\<open>CollectResults\<close> reports for a node: a set has one per execution
  of its children, which is what the first child has per repetition.
\<close>

fun dur :: "'g instr \<Rightarrow> nat" where
  "dur (Leaf b k) = taken (Leaf b k)"
| "dur (InstructionSet b f cs) = (case cs of [] \<Rightarrow> 0 | c # _ \<Rightarrow> dur c div repeats c)"
| "dur (Multithreading b m cs) = taken (Multithreading b m cs)"

text \<open>
  Trees without memory allocations and empty sets, whose sets do not iterate inside another set, and in which all
  children of a set have been executed equally often.
\<close>

fun good :: "'g instr \<Rightarrow> bool" where
  "good (Leaf b k) \<longleftrightarrow> 0 < ib_repeat b \<and> leaf_ok (b, k)"
| "good (InstructionSet b f cs) \<longleftrightarrow>
     0 < ib_repeat b \<and> cs \<noteq> [] \<and> (\<forall>c \<in> set cs. good c \<and> \<not> iterating c) \<and>
     (\<exists>K. \<forall>c \<in> set cs. dur c = K * repeats c)"
| "good (Multithreading b m cs) \<longleftrightarrow> 0 < ib_repeat b \<and> (\<forall>c \<in> set cs. good c)"

lemma good_times: "good i \<Longrightarrow> 0 < repeats i"
  by (cases i) (auto simp: repeats_def)

lemma dur_set:
  assumes "\<forall>c \<in> set cs. good c" and "\<forall>c \<in> set cs. dur c = K * repeats c" and "cs \<noteq> []"
  shows "dur (InstructionSet b f cs) = K"
  using assms by (cases cs) (auto dest!: good_times)

lemma same_params_repeat: "same_params b b' \<Longrightarrow> ib_repeat b' = ib_repeat b"
  by (simp add: same_params_def)

text \<open>\<^verbatim>\<open>SetUp\<close> and \<^verbatim>\<open>SetUpSingle\<close> leave the counts alone.\<close>

definition alike :: "'g instr \<Rightarrow> 'g instr \<Rightarrow> bool" where
  "alike i i' \<longleftrightarrow> (good i \<longrightarrow> good i') \<and> dur i' = dur i \<and> repeats i' = repeats i \<and> taken i' = taken i \<and>
     iterating i' = iterating i \<and> depth i' = depth i \<and> is_set i' = is_set i"

lemma dur_taken: "\<not> is_set i \<Longrightarrow> dur i = taken i"
  by (cases i) auto

lemma alike_refl [simp]: "alike i i"
  by (simp add: alike_def)

lemma Instruction_SetUp_effect:
  assumes "Instruction_SetUp E b s = (Inr b', t)"
  shows "same_params b b'" and "ts_samples (ib_sampler b') = ts_samples (ib_sampler b)"
  using assms
  by (auto simp: Instruction_SetUp_def bindC_Inr_iff same_params_def split: if_splits)

lemma alike_base:
  assumes "same_params b b'" and "length (ts_samples (ib_sampler b')) = length (ts_samples (ib_sampler b))"
  shows "leaf_even (b', k') = leaf_even (b, k) \<Longrightarrow> is_mem k' = is_mem k \<Longrightarrow> alike (Leaf b k) (Leaf b' k')"
    and "is_list_key f' = is_list_key f \<Longrightarrow> is_item_key f' = is_item_key f \<Longrightarrow>
           alike (InstructionSet b f cs) (InstructionSet b' f' cs)"
    and "alike (Multithreading b m cs) (Multithreading b' m' cs)"
  using assms same_params_repeat [OF assms(1)]
  by (auto simp: alike_def taken_def repeats_def iterating_def leaf_ok_def)

lemma leaf_SetUp_effect:
  assumes "leaf_SetUp E (b, k) s = (Inr (b', k'), t)"
  shows "same_params b b' \<and> ts_samples (ib_sampler b') = ts_samples (ib_sampler b) \<and>
    leaf_even (b', k') = leaf_even (b, k) \<and> is_mem k' = is_mem k"
proof (cases k)
  case (WriteFile fsync f)
  then show ?thesis
    using assms by (auto simp: leaf_SetUp_def leafC_Inr_iff ReadWriteFile_SetUp_def leaf_even_def is_mem_def)
next
  case (ReadFile fadvise f)
  then show ?thesis
    using assms by (auto simp: leaf_SetUp_def leafC_Inr_iff ReadWriteFile_SetUp_def leaf_even_def is_mem_def)
next
  case (ResizeFileRandom f)
  then show ?thesis
    using assms by (auto simp: leaf_SetUp_def leafC_Inr_iff ResizeFileRandom_SetUp_def Let_def bindC_Inr_iff
        leaf_even_def is_mem_def dest: Instruction_SetUp_effect)
qed (use assms in \<open>auto simp: leaf_SetUp_def inherit_Inr_iff leaf_even_def is_mem_def
       dest: Instruction_SetUp_effect\<close>)

lemma mapC_result_Inr_iff: "mapC_result f m s = (Inr y, t) \<longleftrightarrow> (\<exists>x. m s = (Inr x, t) \<and> y = f x)"
  by (auto simp: mapC_result_def bindC_Inr_iff)

lemma vSetUp_alike:
  assumes "vSetUp E i s = (Inr i', t)"
  shows "alike i i'"
proof (cases i)
  case (Leaf b k)
  then obtain b' k' where "leaf_SetUp E (b, k) s = (Inr (b', k'), t)" "i' = Leaf b' k'"
    using assms by (auto simp: mapC_result_Inr_iff to_leaf_def)
  then show ?thesis using leaf_SetUp_effect Leaf by (fastforce intro: alike_base(1))
next
  case (InstructionSet b f cs)
  then show ?thesis
    using assms by (auto simp: mapC_result_Inr_iff InstructionSet_SetUp_def Let_def bindC_Inr_iff
        intro!: alike_base(2) dest: Instruction_SetUp_effect)
next
  case (Multithreading b m cs)
  then show ?thesis
    using assms by (auto simp: mapC_result_Inr_iff intro!: alike_base(3) dest: Instruction_SetUp_effect)
qed

lemma alike_kids_depth:
  "list_all2 alike cs cs' \<Longrightarrow> foldr max (map depth cs') n = foldr max (map depth cs) n"
  by (induction rule: list_all2_induct) (auto simp: alike_def)

lemma alike_kids_good: "list_all2 alike cs cs' \<Longrightarrow> \<forall>c \<in> set cs. good c \<Longrightarrow> \<forall>c \<in> set cs'. good c"
  by (induction rule: list_all2_induct) (auto simp: alike_def)

lemma vSetUpSingle_effect:
  assumes "vSetUpSingle E i s = (Inr i', t)"
  shows "alike i i'" and "set_up_base E (in_base i) (in_base i')"
proof -
  have "alike i i' \<and> set_up_base E (in_base i) (in_base i')"
  proof (cases i)
    case (Leaf b k)
    then obtain b' k' where *: "leaf_SetUpSingle E (b, k) s = (Inr (b', k'), t)" "i' = Leaf b' k'"
      using assms by (auto simp: mapC_result_Inr_iff to_leaf_def)
    note u = leaf_set_up [OF *(1)] and base = set_up_base_effect [OF leaf_set_up(1) [OF *(1)]]
    have "alike i i'"
      using u base(1,2) Leaf *(2) same_params_repeat [OF base(1)]
      by (auto simp: alike_def taken_def repeats_def iterating_def)
    then show ?thesis using u Leaf *(2) by simp
  next
    case (InstructionSet b f cs)
    then obtain b' f' t' where *: "Instruction_SetUpSingle E b s = (Inr b', t')" "i' = InstructionSet b' f' cs"
        "is_list_key f' = is_list_key f" "is_item_key f' = is_item_key f"
      using assms by (auto simp: mapC_result_Inr_iff InstructionSet_SetUpSingle_def Let_def bindC_Inr_iff
          split: if_splits)
    then have "set_up_base E b b'" by blast
    then show ?thesis using set_up_base_effect [of E b b'] * InstructionSet by (auto intro: alike_base(2))
  next
    case (Multithreading b m cs)
    then obtain b' cs' u where *: "mapC (vSetUp E) cs s = (Inr cs', u)"
        "Instruction_SetUpSingle E b u = (Inr b', t)" "i' = Multithreading b' (m\<lparr>mt_threads := []\<rparr>) cs'"
      using assms by (auto simp: Multithreading_SetUpSingle_def bindC_Inr_iff)
    then have b: "set_up_base E b b'" by blast
    have kids: "list_all2 alike cs cs'"
      using *(1) by (intro mapC_list_all2 [where f = "vSetUp E"]) (auto intro: vSetUp_alike)
    show ?thesis
      using set_up_base_effect(1,2) [OF b] same_params_repeat [OF set_up_base_effect(1) [OF b]] b *
        Multithreading alike_kids_depth [OF kids, of 0] alike_kids_good [OF kids]
      by (auto simp: alike_def taken_def repeats_def iterating_def)
  qed
  then show "alike i i'" "set_up_base E (in_base i) (in_base i')" by auto
qed

text \<open>
  One execution of the children of a set. \<open>run\<close> stands for \<^verbatim>\<open>Run\<close> of a child; the laws say
  that it keeps trees good and adds one repetition's worth of durations.
\<close>

definition child_runs :: "('w, 'g) env \<Rightarrow> ('g instr \<Rightarrow> ('w, 'g instr) act) \<Rightarrow> bool" where
  "child_runs E run \<longleftrightarrow>
     (\<forall>i s i' t. good i \<longrightarrow> run i s = (Inr i', t) \<longrightarrow>
        good i' \<and> repeats i' = repeats i \<and> iterating i' = iterating i \<and>
        (\<not> iterating i \<longrightarrow> dur i' = dur i + repeats i))"

definition kids :: "nat \<Rightarrow> 'g instr list \<Rightarrow> bool" where
  "kids K cs \<longleftrightarrow> (\<forall>c \<in> set cs. good c \<and> \<not> iterating c) \<and> (\<forall>c \<in> set cs. dur c = K * repeats c)"

lemma RunInstructions_kids:
  assumes "child_runs E run" and "kids K cs" and "RunInstructions E run cs s = (Inr cs', t)"
  shows "kids (Suc K) cs' \<and> length cs' = length cs"
proof -
  let ?R = "\<lambda>c c'. good c' \<and> \<not> iterating c' \<and> dur c' = Suc K * repeats c'"
  have "list_all2 ?R cs cs'"
  proof (rule mapC_list_all2 [OF _ assms(3) [unfolded RunInstructions_def]])
    fix c s c' t
    assume c: "c \<in> set cs" and run: "bindC (vSetUp E c) (\<lambda>c1. bindC (run c1) vTearDown) s = (Inr c', t)"
    obtain c1 s1 where *: "vSetUp E c s = (Inr c1, s1)" "run c1 s1 = (Inr c', t)"
      using run by (auto simp: bindC_Inr_iff vTearDown_def)
    note a = vSetUp_alike [OF *(1), unfolded alike_def]
    have "good c" "\<not> iterating c" "dur c = K * repeats c" using assms(2) c by (auto simp: kids_def)
    moreover have "good c' \<and> repeats c' = repeats c1 \<and> iterating c' = iterating c1 \<and>
        (\<not> iterating c1 \<longrightarrow> dur c' = dur c1 + repeats c1)"
      using a calculation(1) assms(1) *(2) unfolding child_runs_def by blast
    ultimately show "?R c c'" using a by auto
  qed
  then show ?thesis
    by (auto simp: kids_def list_all2_conv_all_nth in_set_conv_nth)
qed

lemma iterate_step_Inr_iff:
  "iterate_step E run xs ob i s = (Inr ob', t) \<longleftrightarrow>
     (\<exists>u. set_item E xs i (fst ob) s = (Inr (fst ob'), u) \<and> RunInstructions E run (snd ob) u = (Inr (snd ob'), t))"
  by (cases ob') (auto simp: iterate_step_def bindC_Inr_iff)

lemma iterate_kids:
  assumes "child_runs E run"
  shows "kids K (snd ob) \<Longrightarrow> foldC (iterate_step E run xs) ob is s = (Inr ob', t) \<Longrightarrow>
    kids (K + length is) (snd ob') \<and> length (snd ob') = length (snd ob) \<and>
    is_list_key (fst ob') = is_list_key (fst ob) \<and> is_item_key (fst ob') = is_item_key (fst ob)"
proof (induction "is" arbitrary: K ob s)
  case (Cons i "is")
  obtain f' cs' s1 s2 where *: "set_item E xs i (fst ob) s = (Inr f', s1)"
      "RunInstructions E run (snd ob) s1 = (Inr cs', s2)"
      "foldC (iterate_step E run xs) (f', cs') is s2 = (Inr ob', t)"
    using Cons.prems(2) by (auto simp: bindC_Inr_iff iterate_step_Inr_iff)
  have "is_list_key f' = is_list_key (fst ob) \<and> is_item_key f' = is_item_key (fst ob)"
    using *(1) by (auto simp: set_item_def bindC_Inr_iff split: order_kind.splits prod.splits if_splits)
  then show ?case
    using Cons.IH [OF _ *(3), of "Suc K"] RunInstructions_kids [OF assms Cons.prems(1) *(2)] by auto
qed simp

text \<open>\<^verbatim>\<open>RunSingle\<close> of a set executes the children once, or once per element of the list.\<close>

lemma InstructionSet_RunSingle_kids:
  assumes "child_runs E run" and "kids K cs"
    and "InstructionSet_RunSingle E run (f, cs) s = (Inr (f', cs'), t)"
  shows "is_list_key f' = is_list_key f \<and> is_item_key f' = is_item_key f \<and> length cs' = length cs \<and>
    (\<exists>m. kids (K + m) cs' \<and> (is_list_key f = -1 \<or> is_item_key f = -1 \<longrightarrow> m = 1) \<and>
       (is_list_key f \<noteq> -1 \<and> is_item_key f \<noteq> -1 \<longrightarrow>
          (\<exists>xs. sv_variables (ps_vars s) ! nat (is_list_key f) = VList xs \<and> m = length xs)))"
proof (cases "is_list_key f \<noteq> -1 \<and> is_item_key f \<noteq> -1")
  case True
  obtain v s1 where v: "varsC (Get (is_list_key f)) s = (Inr v, s1)"
      "(case v of
          VList xs \<Rightarrow>
            if narrow32 (int (length xs) - 1) < 0 then failC (Undefined EmptyRange)
            else foldC (iterate_step E run xs) (f, cs) [0..<length xs]
        | _ \<Rightarrow> failC not_iterable) s1 = (Inr (f', cs'), t)"
    using assms(3) True by (auto simp: InstructionSet_RunSingle_def bindC_Inr_iff simp del: varsC_Get)
  then obtain xs where "varsC (Get (is_list_key f)) s = (Inr (VList xs), s1)"
      "foldC (iterate_step E run xs) (f, cs) [0..<length xs] s1 = (Inr (f', cs'), t)"
    by (cases v) (auto simp del: varsC_Get split: if_splits)
  moreover from this have "sv_variables (ps_vars s) ! nat (is_list_key f) = VList xs"
    by (auto split: if_splits)
  ultimately show ?thesis
    using iterate_kids [OF assms(1), of K "(f, cs)" xs "[0..<length xs]" s1 "(f', cs')" t] assms(2) True
    by auto
next
  case False
  then have "RunInstructions E run cs s = (Inr cs', t)" "f' = f"
    using assms(3) by (auto simp: InstructionSet_RunSingle_def bindC_Inr_iff)
  then show ?thesis using RunInstructions_kids [OF assms(1,2)] False
    by (auto intro: exI [of _ 1])
qed

text \<open>Threads keep their instructions good: every step is a step of one of them.\<close>

lemma join_threads_keeps:
  assumes step: "\<And>p j c s c' t. P c \<Longrightarrow> step p j c s = (Inr c', t) \<Longrightarrow> P c' \<and> depth c' = depth c"
  shows "join_threads E step n ob s = (Inr ob', t) \<Longrightarrow> \<forall>c \<in> set (snd ob). P c \<Longrightarrow>
    (\<forall>c \<in> set (snd ob'). P c) \<and> map depth (snd ob') = map depth (snd ob)"
proof (induction n arbitrary: ob s)
  case (Suc n)
  show ?case
  proof (cases "runnable (fst ob) = []")
    case True
    then show ?thesis using Suc.prems by simp
  next
    case False
    then obtain j s1 c s2 where *: "step (hd (fst ob ! j)) j (snd ob ! j) s1 = (Inr c, s2)"
        "join_threads E step n ((fst ob)[j := tl (fst ob ! j)], (snd ob)[j := c]) s2 = (Inr ob', t)"
      using Suc.prems(1) by (auto simp: bindC_Inr_iff split: if_splits)
    have new: "(\<forall>d \<in> set ((snd ob)[j := c]). P d) \<and> map depth ((snd ob)[j := c]) = map depth (snd ob)"
    proof (cases "j < length (snd ob)")
      case True
      then have "P (snd ob ! j)" using Suc.prems(2) by simp
      from step [OF this *(1)] show ?thesis
        using Suc.prems(2) set_update_subset_insert [of "snd ob" j c] True
        by (auto simp: map_update intro!: list_update_same_conv [THEN iffD2])
    qed (use Suc.prems(2) in \<open>simp add: list_update_beyond\<close>)
    show ?thesis using Suc.IH [OF *(2)] new by simp
  qed
qed simp

section \<open>Depth\<close>

lemma run_times_keeps:
  assumes "\<And>l ob s ob' t. P ob \<Longrightarrow> single l ob s = (Inr ob', t) \<Longrightarrow> P ob' \<and> c ob' = Suc (c ob)"
  shows "run_times single n ob s = (Inr ob', t) \<Longrightarrow> P ob \<Longrightarrow> P ob' \<and> c ob' = c ob + n"
proof (induction n arbitrary: ob s)
  case (Suc n)
  then obtain o1 s1 where "single (n = 0) ob s = (Inr o1, s1)" "run_times single n o1 s1 = (Inr ob', t)"
    by (auto simp: bindC_Inr_iff)
  then show ?case using Suc.IH assms [OF Suc.prems(2)] by fastforce
qed simp

definition level :: "'g instr list \<Rightarrow> nat" where
  "level cs = foldr max (map depth cs) 0"

lemma depth_level [simp]:
  "depth (InstructionSet b f cs) = Suc (level cs)" "depth (Multithreading b m cs) = Suc (level cs)"
  by (simp_all add: level_def)

declare depth.simps(2,3) [simp del]

lemma depth_pos [simp]: "0 < depth i" "depth i \<noteq> 0"
  by (cases i; simp)+

lemma level_le: "c \<in> set cs \<Longrightarrow> depth c \<le> level cs"
  unfolding level_def by (induction cs) auto

lemma level_cong: "map depth cs' = map depth cs \<Longrightarrow> level cs' = level cs"
  by (simp add: level_def)

definition keeps_depth :: "('g instr \<Rightarrow> ('w, 'g instr) act) \<Rightarrow> bool" where
  "keeps_depth m \<longleftrightarrow> (\<forall>i s i' t. m i s = (Inr i', t) \<longrightarrow> depth i' = depth i)"

lemma keeps_depthD: "keeps_depth m \<Longrightarrow> m i s = (Inr i', t) \<Longrightarrow> depth i' = depth i"
  unfolding keeps_depth_def by blast

lemma mapC_vTearDown [simp]: "mapC vTearDown cs = returnC cs"
  by (induction cs) (simp_all add: vTearDown_def)

lemma RunInstructions_depth:
  assumes "keeps_depth run" and "RunInstructions E run cs s = (Inr cs', t)"
  shows "map depth cs' = map depth cs"
proof -
  have "list_all2 (\<lambda>c c'. depth c' = depth c) cs cs'"
    using assms(2) unfolding RunInstructions_def
    by (intro mapC_list_all2 [of cs "\<lambda>c. bindC (vSetUp E c) (\<lambda>c1. bindC (run c1) vTearDown)"])
      (auto simp: bindC_Inr_iff vTearDown_def alike_def dest!: vSetUp_alike keeps_depthD [OF assms(1)])
  then show ?thesis by (auto simp: list_all2_conv_all_nth intro: nth_equalityI)
qed

lemma iterate_depth:
  assumes "keeps_depth run"
  shows "foldC (iterate_step E run xs) ob ks s = (Inr ob', t) \<Longrightarrow> map depth (snd ob') = map depth (snd ob)"
proof (induction ks arbitrary: ob s)
  case (Cons i ks)
  then show ?case
    by (auto simp: bindC_Inr_iff iterate_step_Inr_iff dest!: RunInstructions_depth [OF assms])
qed simp

lemma InstructionSet_RunSingle_depth:
  assumes "keeps_depth run" and "InstructionSet_RunSingle E run ob s = (Inr ob', t)"
  shows "map depth (snd ob') = map depth (snd ob)"
  using assms(2) iterate_depth [OF assms(1)] RunInstructions_depth [OF assms(1)]
  by (auto simp: InstructionSet_RunSingle_def bindC_Inr_iff split: if_splits variant.splits)

lemma run_keeps_depth:
  assumes "keeps_depth run_single" and "\<And>l. keeps_depth (tear_down_single l)"
  shows "keeps_depth (Instruction_Run in_base (vSetUpSingle E) run_single tear_down_single)"
  unfolding keeps_depth_def
proof (intro allI impI)
  fix i s i' t
  assume run: "Instruction_Run in_base (vSetUpSingle E) run_single tear_down_single i s = (Inr i', t)"
  have step: "depth ob' = depth i" if same: "depth ob = depth i" and
      single: "Instruction_single (vSetUpSingle E) run_single tear_down_single l ob s = (Inr ob', t)" for l ob s ob' t
  proof -
    obtain o1 o2 s1 s2 where "vSetUpSingle E ob s = (Inr o1, s1)" "run_single o1 s1 = (Inr o2, s2)"
        "tear_down_single l o2 s2 = (Inr ob', t)"
      using single by (auto simp: Instruction_single_def bindC_Inr_iff)
    then show ?thesis
      using same vSetUpSingle_effect(1) [of E ob s o1 s1, unfolded alike_def]
        keeps_depthD [OF assms(1)] keeps_depthD [OF assms(2)] by metis
  qed
  show "depth i' = depth i"
    by (rule run_times_invariant [where I = "\<lambda>ob s. depth ob = depth i",
          OF _ refl run [unfolded Instruction_Run_def]]) (rule step)
qed

lemma thread_phase_depth:
  assumes "keeps_depth run_single" and "\<And>l. keeps_depth (tear_down_single l)"
    and "thread_phase E run_single tear_down_single ps p j c s = (Inr c', t)"
  shows "depth c' = depth c"
  using assms(3) keeps_depthD [OF assms(1)] keeps_depthD [OF assms(2)] vSetUpSingle_effect(1)
  by (cases p) (auto simp: thread_phase_def bindC_Inr_iff alike_def dest: vSetUpSingle_effect(1))

lemma methods_keep_depth:
  "keeps_depth (vRunSingle E n) \<and> (\<forall>l. keeps_depth (vTearDownSingle E n l))"
proof (induction n)
  case 0
  show ?case by (simp add: keeps_depth_def)
next
  case (Suc n)
  note run = run_keeps_depth [of "vRunSingle E n" "vTearDownSingle E n" E]
  have 1: "depth i' = depth i" if r: "vRunSingle E (Suc n) i s = (Inr i', t)" for i s i' t
  proof (cases i)
    case (InstructionSet b f cs)
    then obtain f' cs' where "i' = InstructionSet b f' cs'"
        "InstructionSet_RunSingle E (Instruction_Run in_base (vSetUpSingle E) (vRunSingle E n) (vTearDownSingle E n))
           (f, cs) s = (Inr (f', cs'), t)"
      using r by (auto simp: mapC_result_Inr_iff)
    then show ?thesis
      using InstructionSet_RunSingle_depth [OF run] Suc InstructionSet level_cong by fastforce
  qed (use r in \<open>auto simp: mapC_result_Inr_iff to_leaf_def\<close>)
  have 2: "depth i' = depth i" if r: "vTearDownSingle E (Suc n) l i s = (Inr i', t)" for l i s i' t
  proof (cases i)
    case (Multithreading b m cs)
    then obtain b' todo cs' u where j: "join_threads E (thread_phase E (vRunSingle E n) (vTearDownSingle E n) (mt_params m))
          (sum_list (map length (mt_threads m))) (mt_threads m, cs) s = (Inr (todo, cs'), u)"
        "i' = Multithreading b' (m\<lparr>mt_threads := todo\<rparr>) cs'"
      using r by (auto simp: Multithreading_TearDownSingle_def bindC_Inr_iff)
    have "map depth cs' = map depth cs"
    proof -
      have phase: "True \<and> depth c' = depth c"
        if "thread_phase E (vRunSingle E n) (vTearDownSingle E n) (mt_params m) p k c s = (Inr c', t)"
        for p k c s c' t
        using thread_phase_depth [OF _ _ that] Suc by simp
      from join_threads_keeps [where P = "\<lambda>_. True", OF phase j(1)] show ?thesis by simp
    qed
    then show ?thesis using j(2) Multithreading level_cong by auto
  qed (use r in \<open>auto simp: mapC_result_Inr_iff to_leaf_def\<close>)
  show ?case using 1 2 by (auto simp: keeps_depth_def)
qed

section \<open>The tree\<close>

text \<open>
  The laws at \<open>n\<close> levels: the interface of a class of instructions, and that running an instruction
  that does not iterate adds one duration per repetition.
\<close>

definition tree_laws :: "('w, 'g) env \<Rightarrow> nat \<Rightarrow> bool" where
  "tree_laws E n \<longleftrightarrow>
     instruction_class E in_base (vSetUpSingle E) (vRunSingle E n) (vTearDownSingle E n) good \<and>
     child_runs E (vRun E n)"

lemma set_up_good:
  "good i \<Longrightarrow> vSetUpSingle E i s = (Inr i', t) \<Longrightarrow> good i' \<and> set_up_base E (in_base i) (in_base i')"
  using vSetUpSingle_effect unfolding alike_def by blast

lemma kids_of_good:
  "good (InstructionSet b f cs) \<longleftrightarrow> 0 < ib_repeat b \<and> cs \<noteq> [] \<and> (\<exists>K. kids K cs)"
  by (auto simp: kids_def)

lemma run_good:
  assumes "tree_laws E n" and "good i" and "vRunSingle E (Suc n) i s = (Inr i', t)"
  shows "good i' \<and> in_base i' = in_base i \<and> iterating i' = iterating i \<and> is_set i' = is_set i \<and>
    (is_set i \<longrightarrow> \<not> iterating i \<longrightarrow> dur i' = Suc (dur i))"
proof (cases i)
  case (Leaf b k)
  then show ?thesis
    using assms(2,3) leaf_run by (fastforce simp: mapC_result_Inr_iff to_leaf_def iterating_def)
next
  case (InstructionSet b f cs)
  then obtain f' cs' where r: "i' = InstructionSet b f' cs'"
      "InstructionSet_RunSingle E (vRun E n) (f, cs) s = (Inr (f', cs'), t)"
    using assms(3) by (auto simp: mapC_result_Inr_iff vRun_def)
  obtain K where K: "kids K cs" "0 < ib_repeat b" "cs \<noteq> []" using assms(2) InstructionSet kids_of_good by blast
  have "child_runs E (vRun E n)" using assms(1) by (simp add: tree_laws_def)
  note e = InstructionSet_RunSingle_kids [OF this K(1) r(2)]
  then obtain m where m: "kids (K + m) cs'" "is_list_key f = -1 \<or> is_item_key f = -1 \<longrightarrow> m = 1" by blast
  have ne: "cs' \<noteq> []" using e K(3) by auto
  have it: "iterating i' = iterating i" using e r(1) InstructionSet by (simp add: iterating_def)
  have g: "good i'" using r(1) m(1) K(2) ne kids_of_good by blast
  have "dur i' = Suc (dur i)" if "\<not> iterating i"
  proof -
    have "m = 1" using m(2) that InstructionSet by (auto simp: iterating_def)
    moreover have "dur i = K" using dur_set K(1,3) InstructionSet unfolding kids_def by blast
    moreover have "dur i' = K + m" using dur_set m(1) ne r(1) unfolding kids_def by blast
    ultimately show ?thesis by simp
  qed
  then show ?thesis using it g r(1) InstructionSet by (simp del: good.simps dur.simps)
next
  case (Multithreading b m cs)
  then show ?thesis
    using assms(2,3) by (auto simp: mapC_result_Inr_iff iterating_def)
qed

lemma good_base:
  assumes "tear_down_base E b b'"
  shows "good (InstructionSet b' f cs) = good (InstructionSet b f cs)"
    and "dur (InstructionSet b' f cs) = dur (InstructionSet b f cs)"
    and "iterating (InstructionSet b' f cs) = iterating (InstructionSet b f cs)"
  using same_params_repeat [OF tear_down_base_effect(1) [OF assms]] by (auto simp: iterating_def)

lemma phase_good:
  assumes "tree_laws E n" and "good c"
    and "thread_phase E (vRunSingle E n) (vTearDownSingle E n) ps p j c s = (Inr c', t)"
  shows "good c' \<and> depth c' = depth c"
proof -
  have cls: "instruction_class E in_base (vSetUpSingle E) (vRunSingle E n) (vTearDownSingle E n) good"
    using assms(1) by (simp add: tree_laws_def)
  have "good c'"
  proof (cases p)
    case Enter
    then show ?thesis using assms(2,3) by (auto simp: thread_phase_def bindC_Inr_iff)
  next
    case SetUpPhase
    then show ?thesis using set_up_good [OF assms(2)] assms(3) by (auto simp: thread_phase_def)
  next
    case RunPhase
    then show ?thesis using instruction_class.run_law [OF cls assms(2)] assms(3) by (auto simp: thread_phase_def)
  next
    case (TearDownPhase l)
    then show ?thesis
      using instruction_class.tear_down_law [OF cls assms(2)] assms(3) by (auto simp: thread_phase_def)
  qed
  then show ?thesis
    using thread_phase_depth [OF _ _ assms(3)] methods_keep_depth [of E n] by blast
qed

lemma tear_down_good:
  assumes "tree_laws E n" and "good i" and "vTearDownSingle E (Suc n) l i s = (Inr i', t)"
  shows "good i' \<and> tear_down_base E (in_base i) (in_base i') \<and> iterating i' = iterating i \<and>
    is_set i' = is_set i \<and> (is_set i \<longrightarrow> dur i' = dur i)"
proof (cases i)
    case (Leaf b k)
    then obtain b' k' where *: "leaf_TearDownSingle E l (b, k) s = (Inr (b', k'), t)" "i' = Leaf b' k'"
      using assms(3) by (auto simp: mapC_result_Inr_iff to_leaf_def)
    have "leaf_ok (b, k)" using assms(2) Leaf by simp
    note d = leaf_tear_down [OF *(1) this]
    then show ?thesis
      using assms(2) Leaf *(2) same_params_repeat [OF tear_down_base_effect(1) [OF d(1)]]
      by (auto simp: iterating_def)
  next
    case (InstructionSet b f cs)
    then obtain b' where *: "i' = InstructionSet b' f cs" "tear_down_base E b b'"
      using assms(3) by (auto simp: mapC_result_Inr_iff)
    then show ?thesis
      using assms(2) InstructionSet good_base [OF *(2), of f cs] by (auto simp del: good.simps dur.simps)
  next
    case (Multithreading b m cs)
    then obtain b' todo cs' u where *: "join_threads E (thread_phase E (vRunSingle E n) (vTearDownSingle E n) (mt_params m))
          (sum_list (map length (mt_threads m))) (mt_threads m, cs) s = (Inr (todo, cs'), u)"
        "i' = Multithreading b' (m\<lparr>mt_threads := todo\<rparr>) cs'"
        "Instruction_TearDownSingle E l b u = (Inr b', t)"
      using assms(3) by (auto simp: Multithreading_TearDownSingle_def bindC_Inr_iff)
    note down = tear_down_baseI [OF *(3)]
    have "\<forall>c \<in> set cs'. good c"
      using join_threads_keeps [where P = good, OF phase_good [OF assms(1)] *(1)] assms(2) Multithreading
      by simp
    then show ?thesis
      using * assms(2) Multithreading same_params_repeat [OF tear_down_base_effect(1) [OF down]] down
      by (simp add: iterating_def)
  qed

lemma tree_class_Suc:
  fixes E :: "('w, 'g) env"
  assumes "tree_laws E n"
  shows "instruction_class E in_base (vSetUpSingle E) (vRunSingle E (Suc n)) (vTearDownSingle E (Suc n)) good"
proof unfold_locales
  fix i i' :: "'g instr" and s t :: "'w pstate"
  assume g: "good i"
  show "vSetUpSingle E i s = (Inr i', t) \<Longrightarrow> good i' \<and> set_up_base E (in_base i) (in_base i')"
    by (rule set_up_good [OF g])
  show "vRunSingle E (Suc n) i s = (Inr i', t) \<Longrightarrow> good i' \<and> in_base i' = in_base i"
    using run_good [OF assms g] by blast
  show "vTearDownSingle E (Suc n) l i s = (Inr i', t) \<Longrightarrow> good i' \<and> tear_down_base E (in_base i) (in_base i')" for l
    using tear_down_good [OF assms g] by blast
qed

lemma single_Inr_iff:
  "Instruction_single su rs td l ob s = (Inr ob', t) \<longleftrightarrow>
     (\<exists>o1 s1 o2 s2. su ob s = (Inr o1, s1) \<and> rs o1 s1 = (Inr o2, s2) \<and> td l o2 s2 = (Inr ob', t))"
  by (auto simp: Instruction_single_def bindC_Inr_iff)

text \<open>One iteration keeps the class of a node, and adds a duration to a set.\<close>

lemma single_good:
  assumes "tree_laws E n" and "good ob"
    and "Instruction_single (vSetUpSingle E) (vRunSingle E (Suc n)) (vTearDownSingle E (Suc n)) l ob s = (Inr ob', t)"
  shows "good ob' \<and> iterating ob' = iterating ob \<and> is_set ob' = is_set ob \<and>
    (is_set ob \<longrightarrow> \<not> iterating ob \<longrightarrow> dur ob' = Suc (dur ob))"
proof -
  obtain o1 s1 o2 s2 where *: "vSetUpSingle E ob s = (Inr o1, s1)" "vRunSingle E (Suc n) o1 s1 = (Inr o2, s2)"
      "vTearDownSingle E (Suc n) l o2 s2 = (Inr ob', t)"
    using assms(3) by (auto simp: single_Inr_iff)
  note u = vSetUpSingle_effect(1) [OF *(1), unfolded alike_def]
  then have g1: "good o1" using assms(2) by blast
  note r = run_good [OF assms(1) g1 *(2)]
  note d = tear_down_good [OF assms(1) conjunct1 [OF r] *(3)]
  show ?thesis using u r d by metis
qed

lemma tree_laws_hold:
  fixes E :: "('w, 'g) env"
  shows "tree_laws E n"
proof (induction n)
  case 0
  have "child_runs E (vRun E 0)"
    unfolding child_runs_def vRun_def Instruction_Run_def
  proof (intro allI impI)
    fix i i' :: "'g instr" and s t :: "'w pstate"
    assume "good i" and run: "run_times (Instruction_single (vSetUpSingle E) (vRunSingle E 0) (vTearDownSingle E 0))
        (nat (ib_repeat (in_base i))) i s = (Inr i', t)"
    obtain n where "nat (ib_repeat (in_base i)) = Suc n"
      using good_times [OF \<open>good i\<close>] by (cases "nat (ib_repeat (in_base i))") (auto simp: repeats_def)
    then have False using run by (auto simp: bindC_Inr_iff single_Inr_iff)
    then show "good i' \<and> repeats i' = repeats i \<and> iterating i' = iterating i \<and>
        (\<not> iterating i \<longrightarrow> dur i' = dur i + repeats i)" ..
  qed
  moreover have "instruction_class E in_base (vSetUpSingle E) (vRunSingle E 0) (vTearDownSingle E 0) good"
    by unfold_locales (auto dest: set_up_good)
  ultimately show ?case by (simp add: tree_laws_def)
next
  case (Suc n)
  note cls = tree_class_Suc [OF Suc]
  have "child_runs E (vRun E (Suc n))"
    unfolding child_runs_def
  proof (intro allI impI)
    fix i i' :: "'g instr" and s t :: "'w pstate"
    assume g: "good i" and run: "vRun E (Suc n) i s = (Inr i', t)"
    let ?single = "Instruction_single (vSetUpSingle E) (vRunSingle E (Suc n)) (vTearDownSingle E (Suc n))"
    note e = instruction_class.run_effect [OF cls g run [unfolded vRun_def]]
    have run: "run_times ?single (repeats i) i s = (Inr i', t)"
      using run by (simp add: vRun_def Instruction_Run_def repeats_def)
    have keep: "good i' \<and> iterating i' = iterating i \<and> is_set i' = is_set i"
      by (rule run_times_invariant [where I = "\<lambda>ob s. good ob \<and> iterating ob = iterating i \<and> is_set ob = is_set i",
            OF _ _ run]) (use single_good [OF Suc] g in blast)+
    have "dur i' = dur i + repeats i" if still: "\<not> iterating i"
    proof (cases "is_set i")
      case True
      have "(good i' \<and> \<not> iterating i' \<and> is_set i') \<and> dur i' = dur i + repeats i"
        by (rule run_times_keeps [where P = "\<lambda>ob. good ob \<and> \<not> iterating ob \<and> is_set ob", OF _ run])
          (use single_good [OF Suc] g True still in blast)+
      then show ?thesis ..
    next
      case False
      then show ?thesis using dur_taken [of i] dur_taken [of i'] keep e(3) by (simp add: taken_def repeats_def)
    qed
    then show "good i' \<and> repeats i' = repeats i \<and> iterating i' = iterating i \<and>
        (\<not> iterating i \<longrightarrow> dur i' = dur i + repeats i)"
      using keep e(1) same_params_repeat [OF e(2)] by (simp add: repeats_def)
  qed
  then show ?case using cls by (simp add: tree_laws_def)
qed

interpretation tree: instruction_class E in_base "vSetUpSingle E" "vRunSingle E n" "vTearDownSingle E n" good
  for E :: "('w, 'g) env" and n :: nat
  using tree_laws_hold [of E n] by (simp add: tree_laws_def)

lemma vRun_good:
  "good i \<Longrightarrow> vRun E n i s = (Inr i', t) \<Longrightarrow>
     good i' \<and> repeats i' = repeats i \<and> iterating i' = iterating i \<and>
     (\<not> iterating i \<longrightarrow> dur i' = dur i + repeats i)"
  using tree_laws_hold [of E n] unfolding tree_laws_def child_runs_def by blast

section \<open>As many levels as the tree has are enough\<close>

lemma run_times_agree:
  assumes same: "\<And>l ob s. P ob \<Longrightarrow> single l ob s = single' l ob s"
    and keep: "\<And>l ob s ob' t. P ob \<Longrightarrow> single l ob s = (Inr ob', t) \<Longrightarrow> P ob'"
  shows "P ob \<Longrightarrow> run_times single n ob s = run_times single' n ob s"
proof (induction n arbitrary: ob s)
  case (Suc n)
  show ?case
    using Suc.IH keep [OF Suc.prems]
    by (auto simp: same [OF Suc.prems, symmetric] intro!: bindC_cong same [OF Suc.prems])
qed simp

lemma foldC_agree:
  assumes same: "\<And>ob x s. P ob \<Longrightarrow> f ob x s = g ob x s"
    and keep: "\<And>ob x s ob' t. P ob \<Longrightarrow> f ob x s = (Inr ob', t) \<Longrightarrow> P ob'"
  shows "P ob \<Longrightarrow> foldC f ob xs s = foldC g ob xs s"
proof (induction xs arbitrary: ob s)
  case (Cons x xs)
  show ?case
    using Cons.IH keep [OF Cons.prems]
    by (auto simp: same [OF Cons.prems, symmetric] intro!: bindC_cong same [OF Cons.prems])
qed simp

text \<open>Methods that agree on trees of at most \<open>n\<close> levels.\<close>

definition agree :: "nat \<Rightarrow> ('g instr \<Rightarrow> ('w, 'g instr) act) \<Rightarrow> ('g instr \<Rightarrow> ('w, 'g instr) act) \<Rightarrow> bool" where
  "agree n f g \<longleftrightarrow> (\<forall>i s. depth i \<le> n \<longrightarrow> f i s = g i s)"

lemma run_agree:
  fixes rs rs' :: "'g instr \<Rightarrow> ('w, 'g instr) act"
  assumes "agree n rs rs'" and "\<And>l. agree n (td l) (td' l)"
    and "keeps_depth rs" and "\<And>l. keeps_depth (td l)"
  shows "agree n (Instruction_Run in_base (vSetUpSingle E) rs td) (Instruction_Run in_base (vSetUpSingle E) rs' td')"
  unfolding agree_def Instruction_Run_def
proof (intro allI impI)
  fix i :: "'g instr" and s :: "'w pstate"
  assume d: "depth i \<le> n"
  have same: "Instruction_single (vSetUpSingle E) rs td l ob s = Instruction_single (vSetUpSingle E) rs' td' l ob s"
    if ob: "depth ob \<le> n" for l ob s
    unfolding Instruction_single_def
  proof (rule bindC_cong [OF refl], rule bindC_cong)
    fix o1 s1 assume "vSetUpSingle E ob s = (Inr o1, s1)"
    then have 1: "depth o1 \<le> n" using vSetUpSingle_effect(1) ob unfolding alike_def by metis
    then show eq: "rs o1 s1 = rs' o1 s1" using assms(1) by (simp add: agree_def)
    fix o2 s2 assume "rs' o1 s1 = (Inr o2, s2)"
    then have "depth o2 \<le> n" using eq keeps_depthD [OF assms(3)] 1 by metis
    then show "td l o2 s2 = td' l o2 s2" using assms(2) by (simp add: agree_def)
  qed
  have keep: "depth ob' \<le> n" if ob: "depth ob \<le> n"
      and one: "Instruction_single (vSetUpSingle E) rs td l ob s = (Inr ob', t)" for l ob s ob' t
  proof -
    obtain o1 s1 o2 s2 where "vSetUpSingle E ob s = (Inr o1, s1)" "rs o1 s1 = (Inr o2, s2)"
        "td l o2 s2 = (Inr ob', t)"
      using one by (auto simp: single_Inr_iff)
    then show ?thesis
      using ob vSetUpSingle_effect(1) keeps_depthD [OF assms(3)] keeps_depthD [OF assms(4)]
      unfolding alike_def by metis
  qed
  show "run_times (Instruction_single (vSetUpSingle E) rs td) (nat (ib_repeat (in_base i))) i s =
      run_times (Instruction_single (vSetUpSingle E) rs' td') (nat (ib_repeat (in_base i))) i s"
    by (rule run_times_agree [where P = "\<lambda>ob. depth ob \<le> n", OF same keep d])
qed

lemma level_leD: "c \<in> set cs \<Longrightarrow> level cs \<le> n \<Longrightarrow> depth c \<le> n"
  using level_le le_trans by blast

lemma RunInstructions_agree:
  assumes "agree n run run'" and "level cs \<le> n"
  shows "RunInstructions E run cs s = RunInstructions E run' cs s"
  unfolding RunInstructions_def
proof (rule mapC_cong_on, rule bindC_cong [OF refl])
  fix c s c1 s1 assume "c \<in> set cs" and "vSetUp E c s = (Inr c1, s1)"
  then have "depth c1 \<le> n"
    using vSetUp_alike level_leD [OF _ assms(2)] unfolding alike_def by metis
  then show "bindC (run c1) vTearDown s1 = bindC (run' c1) vTearDown s1"
    using assms(1) by (intro bindC_cong) (simp_all add: agree_def)
qed

lemma InstructionSet_RunSingle_agree:
  assumes "agree n run run'" and "keeps_depth run" and "level (snd ob) \<le> n"
  shows "InstructionSet_RunSingle E run ob s = InstructionSet_RunSingle E run' ob s"
proof -
  have step: "iterate_step E run xs ob i s = iterate_step E run' xs ob i s" if "level (snd ob) \<le> n" for xs ob i s
    unfolding iterate_step_def
    by (rule bindC_cong [OF refl], rule bindC_cong) (simp_all add: RunInstructions_agree [OF assms(1) that])
  have keep: "level (snd ob') \<le> n" if lev: "level (snd ob) \<le> n" and it: "iterate_step E run xs ob i s = (Inr ob', t)" for xs ob i s ob' t
  proof -
    obtain u where "RunInstructions E run (snd ob) u = (Inr (snd ob'), t)"
      using it by (auto simp: iterate_step_Inr_iff)
    from level_cong [OF RunInstructions_depth [OF assms(2) this]] lev show ?thesis by simp
  qed
  have "foldC (iterate_step E run xs) ob ks s = foldC (iterate_step E run' xs) ob ks s" for xs ks s
    by (rule foldC_agree [where P = "\<lambda>ob. level (snd ob) \<le> n", OF step keep assms(3)])
  then show ?thesis
    unfolding InstructionSet_RunSingle_def
    using RunInstructions_agree [OF assms(1,3)]
    by (auto intro!: bindC_cong split: variant.splits)
qed

lemma join_threads_agree:
  assumes same: "\<And>p j c s. depth c \<le> n \<Longrightarrow> step p j c s = step' p j c s"
    and keep: "\<And>p j c s c' t. step p j c s = (Inr c', t) \<Longrightarrow> depth c' = depth c"
  shows "level (snd ob) \<le> n \<Longrightarrow> join_threads E step k ob s = join_threads E step' k ob s"
proof (induction k arbitrary: ob s)
  case (Suc k)
  have body: "bindC (step (hd (fst ob ! j)) j (snd ob ! j)) (\<lambda>c. join_threads E step k ((fst ob)[j := tl (fst ob ! j)], (snd ob)[j := c])) s1 =
      bindC (step' (hd (fst ob ! j)) j (snd ob ! j)) (\<lambda>c. join_threads E step' k ((fst ob)[j := tl (fst ob ! j)], (snd ob)[j := c])) s1"
    if j: "j < length (snd ob)" for j s1
  proof (rule bindC_cong)
    have d: "depth (snd ob ! j) \<le> n" using j by (intro level_leD [OF _ Suc.prems]) simp
    show "step (hd (fst ob ! j)) j (snd ob ! j) s1 = step' (hd (fst ob ! j)) j (snd ob ! j) s1"
      by (rule same [OF d])
    fix c s2 assume "step' (hd (fst ob ! j)) j (snd ob ! j) s1 = (Inr c, s2)"
    then have "depth c = depth (snd ob ! j)" using same [OF d] keep by metis
    then have "map depth ((snd ob)[j := c]) = map depth (snd ob)"
      using j by (simp add: map_update list_update_same_conv)
    from level_cong [OF this] Suc.prems
    show "join_threads E step k ((fst ob)[j := tl (fst ob ! j)], (snd ob)[j := c]) s2 =
        join_threads E step' k ((fst ob)[j := tl (fst ob ! j)], (snd ob)[j := c]) s2"
      by (intro Suc.IH) auto
  qed
  then show ?case by (auto intro!: bindC_cong body)
qed simp

lemma thread_phase_agree:
  assumes "agree n rs rs'" and "\<And>l. agree n (td l) (td' l)" and "depth c \<le> n"
  shows "thread_phase E rs td ps p j c s = thread_phase E rs' td' ps p j c s"
  using assms by (auto simp: thread_phase_def agree_def split: phase.splits)

lemma methods_agree:
  "agree n (vRunSingle E n) (vRunSingle E (n + k)) \<and> (\<forall>l. agree n (vTearDownSingle E n l) (vTearDownSingle E (n + k) l))"
proof (induction n)
  case 0
  show ?case by (simp add: agree_def)
next
  case (Suc n)
  let ?run = "\<lambda>n. Instruction_Run in_base (vSetUpSingle E) (vRunSingle E n) (vTearDownSingle E n)"
  have d: "keeps_depth (vRunSingle E n)" "\<And>l. keeps_depth (vTearDownSingle E n l)"
    using methods_keep_depth by blast+
  have run: "agree n (?run n) (?run (n + k))"
    using Suc by (intro run_agree [OF _ _ d]) auto
  have 1: "vRunSingle E (Suc n) i s = vRunSingle E (Suc n + k) i s" if "depth i \<le> Suc n" for i s
  proof (cases i)
    case (InstructionSet b f cs)
    then have "level cs \<le> n" using that by simp
    then show ?thesis
      using InstructionSet_RunSingle_agree [OF run run_keeps_depth [OF d], of "(f, cs)"] InstructionSet
      by (simp add: mapC_result_def bindC_def)
  qed simp_all
  have 2: "vTearDownSingle E (Suc n) l i s = vTearDownSingle E (Suc n + k) l i s" if "depth i \<le> Suc n" for l i s
  proof (cases i)
    case (Multithreading b m cs)
    then have "level (snd (mt_threads m, cs)) \<le> n" using that by simp
    note lev = this
    have same: "thread_phase E (vRunSingle E n) (vTearDownSingle E n) ps p j c s =
        thread_phase E (vRunSingle E (n + k)) (vTearDownSingle E (n + k)) ps p j c s" if "depth c \<le> n" for ps p j c s
      by (rule thread_phase_agree [OF _ _ that]) (use Suc in blast)+
    have "join_threads E (thread_phase E (vRunSingle E n) (vTearDownSingle E n) (mt_params m)) q (mt_threads m, cs) s =
        join_threads E (thread_phase E (vRunSingle E (n + k)) (vTearDownSingle E (n + k)) (mt_params m)) q (mt_threads m, cs) s" for q
      by (rule join_threads_agree [OF same thread_phase_depth [OF d] lev])
    then show ?thesis
      using Multithreading by (simp add: Multithreading_TearDownSingle_def bindC_def)
  qed simp_all
  show ?case using 1 2 by (simp add: agree_def)
qed

lemma vRun_agree: "depth i \<le> n \<Longrightarrow> vRun E n i s = Run E i s"
proof -
  assume n: "depth i \<le> n"
  have "agree (depth i) (vRun E (depth i)) (vRun E (depth i + (n - depth i)))"
    unfolding vRun_def
    using methods_agree [of "depth i" E "n - depth i"] methods_keep_depth [of E "depth i"]
    by (intro run_agree) blast+
  then show ?thesis using n by (simp add: agree_def Run_def)
qed

section \<open>Collecting the results\<close>

text \<open>
  A node whose samples can be reported: it has some, each is in the range of a number of nanoseconds,
  and the counts are in the range of the C++ types.
\<close>

definition readable :: "ibase \<Rightarrow> bool" where
  "readable b \<longleftrightarrow> ts_samples (ib_sampler b) \<noteq> [] \<and>
     (\<forall>t \<in> set (ts_samples (ib_sampler b)). \<not> isl (TimespecToDoubleNanos t))"

definition in_range :: "'g instr \<Rightarrow> bool" where
  "in_range c \<longleftrightarrow> dur c < 2 ^ 64 \<and> repeats c < 2 ^ 31"

fun ready :: "'g instr \<Rightarrow> bool" where
  "ready (Leaf b k) \<longleftrightarrow> readable b"
| "ready (InstructionSet b f cs) \<longleftrightarrow> (\<forall>c \<in> set cs. ready c \<and> in_range c)"
| "ready (Multithreading b m cs) \<longleftrightarrow>
     readable b \<and> length cs \<le> length (mt_params m) \<and> (\<forall>c \<in> set cs. ready c)"

lemma Analyse_ok: "samples \<noteq> [] \<Longrightarrow> \<exists>st. AnalyseMeasurement nth_el samples = Inr st"
  by (cases samples) (auto simp: AnalyseMeasurement_def StatisticsGetMean_def StatisticsGetMedian_def
      StatisticsGetSd_def Let_def)

lemma AddMeasurement_ok:
  assumes "samples \<noteq> []"
  shows "\<exists>st. AddMeasurement nth_el name samples r =
    Inr (Result (re_name r) (map_put name samples (re_samples r)) (map_put name st (re_stats r)) (re_subs r) (re_repeat r))"
proof -
  obtain st where "AnalyseMeasurement nth_el samples = Inr st" using Analyse_ok [OF assms] by blast
  then show ?thesis by (auto simp: AddMeasurement_def)
qed

text \<open>What a parent relies on in the result of a child with \<open>n\<close> durations.\<close>

definition reports :: "nat \<Rightarrow> int \<Rightarrow> result \<Rightarrow> bool" where
  "reports n repeat r \<longleftrightarrow> re_repeat r = repeat \<and> smap_ok (re_samples r) \<and>
     (\<exists>xs. map_find ''duration'' (re_samples r) = Some xs \<and> length xs = n)"

lemma reports_AddMeasurement:
  assumes "samples \<noteq> []" and "smap_ok (re_samples r)"
  shows "\<exists>r'. AddMeasurement nth_el ''duration'' samples r = Inr r' \<and>
    reports (length samples) (re_repeat r) r' \<and> re_subs r' = re_subs r"
  using AddMeasurement_ok [OF assms(1), of nth_el "''duration''" r]
  by (auto simp: reports_def smap.find_put [OF assms(2)] smap.ok_put [OF assms(2)])

lemma reports_other:
  assumes "samples \<noteq> []" and "name \<noteq> ''duration''" and "reports n repeat r"
  shows "\<exists>r'. AddMeasurement nth_el name samples r = Inr r' \<and> reports n repeat r'"
  using AddMeasurement_ok [OF assms(1), of nth_el name r] assms(2,3)
  by (auto simp: reports_def smap.find_put smap.ok_put)

lemma base_reports:
  assumes "readable b"
  shows "\<exists>r. Instruction_CollectResults nth_el prefix b = Inr r \<and>
    reports (length (ts_samples (ib_sampler b))) (ib_repeat b) r"
proof -
  have "\<exists>xs. TimespecToDoubleNanos_vec (ts_samples (ib_sampler b)) = Inr xs"
    unfolding TimespecToDoubleNanos_vec_def
    using assms by (intro mapR_ex) (metis readable_def isl_def sum.exhaust)
  then obtain xs where xs: "TimespecToDoubleNanos_vec (ts_samples (ib_sampler b)) = Inr xs" by blast
  then have len: "length xs = length (ts_samples (ib_sampler b))"
    unfolding TimespecToDoubleNanos_vec_def by (rule mapR_length)
  then have "xs \<noteq> []" using assms by (auto simp: readable_def)
  from reports_AddMeasurement [OF this, of "Result_ctor (prefix @ ib_name b) (ib_repeat b)" nth_el] xs len
  show ?thesis by (auto simp: Instruction_CollectResults_def Result_ctor_def smap.ok_empty)
qed

lemma leaf_reports:
  assumes "readable b" and "leaf_ok (b, k)"
  shows "\<exists>r. leaf_CollectResults nth_el prefix b k = Inr r \<and>
    reports (length (ts_samples (ib_sampler b))) (ib_repeat b) r"
proof -
  obtain r where r: "Instruction_CollectResults nth_el prefix b = Inr r"
      "reports (length (ts_samples (ib_sampler b))) (ib_repeat b) r"
    using base_reports [OF assms(1)] by blast
  have "ts_samples (ib_sampler b) \<noteq> []" using assms(1) by (simp add: readable_def)
  then have bw: "\<exists>r'. AddMeasurement nth_el ''bandwidth'' bs r = Inr r' \<and>
      reports (length (ts_samples (ib_sampler b))) (ib_repeat b) r'"
    if "length bs = length (ts_samples (ib_sampler b))" for bs
    using that by (intro reports_other [OF _ _ r(2)]) auto
  show ?thesis
    using assms(2) r bw
    by (cases k) (simp_all add: leaf_CollectResults_def leaf_ok_def leaf_even_def is_mem_def)
qed

text \<open>Adding up the durations of a child.\<close>

lemma unat_word_of_nat_u64: "n < 2 ^ 64 \<Longrightarrow> unat (word_of_nat n :: u64) = n"
  by (simp add: unat_of_nat take_bit_nat_eq_self)

lemma rounds_of_ok:
  assumes "0 < repeat" and "repeat < 2 ^ 31" and "K * nat repeat < 2 ^ 64"
  shows "rounds_of (K * nat repeat) repeat = Inr K"
proof -
  have r: "unat (word_of_int repeat :: u64) = nat repeat"
    using assms(1,2) by (simp add: unat_eq_nat_uint uint_word_of_int)
  have n: "unat (word_of_nat (K * nat repeat) :: u64) = K * nat repeat"
    using assms(3) by (rule unat_word_of_nat_u64)
  have "unat ((word_of_nat (K * nat repeat) :: u64) div word_of_int repeat) = K"
    unfolding unat_div r n using assms(1) by simp
  then show ?thesis using assms(1) by (simp add: rounds_of_def)
qed

lemma add_rounds_ok:
  assumes "\<forall>i \<in> set is. i < length d"
  shows "\<exists>d'. foldR (add_round samples repeat) d is = Inr d' \<and> length d' = length d"
  using assms
proof (induction "is" arbitrary: d)
  case (Cons i "is")
  obtain d1 where d1: "add_round samples repeat d i = Inr d1" "length d1 = length d"
    using Cons.prems by (auto simp: add_round_def)
  then show ?case using Cons.IH [of d1] Cons.prems by auto
qed simp

lemma add_rounds_overflow:
  assumes "0 < repeat" and "length d < k"
  shows "foldR (add_round samples repeat) d [0..<k] = Inl (Undefined OutOfBounds)"
proof -
  have split: "[0..<k] = [0..<length d] @ length d # [Suc (length d)..<k]"
    using assms(2) upt_add_eq_append [of 0 "length d" "k - length d"] by (simp add: upt_conv_Cons)
  obtain d' where "foldR (add_round samples repeat) d [0..<length d] = Inr d'" "length d' = length d"
    using add_rounds_ok [of "[0..<length d]" d samples repeat] by auto
  then show ?thesis unfolding split foldR_append using assms(1) by (simp add: add_round_def)
qed

lemma child_added:
  assumes "reports (K * nat repeat) repeat sub" and "0 < repeat" and "repeat < 2 ^ 31"
    and "K * nat repeat < 2 ^ 64" and "d = [] \<or> length d = K"
  shows "\<exists>d'. add_child (d, r) sub = Inr (d', AddSubResult sub r) \<and> length d' = K"
proof -
  obtain xs where xs: "map_find ''duration'' (re_samples sub) = Some xs" "length xs = K * nat repeat"
      "re_repeat sub = repeat"
    using assms(1) by (auto simp: reports_def)
  have "\<exists>d'. add_durations d xs repeat = Inr d' \<and> length d' = K"
    using rounds_of_ok [OF assms(2-4)] assms(5)
      add_rounds_ok [of "[0..<K]" "if d = [] then replicate K (Fin 0) else d" xs repeat]
    by (auto simp: add_durations_def xs(2) Let_def split: if_splits)
  then show ?thesis using xs by (auto simp: add_child_def GetSamples_def GetRepeat_def)
qed

lemma children_added:
  assumes "\<And>c. c \<in> set cs \<Longrightarrow> \<exists>sub. collect c = Inr sub \<and> reports (K * repeats c) (ib_repeat (in_base c)) sub"
    and "\<forall>c \<in> set cs. 0 < ib_repeat (in_base c) \<and> repeats c < 2 ^ 31 \<and> K * repeats c < 2 ^ 64"
    and "d = [] \<or> length d = K" and "smap_ok (re_samples r)"
  shows "\<exists>d' r'. foldR (\<lambda>acc c. bindR (collect c) (add_child acc)) (d, r) cs = Inr (d', r') \<and>
    (if cs = [] then d' = d else length d' = K) \<and> re_samples r' = re_samples r \<and> re_repeat r' = re_repeat r"
  using assms
proof (induction cs arbitrary: d r)
  case (Cons c cs)
  obtain sub where sub: "collect c = Inr sub" "reports (K * repeats c) (ib_repeat (in_base c)) sub"
    using Cons.prems(1) [of c] by auto
  have "ib_repeat (in_base c) < 2 ^ 31" using Cons.prems(2) by (auto simp: repeats_def)
  then obtain d1 where d1: "add_child (d, r) sub = Inr (d1, AddSubResult sub r)" "length d1 = K"
    using child_added [of K "ib_repeat (in_base c)" sub d r] sub(2) Cons.prems(2,3)
    by (auto simp: repeats_def)
  have "\<exists>d' r'. foldR (\<lambda>acc c. bindR (collect c) (add_child acc)) (d1, AddSubResult sub r) cs = Inr (d', r') \<and>
      (if cs = [] then d' = d1 else length d' = K) \<and> re_samples r' = re_samples (AddSubResult sub r) \<and>
      re_repeat r' = re_repeat (AddSubResult sub r)"
    using Cons.prems d1(2) by (intro Cons.IH) (auto simp: AddSubResult_def)
  then show ?case using sub d1 by (auto simp: AddSubResult_def split: if_splits)
qed auto

text \<open>A good tree that is ready reports as many durations as \<open>dur\<close> says.\<close>

lemma dur_kids:
  assumes "good (InstructionSet b f cs)"
  shows "\<forall>c \<in> set cs. dur c = dur (InstructionSet b f cs) * repeats c"
proof -
  obtain K where K: "kids K cs" "cs \<noteq> []" using assms kids_of_good by blast
  then have "dur (InstructionSet b f cs) = K" using dur_set unfolding kids_def by blast
  then show ?thesis using K by (simp add: kids_def del: dur.simps)
qed

lemma kids_reports:
  assumes "\<And>c prefix. c \<in> set cs \<Longrightarrow> good c \<Longrightarrow> ready c \<Longrightarrow>
      \<exists>r. CollectResults nth_el prefix c = Inr r \<and> reports (dur c) (ib_repeat (in_base c)) r \<and> 0 < dur c"
    and "\<forall>i < length cs. ready (cs ! i)" and "\<forall>c \<in> set cs. good c" and "n + length cs \<le> length (mt_params m)"
  shows "\<exists>r'. foldR (\<lambda>r (i, c).
              if length (mt_params m) \<le> i then Inl (Undefined OutOfBounds)
              else bindR (CollectResults nth_el (tp_name (mt_params m ! i) @ ''/'') c) (\<lambda>sub.
                   Inr (AddSubResult sub r))) r (enumerate n cs) = Inr r' \<and>
    re_samples r' = re_samples r \<and> re_repeat r' = re_repeat r"
  using assms
proof (induction cs arbitrary: n r)
  case (Cons c cs)
  obtain sub where sub: "CollectResults nth_el (tp_name (mt_params m ! n) @ ''/'') c = Inr sub"
    using Cons.prems(1) [of c] Cons.prems(2) [rule_format, of 0] Cons.prems(3) by auto
  have "\<forall>i < length cs. ready (cs ! i)" using Cons.prems(2) by (auto dest: spec [of _ "Suc _"])
  then show ?case
    using Cons.IH [of "Suc n" "AddSubResult sub r"] Cons.prems(1,3,4) sub by (auto simp: AddSubResult_def)
qed simp

lemma collect:
  "good i \<Longrightarrow> ready i \<Longrightarrow>
     \<exists>r. CollectResults nth_el prefix i = Inr r \<and> reports (dur i) (ib_repeat (in_base i)) r \<and> 0 < dur i"
proof (induction i arbitrary: prefix)
  case (Leaf b k)
  then show ?case using leaf_reports [of b k nth_el prefix] by (auto simp: taken_def readable_def)
next
  case (InstructionSet b f cs)
  let ?K = "dur (InstructionSet b f cs)"
  have kids: "good c" "ready c" "in_range c" "dur c = ?K * repeats c" "0 < ib_repeat (in_base c)"
    if "c \<in> set cs" for c
  proof -
    show "good c" "ready c" "in_range c" using InstructionSet.prems that by auto
    then show "0 < ib_repeat (in_base c)" by (cases c) auto
    show "dur c = ?K * repeats c" using dur_kids InstructionSet.prems(1) that by blast
  qed
  have sub: "\<exists>sub. CollectResults nth_el [] c = Inr sub \<and> reports (?K * repeats c) (ib_repeat (in_base c)) sub \<and> 0 < dur c"
    if "c \<in> set cs" for c
    using InstructionSet.IH [OF that kids(1,2) [OF that]] kids(4) [OF that] by metis
  have ne: "cs \<noteq> []" "0 < ib_repeat b" using InstructionSet.prems(1) by auto
  have "0 < dur (hd cs)" using sub [of "hd cs"] ne(1) by auto
  then have pos: "0 < ?K" using kids(4) [of "hd cs"] ne(1) by (cases "?K") auto
  obtain d r where d: "foldR (\<lambda>acc c. bindR (CollectResults nth_el [] c) (add_child acc))
        ([], Result_ctor (prefix @ ib_name b) (ib_repeat b)) cs = Inr (d, r)"
      "length d = ?K" "re_samples r = []" "re_repeat r = ib_repeat b"
    using children_added [of cs "CollectResults nth_el []" ?K "[]" "Result_ctor (prefix @ ib_name b) (ib_repeat b)"]
      sub kids ne smap.ok_empty
    by (fastforce simp: Result_ctor_def in_range_def)
  have "d \<noteq> []" using d(2) pos by auto
  from reports_AddMeasurement [OF this, of r nth_el] d pos show ?case
    by (auto simp: smap.ok_empty)
next
  case (Multithreading b m cs)
  obtain r where r: "Instruction_CollectResults nth_el prefix b = Inr r"
      "reports (length (ts_samples (ib_sampler b))) (ib_repeat b) r"
    using base_reports Multithreading.prems(2) by force
  obtain r' where "foldR (\<lambda>r (i, c).
              if length (mt_params m) \<le> i then Inl (Undefined OutOfBounds)
              else bindR (CollectResults nth_el (tp_name (mt_params m ! i) @ ''/'') c) (\<lambda>sub.
                   Inr (AddSubResult sub r))) r (enumerate 0 cs) = Inr r'"
      "re_samples r' = re_samples r" "re_repeat r' = re_repeat r"
    using kids_reports [of cs nth_el 0 m r] Multithreading.IH Multithreading.prems by auto
  then show ?case using r Multithreading.prems(2) by (auto simp: reports_def taken_def readable_def)
qed

text \<open>The tree before its first run.\<close>

fun fresh :: "'g instr \<Rightarrow> bool" where
  "fresh (Leaf b k) \<longleftrightarrow> 0 < ib_repeat b \<and> \<not> is_mem k \<and> leaf_even (b, k) \<and> ts_samples (ib_sampler b) = []"
| "fresh (InstructionSet b f cs) \<longleftrightarrow>
     0 < ib_repeat b \<and> cs \<noteq> [] \<and> ts_samples (ib_sampler b) = [] \<and> (\<forall>c \<in> set cs. fresh c \<and> \<not> iterating c)"
| "fresh (Multithreading b m cs) \<longleftrightarrow>
     0 < ib_repeat b \<and> ts_samples (ib_sampler b) = [] \<and> (\<forall>c \<in> set cs. fresh c)"

lemma fresh_good: "fresh i \<Longrightarrow> good i \<and> dur i = 0"
proof (induction i)
  case (InstructionSet b f cs)
  then have "kids 0 cs" by (auto simp: kids_def)
  then have "good (InstructionSet b f cs)" using InstructionSet.prems kids_of_good by auto
  moreover have "dur (InstructionSet b f cs) = 0" using InstructionSet by (auto split: list.splits)
  ultimately show ?case by blast
qed (auto simp: leaf_ok_def taken_def)

lemma collect_run:
  assumes "fresh i" and "vSetUp E i s = (Inr i1, s1)" and "vRun E (depth i1) i1 s2 = (Inr i', t)" and "ready i'"
  shows "\<exists>r. CollectResults nth_el prefix i' = Inr r \<and> re_repeat r = ib_repeat (in_base i)"
proof -
  note a = vSetUp_alike [OF assms(2), unfolded alike_def]
  have g: "good i1" using a fresh_good [OF assms(1)] by blast
  note r = vRun_good [OF g assms(3)]
  have "repeats i' = repeats i" using a r by simp
  moreover have "0 < repeats i'" using r good_times by blast
  ultimately have "ib_repeat (in_base i') = ib_repeat (in_base i)" by (simp add: repeats_def)
  then show ?thesis using collect [of i' nth_el prefix] r assms(4) by (auto simp: reports_def)
qed

section \<open>Properties\<close>



text \<open>
  \<^verbatim>\<open>InstructionSet::CollectResults\<close> writes outside its vector of durations when a later child
  has been executed for more rounds than the first one. This is what happens to a set that contains an
  instruction followed by a set that iterates over a list of several elements, for example
  \<^verbatim>\<open>read_directory\<close> followed by an iteration over the files found.
\<close>

theorem nested_iteration_out_of_bounds:
  assumes "good c1" and "ready c1" and "in_range c1" and "good c2" and "ready c2" and "in_range c2"
    and "dur c1 = m1 * repeats c1" and "dur c2 = m2 * repeats c2" and "m1 < m2"
  shows "CollectResults nth_el prefix (InstructionSet b f (c1 # c2 # cs)) = Inl (Undefined OutOfBounds)"
proof -
  have rep: "0 < ib_repeat (in_base c) \<and> ib_repeat (in_base c) < 2 ^ 31 \<and> repeats c = nat (ib_repeat (in_base c))"
    if "good c" "in_range c" for c :: "'a instr"
  proof -
    have "0 < ib_repeat (in_base c)" using that(1) by (cases c) auto
    then show ?thesis using that(2) by (auto simp: in_range_def repeats_def)
  qed
  obtain r1 where r1: "CollectResults nth_el [] c1 = Inr r1" "reports (dur c1) (ib_repeat (in_base c1)) r1" "0 < dur c1"
    using collect assms(1,2) by blast
  obtain r2 where r2: "CollectResults nth_el [] c2 = Inr r2" "reports (dur c2) (ib_repeat (in_base c2)) r2"
    using collect assms(4,5) by blast
  obtain d1 where d1: "add_child ([], Result_ctor (prefix @ ib_name b) (ib_repeat b)) r1 =
      Inr (d1, AddSubResult r1 (Result_ctor (prefix @ ib_name b) (ib_repeat b)))" "length d1 = m1"
    using child_added [of m1 "ib_repeat (in_base c1)" r1 "[]"] r1(2) rep [OF assms(1,3)] assms(3,7)
    by (auto simp: in_range_def)
  have "d1 \<noteq> []" using d1(2) r1(3) assms(7) by auto
  obtain xs where xs: "map_find ''duration'' (re_samples r2) = Some xs" "length xs = m2 * repeats c2"
      "re_repeat r2 = ib_repeat (in_base c2)"
    using r2(2) assms(8) by (auto simp: reports_def)
  note rep2 = rep [OF assms(4,6)]
  have "add_durations d1 xs (ib_repeat (in_base c2)) = Inl (Undefined OutOfBounds)"
    using rounds_of_ok [of "ib_repeat (in_base c2)" m2] rep2 assms(6,8,9) \<open>d1 \<noteq> []\<close> d1(2) xs(2)
      add_rounds_overflow [of "ib_repeat (in_base c2)" d1 m2 xs]
    by (simp add: add_durations_def in_range_def)
  then have "add_child (d1, r) r2 = Inl (Undefined OutOfBounds)" for r
    using xs by (simp add: add_child_def GetSamples_def GetRepeat_def)
  then show ?thesis using r1(1) r2(1) d1(1) by simp
qed

section \<open>Examples\<close>

definition sample_leaf :: "int \<Rightarrow> timespec list \<Rightarrow> nat instr" where
  "sample_leaf n ts = Leaf ((Instruction_ctor ''cpu_work_cycles''
     \<lparr>pr_repeat = n, pr_period_us = 0, pr_offset_us = 0\<rparr>)\<lparr>ib_sampler := \<lparr>ts_start = Timespec 0 0, ts_end = Timespec 0 0, ts_samples = ts\<rparr>\<rparr>)
     (CpuWorkCycles 0)"

definition sample_set :: "nat instr list \<Rightarrow> nat instr" where
  "sample_set cs = InstructionSet_plain_ctor sample_env kSequential kOnce 0
     \<lparr>pr_repeat = 2, pr_period_us = 0, pr_offset_us = 0\<rparr> cs"

definition sample_tree :: "nat instr" where
  "sample_tree = sample_set [sample_leaf 1 [], sample_set [sample_leaf 2 []]]"


lemma small_readable: "small_ts t \<Longrightarrow> \<not> isl (TimespecToDoubleNanos t)"
  by (simp add: TimespecToDoubleNanos_def TimespecToNanos_small)


definition sample_iteration :: "nat instr list \<Rightarrow> nat instr" where
  "sample_iteration cs = InstructionSet_ctor sample_env \<lparr>pr_repeat = 1, pr_period_us = 0, pr_offset_us = 0\<rparr>
     cs 1 2 kSequential kOnce 7"

theorem nested_iteration_out_of_bounds_witness:
  "\<exists>b f. CollectResults nth_element_sorting []
     (InstructionSet b f [sample_leaf 1 [Timespec 0 0],
        sample_iteration [sample_leaf 1 [Timespec 0 0, Timespec 0 0, Timespec 0 0]]]) = Inl (Undefined OutOfBounds)"
proof -
  have "\<not> isl (TimespecToDoubleNanos (Timespec 0 0))" by (rule small_readable) (simp add: small_ts_def)
  then have *: "good (sample_leaf 1 ts)" "ready (sample_leaf 1 ts)" "in_range (sample_leaf 1 ts)"
      "dur (sample_leaf 1 ts) = length ts" "repeats (sample_leaf 1 ts) = 1" "\<not> iterating (sample_leaf 1 ts)"
    if "ts \<noteq> []" "set ts \<subseteq> {Timespec 0 0}" "length ts < 10" for ts
    using that
    by (auto simp: sample_leaf_def leaf_ok_def is_mem_def leaf_even_def Instruction_ctor_def readable_def
        in_range_def taken_def repeats_def iterating_def)
  let ?c = "sample_leaf 1 [Timespec 0 0, Timespec 0 0, Timespec 0 0]"
  have **: "good (sample_iteration [?c])" "ready (sample_iteration [?c])" "in_range (sample_iteration [?c])"
      "dur (sample_iteration [?c]) = 3" "repeats (sample_iteration [?c]) = 1"
    using * [of "[Timespec 0 0, Timespec 0 0, Timespec 0 0]"]
    by (auto simp: sample_iteration_def InstructionSet_ctor_def Instruction_ctor_def in_range_def repeats_def
        simp del: One_nat_def)
  have "CollectResults nth_element_sorting []
     (InstructionSet (in_base ?c) f [sample_leaf 1 [Timespec 0 0], sample_iteration [?c]]) = Inl (Undefined OutOfBounds)" for f
    by (rule nested_iteration_out_of_bounds [where ?m1.0 = 1 and ?m2.0 = 3])
      (use * [of "[Timespec 0 0]"] ** in simp_all)
  then show ?thesis by blast
qed

end
