(* ===== verification/Factory.thy ===== *)
theory Factory
  imports Engine_Properties
begin

text \<open>
  \<^verbatim>\<open>src/instruction_factory.cpp\<close>: from the protobuf messages of \<^verbatim>\<open>schema/benchmark.proto\<close> to the tree
  of instructions, in a build for the host (\<^verbatim>\<open>__ANDROID__\<close> not defined).

  A message is a record or datatype of the values its accessors return: an optional field with a
  default holds the default when it is not set, one whose \<^verbatim>\<open>has_\<close> accessor the code calls is an
  \<open>option\<close>. The enumerations of proto2 are closed, so that the \<^verbatim>\<open>default\<close> branches of the conversions
  remain only where an enumeration has a value without a \<^verbatim>\<open>case\<close>.

  The factory also advances \<^verbatim>\<open>current_thread_id_\<close>. Two things are arguments: what C++ leaves in
  uninitialised members (\<open>junk\<close>), and the constructor of \<^verbatim>\<open>Multiprocessing\<close>, which is modelled at
  the level of processes in another theory.
\<close>

section \<open>Messages\<close>

datatype pb_order = SEQUENTIAL | RANDOM
datatype pb_reseeding = ONCE | EACH_ROUND_OF_CYCLES | EACH_CYCLE
datatype pb_access_mode = READ_ONLY | WRITE_ONLY | READ_WRITE
datatype pb_free_policy = FREE_POLICY_UNSPECIFIED | FREE_POLICY_EVERY_PERIOD | FREE_POLICY_LAST_PERIOD
  | FREE_POLICY_KEEP
datatype pb_fadvise = FADV_AUTOMATIC | FADV_NORMAL | FADV_SEQUENTIAL | FADV_RANDOM

datatype pb_file = PbPathName string | PbInput string | PbNoFile

record pb_open_file =
  po_file :: pb_file
  po_output_fd :: "string option"
  po_create :: bool
  po_direct_io :: bool
  po_access_mode :: pb_access_mode

record pb_rw_file =
  pw_input_fd :: string
  pw_size :: int
  pw_block_size :: int
  pw_starting_offset :: int
  pw_access_order :: pb_order
  pw_seed :: "u32 option"
  pw_reseeding :: pb_reseeding

record pb_iterate =
  pi_list_name :: string
  pi_item_name :: string
  pi_access_order :: pb_order
  pi_reseeding :: pb_reseeding
  pi_seed :: "u32 option"

datatype pb_cpu_work = PbCycles u64 | PbUtilization f64 | PbDurationUs u64 | PbTypeNotSet

text \<open>A \<^verbatim>\<open>Mutex\<close> message is its optional name; the field that holds it is optional, too.\<close>

datatype pb_simple =
    PbOpenFile pb_open_file
  | PbDeleteFile pb_file
  | PbCloseFile string
  | PbResizeFile string int
  | PbWriteFile pb_rw_file bool
  | PbReadFile pb_rw_file pb_fadvise
  | PbReadDirectory string string
  | PbResizeFileRandom string int int "u32 option" pb_reseeding
  | PbInvalidateCache
  | PbBinderRequest
  | PbBinderService
  | PbCpuWork pb_cpu_work
  | PbMemAlloc u64 pb_free_policy
  | PbLock "string option option"
  | PbUnlock "string option option"
  | PbInstructionNotSet

record pb_thread_params =
  pt_spawn :: int
  pt_name :: "string option"
  pt_sched_attr :: "pb_sched_attr option"
  pt_sched_affinity :: "int option"

datatype pb_instruction = PbInstruction (pi_repeat: int) (pi_period: u64) (pi_offset: u64) (pi_kind: pb_kind)
  and pb_kind =
    PbSimple pb_simple
  | PbInstructionSet "pb_instruction list" "pb_iterate option"
  | PbMultithreading "pb_thread list" bool
  and pb_thread = PbThread pb_instruction pb_thread_params

section \<open>Conversions\<close>

fun ConvertReseeding :: "pb_reseeding \<Rightarrow> reseeding_kind" where
  "ConvertReseeding ONCE = kOnce"
| "ConvertReseeding EACH_ROUND_OF_CYCLES = kEachRoundOfCycles"
| "ConvertReseeding EACH_CYCLE = kEachCycle"

fun ConvertOrder :: "pb_order \<Rightarrow> order_kind" where
  "ConvertOrder SEQUENTIAL = kSequential"
| "ConvertOrder RANDOM = kRandom"

definition POSIX_FADV_NORMAL :: int where "POSIX_FADV_NORMAL = 0"
definition POSIX_FADV_RANDOM :: int where "POSIX_FADV_RANDOM = 1"
definition POSIX_FADV_SEQUENTIAL :: int where "POSIX_FADV_SEQUENTIAL = 2"

fun ConvertReadFAdvise :: "order_kind \<Rightarrow> pb_fadvise \<Rightarrow> int" where
  "ConvertReadFAdvise access_order FADV_AUTOMATIC =
     (case access_order of kSequential \<Rightarrow> POSIX_FADV_SEQUENTIAL | kRandom \<Rightarrow> POSIX_FADV_RANDOM)"
| "ConvertReadFAdvise access_order FADV_NORMAL = POSIX_FADV_NORMAL"
| "ConvertReadFAdvise access_order FADV_SEQUENTIAL = POSIX_FADV_SEQUENTIAL"
| "ConvertReadFAdvise access_order FADV_RANDOM = POSIX_FADV_RANDOM"

fun ConvertFreePolicy :: "pb_free_policy \<Rightarrow> free_policy res" where
  "ConvertFreePolicy FREE_POLICY_EVERY_PERIOD = Inr kFreeEveryPeriod"
| "ConvertFreePolicy FREE_POLICY_LAST_PERIOD = Inr kFreeLastPeriod"
| "ConvertFreePolicy FREE_POLICY_KEEP = Inr kKeep"
| "ConvertFreePolicy FREE_POLICY_UNSPECIFIED = Inl (Logf ''Invalid FreePolicy'')"

fun ConvertAccessMode :: "pb_access_mode \<Rightarrow> access_mode" where
  "ConvertAccessMode READ_ONLY = kReadOnly"
| "ConvertAccessMode WRITE_ONLY = kWriteOnly"
| "ConvertAccessMode READ_WRITE = kReadWrite"

section \<open>Instructions without children\<close>

definition seed_of :: "('w, 'g) env \<Rightarrow> u32 option \<Rightarrow> ('w, u32) act" where
  "seed_of E seed =
     (case seed of Some n \<Rightarrow> returnC n | None \<Rightarrow> bindC (sysC (time_now E)) (\<lambda>now. returnC (word_of_int now)))"

definition resolve_key :: "int list \<Rightarrow> string \<Rightarrow> ('w, int) act" where
  "resolve_key thread_ids name = varsC (GetKey thread_ids name)"

definition leaf_of :: "('f \<Rightarrow> 'g leaf) \<Rightarrow> ibase \<times> 'f \<Rightarrow> 'g instr" where
  "leaf_of C ob = Leaf (fst ob) (C (snd ob))"

definition leaf_of_class :: "('a \<Rightarrow> 'f \<Rightarrow> 'g leaf) \<Rightarrow> 'a \<times> ibase \<times> 'f \<Rightarrow> 'g instr" where
  "leaf_of_class C ob = leaf_of (C (fst ob)) (snd ob)"

lemmas leaf_ctors [simp] =
  CloseFile_ctor_def InvalidateCache_ctor_def CpuWork_ctor_def CpuWorkCycles_ctor_def LockInterface_ctor_def
  Lock_ctor_def Unlock_ctor_def WriteFile_ctor_def ReadFile_ctor_def leaf_of_class_def

definition CreateOpenFile :: "('w, 'g) env \<Rightarrow> int list \<Rightarrow> params \<Rightarrow> pb_open_file \<Rightarrow> ('w, 'g instr) act" where
  "CreateOpenFile E ids p opt =
     bindC (case po_output_fd opt of Some name \<Rightarrow> resolve_key ids name | None \<Rightarrow> returnC (-1)) (\<lambda>fd_key.
     let mode = ConvertAccessMode (po_access_mode opt) in
     case po_file opt of
       PbInput name \<Rightarrow>
         bindC (resolve_key ids name) (\<lambda>input_key.
         returnC (leaf_of OpenFile (OpenFile_input E p input_key (po_create opt) (po_direct_io opt) fd_key mode)))
     | PbPathName path_name \<Rightarrow>
         mapC_result (leaf_of OpenFile) (OpenFile_path E p path_name (po_create opt) (po_direct_io opt) fd_key mode)
     | PbNoFile \<Rightarrow>
         mapC_result (leaf_of OpenFile) (OpenFile_random E p (po_create opt) (po_direct_io opt) fd_key mode))"

definition CreateWriteFile ::
  "('w, 'g) env \<Rightarrow> int list \<Rightarrow> params \<Rightarrow> pb_rw_file \<Rightarrow> bool \<Rightarrow> ('w, 'g instr) act" where
  "CreateWriteFile E ids p opt fsync =
     bindC (seed_of E (pw_seed opt)) (\<lambda>seed.
     bindC (resolve_key ids (pw_input_fd opt)) (\<lambda>fd_key.
     returnC (leaf_of_class WriteFile
       (WriteFile_ctor E p (pw_size opt) (pw_block_size opt) (pw_starting_offset opt)
          (ConvertOrder (pw_access_order opt)) seed (ConvertReseeding (pw_reseeding opt)) fsync fd_key))))"

definition CreateReadFile ::
  "('w, 'g) env \<Rightarrow> int list \<Rightarrow> params \<Rightarrow> pb_rw_file \<Rightarrow> pb_fadvise \<Rightarrow> ('w, 'g instr) act" where
  "CreateReadFile E ids p opt fadvise =
     bindC (seed_of E (pw_seed opt)) (\<lambda>seed.
     let access_order = ConvertOrder (pw_access_order opt) in
     bindC (resolve_key ids (pw_input_fd opt)) (\<lambda>fd_key.
     returnC (leaf_of_class ReadFile
       (ReadFile_ctor E p (pw_size opt) (pw_block_size opt) (pw_starting_offset opt)
          access_order seed (ConvertReseeding (pw_reseeding opt)) (ConvertReadFAdvise access_order fadvise) fd_key))))"

definition CreateResizeFileRandom ::
  "('w, 'g) env \<Rightarrow> int list \<Rightarrow> params \<Rightarrow> string \<Rightarrow> int \<Rightarrow> int \<Rightarrow> u32 option \<Rightarrow> pb_reseeding \<Rightarrow> ('w, 'g instr) act"
where
  "CreateResizeFileRandom E ids p input_fd lo hi seed reseeding =
     bindC (seed_of E seed) (\<lambda>seed.
     bindC (resolve_key ids input_fd) (\<lambda>fd_key.
     returnC (leaf_of ResizeFileRandom
       (ResizeFileRandom_ctor E p lo hi (ucast seed) (ConvertReseeding reseeding) fd_key))))"

definition CreateCpuWork :: "params \<Rightarrow> pb_cpu_work \<Rightarrow> 'g instr res" where
  "CreateCpuWork p w =
     (case w of
        PbCycles cycles \<Rightarrow> Inr (leaf_of CpuWorkCycles (CpuWorkCycles_ctor p cycles))
      | PbUtilization u \<Rightarrow> bindR (CpuWorkUtilization_ctor p u) (\<lambda>ob. Inr (leaf_of CpuWorkUtilization ob))
      | PbDurationUs us \<Rightarrow> bindR (CpuWorkDurationUs_ctor p us) (\<lambda>ob. Inr (leaf_of CpuWorkDurationUs ob))
      | PbTypeNotSet \<Rightarrow> Inl (Logf ''No type specified for CpuWorkload''))"

text \<open>The mutex of \<^verbatim>\<open>Lock\<close> and \<^verbatim>\<open>Unlock\<close>.\<close>

definition mutex_missing :: err where
  "mutex_missing = Logf ''Locking instruction must have a mutex and the mutex must be named''"

definition mutex_undeclared :: err where
  "mutex_undeclared = Logf (''Could not find mutex declaration. Mutexes must be declared in the global section of '' @
     ''the .ditto file'')"

definition find_mutex :: "int list \<Rightarrow> string option option \<Rightarrow> ('w, var_ptr option) act" where
  "find_mutex ids mutex =
     (case mutex of
        Some (Some name) \<Rightarrow>
          bindC (getC (\<lambda>s. Exists ids name (ps_vars s))) (\<lambda>ex.
          bindC (fail_ifC (\<not> ex) mutex_undeclared) (\<lambda>_.
          bindC (resolve_key ids name) (\<lambda>mux_key.
          bindC (varsC (GetPointer mux_key)) (\<lambda>p. varsC (get_if_mutex p)))))
      | _ \<Rightarrow> failC mutex_missing)"

definition CreateMemAlloc :: "params \<Rightarrow> u64 \<Rightarrow> pb_free_policy \<Rightarrow> ('w, 'g instr) act" where
  "CreateMemAlloc p sz policy =
     bindC (liftR (ConvertFreePolicy policy)) (\<lambda>free_policy.
     returnC (leaf_of MemoryAllocation (MemoryAllocation_ctor p sz free_policy)))"

definition CreateLock :: "int list \<Rightarrow> params \<Rightarrow> string option option \<Rightarrow> ('w, 'g instr) act" where
  "CreateLock ids p mutex =
     bindC (find_mutex ids mutex) (\<lambda>mux. returnC (leaf_of Lock (Lock_ctor p mux)))"

definition CreateUnlock :: "int list \<Rightarrow> params \<Rightarrow> string option option \<Rightarrow> ('w, 'g instr) act" where
  "CreateUnlock ids p mutex =
     bindC (find_mutex ids mutex) (\<lambda>mux. returnC (leaf_of Unlock (Unlock_ctor p mux)))"

text \<open>What the last two labels of the switch end with.\<close>

definition instruction_not_set :: err where
  "instruction_not_set = Logf ''Instruction was not set in .ditto file''"

definition invalid_instruction :: err where
  "invalid_instruction = Logf ''Invalid instruction was set in .ditto file''"

fun CreateSimple :: "('w, 'g) env \<Rightarrow> int list \<Rightarrow> params \<Rightarrow> pb_simple \<Rightarrow> ('w, 'g instr) act" where
  "CreateSimple E ids p (PbOpenFile opt) = CreateOpenFile E ids p opt"
| "CreateSimple E ids p (PbDeleteFile f) =
     (case f of
        PbInput name \<Rightarrow>
          bindC (resolve_key ids name) (\<lambda>key. returnC (leaf_of DeleteFile (DeleteFile_input p key)))
      | PbPathName path_name \<Rightarrow> mapC_result (leaf_of DeleteFile) (DeleteFile_path p path_name)
      | PbNoFile \<Rightarrow> mapC_result (leaf_of DeleteFile) (DeleteFile_path p []))"
| "CreateSimple E ids p (PbCloseFile input_fd) =
     bindC (resolve_key ids input_fd) (\<lambda>key.
     returnC (leaf_of CloseFile (CloseFile_ctor p key)))"
| "CreateSimple E ids p (PbResizeFile input_fd sz) =
     bindC (resolve_key ids input_fd) (\<lambda>key. returnC (leaf_of ResizeFile (ResizeFile_ctor E p sz key)))"
| "CreateSimple E ids p (PbWriteFile opt fsync) = CreateWriteFile E ids p opt fsync"
| "CreateSimple E ids p (PbReadFile opt fadvise) = CreateReadFile E ids p opt fadvise"
| "CreateSimple E ids p (PbReadDirectory directory_name output) =
     bindC (resolve_key ids output) (\<lambda>key.
     mapC_result (leaf_of ReadDirectory) (ReadDirectory_ctor p directory_name key))"
| "CreateSimple E ids p (PbResizeFileRandom input_fd lo hi seed reseeding) =
     CreateResizeFileRandom E ids p input_fd lo hi seed reseeding"
| "CreateSimple E ids p PbInvalidateCache =
     returnC (Leaf (InvalidateCache_ctor p) InvalidateCache)"
| "CreateSimple E ids p PbBinderRequest = failC invalid_instruction"
| "CreateSimple E ids p PbBinderService = failC invalid_instruction"
| "CreateSimple E ids p (PbCpuWork w) = liftR (CreateCpuWork p w)"
| "CreateSimple E ids p (PbMemAlloc sz policy) = CreateMemAlloc p sz policy"
| "CreateSimple E ids p (PbLock mutex) = CreateLock ids p mutex"
| "CreateSimple E ids p (PbUnlock mutex) = CreateUnlock ids p mutex"
| "CreateSimple E ids p PbInstructionNotSet = failC instruction_not_set"

section \<open>The factory\<close>

text \<open>The process and \<^verbatim>\<open>current_thread_id_\<close>.\<close>

type_synonym ('w, 'a) fact = "('w pstate \<times> int, 'a) comp"

definition procC :: "('w, 'a) act \<Rightarrow> ('w, 'a) fact" where
  "procC m st = (case m (fst st) of (r, s) \<Rightarrow> (r, (s, snd st)))"

definition GenerateThreadId :: "('w, int) fact" where
  "GenerateThreadId st = (Inr (snd st), (fst st, snd st + 1))"

record junk =
  jk_order :: order_kind
  jk_reseeding :: reseeding_kind
  jk_seed :: u32
  jk_sched_attr :: sched_attr_raw
  jk_mask :: u64

definition thread_name :: "pb_thread_params \<Rightarrow> nat \<Rightarrow> nat \<Rightarrow> string" where
  "thread_name th t i =
     (case pt_name th of Some name \<Rightarrow> name @ ''_'' @ show_nat i | None \<Rightarrow> show_nat t @ ''_'' @ show_nat i)"

definition make_thread_params :: "junk \<Rightarrow> pb_thread_params \<Rightarrow> nat \<Rightarrow> nat \<Rightarrow> thread_params res" where
  "make_thread_params jk th t i =
     bindR (case pt_sched_attr th of
              None \<Rightarrow> Inr \<lparr>sc_initialized = False, sc_raw = jk_sched_attr jk\<rparr>
            | Some a \<Rightarrow> SchedAttr_assign (jk_sched_attr jk) a) (\<lambda>attr.
     bindR (case pt_sched_affinity th of
              None \<Rightarrow> Inr \<lparr>sf_initialized = False, sf_mask = jk_mask jk\<rparr>
            | Some m \<Rightarrow> SchedAffinity_assign (word_of_int m)) (\<lambda>affinity.
     Inr \<lparr>tp_name = thread_name th t i, tp_sched_attr = attr, tp_sched_affinity = affinity\<rparr>))"

definition make_set ::
  "('w, 'g) env \<Rightarrow> junk \<Rightarrow> int list \<Rightarrow> params \<Rightarrow> 'g instr list \<Rightarrow> pb_iterate option \<Rightarrow> ('w, 'g instr) act" where
  "make_set E jk ids p instructions iterate =
     (case iterate of
        Some opt \<Rightarrow>
          bindC (resolve_key ids (pi_list_name opt)) (\<lambda>list_key.
          bindC (resolve_key ids (pi_item_name opt)) (\<lambda>item_key.
          bindC (seed_of E (pi_seed opt)) (\<lambda>seed.
          returnC (InstructionSet_ctor E p instructions list_key item_key (ConvertOrder (pi_access_order opt))
                     (ConvertReseeding (pi_reseeding opt)) seed))))
      | None \<Rightarrow>
          returnC (InstructionSet_plain_ctor E (jk_order jk) (jk_reseeding jk) (jk_seed jk) p instructions))"

definition params_of :: "pb_instruction \<Rightarrow> params" where
  "params_of i = \<lparr>pr_repeat = pi_repeat i, pr_period_us = pi_period i, pr_offset_us = pi_offset i\<rparr>"

text \<open>
  The body of the loop over \<^verbatim>\<open>spawn\<close>: \<open>create\<close> makes the instruction of the thread for given thread
  ids.
\<close>

definition spawn_step ::
  "junk \<Rightarrow> (int list \<Rightarrow> ('w, 'g instr) fact) \<Rightarrow> int list \<Rightarrow> pb_thread_params \<Rightarrow> nat
     \<Rightarrow> 'g instr list \<times> thread_params list \<Rightarrow> nat \<Rightarrow> ('w, 'g instr list \<times> thread_params list) fact" where
  "spawn_step jk create ids th t acc i =
     bindC GenerateThreadId (\<lambda>tid.
     bindC (create (ids @ [tid])) (\<lambda>c.
     bindC (procC (liftR (make_thread_params jk th t i))) (\<lambda>tp.
     returnC (fst acc @ [c], snd acc @ [tp]))))"

lemma mapC_fundef_cong [fundef_cong]:
  "xs = ys \<Longrightarrow> (\<And>x. x \<in> set ys \<Longrightarrow> f x = g x) \<Longrightarrow> mapC f xs = mapC g ys"
  by (induction ys arbitrary: xs) auto

lemma foldC_fundef_cong [fundef_cong]:
  "b = b' \<Longrightarrow> xs = ys \<Longrightarrow> (\<And>b x. x \<in> set ys \<Longrightarrow> f b x = g b x) \<Longrightarrow> foldC f b xs = foldC g b' ys"
  by (induction ys arbitrary: xs b b') (auto intro: ext simp: bindC_def split: prod.splits sum.splits)

text \<open>The instructions of a set, which \<open>create\<close> makes, then the set.\<close>

definition CreateFromProtoInstructionSet ::
  "('w, 'g) env \<Rightarrow> junk \<Rightarrow> ('m \<Rightarrow> ('w, 'g instr) fact) \<Rightarrow> params \<Rightarrow> int list \<Rightarrow> 'm list \<Rightarrow> pb_iterate option
     \<Rightarrow> ('w, 'g instr) fact" where
  "CreateFromProtoInstructionSet E jk create p ids instructions iterate =
     bindC (mapC create instructions) (\<lambda>cs. procC (make_set E jk ids p cs iterate))"

lemma CreateFromProtoInstructionSet_cong [fundef_cong]:
  "xs = ys \<Longrightarrow> (\<And>x. x \<in> set ys \<Longrightarrow> f x = g x) \<Longrightarrow>
     CreateFromProtoInstructionSet E jk f p ids xs iterate = CreateFromProtoInstructionSet E jk g p ids ys iterate"
  unfolding CreateFromProtoInstructionSet_def using mapC_fundef_cong [of xs ys f g] by simp

fun CreateFromProtoInstruction ::
  "('w, 'g) env \<Rightarrow> junk \<Rightarrow> (params \<Rightarrow> 'g instr list \<Rightarrow> thread_params list \<Rightarrow> 'g instr)
     \<Rightarrow> int list \<Rightarrow> pb_instruction \<Rightarrow> ('w, 'g instr) fact"
  and CreateKind ::
  "('w, 'g) env \<Rightarrow> junk \<Rightarrow> (params \<Rightarrow> 'g instr list \<Rightarrow> thread_params list \<Rightarrow> 'g instr)
     \<Rightarrow> int list \<Rightarrow> params \<Rightarrow> pb_kind \<Rightarrow> ('w, 'g instr) fact"
  and CreateThreads ::
  "('w, 'g) env \<Rightarrow> junk \<Rightarrow> (params \<Rightarrow> 'g instr list \<Rightarrow> thread_params list \<Rightarrow> 'g instr)
     \<Rightarrow> int list \<Rightarrow> nat \<Rightarrow> pb_thread \<Rightarrow> 'g instr list \<times> thread_params list
     \<Rightarrow> ('w, 'g instr list \<times> thread_params list) fact" where
  "CreateFromProtoInstruction E jk mp ids (PbInstruction rep period offset k) =
     CreateKind E jk mp ids (params_of (PbInstruction rep period offset k)) k"
| "CreateKind E jk mp ids p (PbSimple opt) = procC (CreateSimple E ids p opt)"
| "CreateKind E jk mp ids p (PbInstructionSet instructions iterate) =
     CreateFromProtoInstructionSet E jk (CreateFromProtoInstruction E jk mp ids) p ids instructions iterate"
| "CreateKind E jk mp ids p (PbMultithreading threads fork) =
     bindC (foldC (\<lambda>acc (t, th). CreateThreads E jk mp ids t th acc) ([], []) (enumerate 0 threads))
       (\<lambda>(cs, tps).
     returnC (if fork then mp p cs tps else Multithreading_ctor p cs tps))"
| "CreateThreads E jk mp ids t (PbThread i th) acc =
     foldC (spawn_step jk (\<lambda>ids. CreateFromProtoInstruction E jk mp ids i) ids th t) acc [0..<nat (pt_spawn th)]"

declare CreateFromProtoInstructionSet_def [simp]

end
