(* ===== verification/Factory_Properties.thy ===== *)
theory Factory_Properties
  imports Factory
begin

text \<open>
  What the factory makes: trees that have not run, whose threads all have parameters, with one scope
  of variables per thread; and how names are resolved on the way.
\<close>

section \<open>New trees\<close>

fun new_tree :: "'g instr \<Rightarrow> bool" where
  "new_tree (Leaf b k) \<longleftrightarrow> ts_samples (ib_sampler b) = [] \<and> leaf_even (b, k)"
| "new_tree (InstructionSet b f cs) \<longleftrightarrow> ts_samples (ib_sampler b) = [] \<and> (\<forall>c \<in> set cs. new_tree c)"
| "new_tree (Multithreading b m cs) \<longleftrightarrow>
     ts_samples (ib_sampler b) = [] \<and> length (mt_params m) = length cs \<and> mt_threads m = [] \<and>
     (\<forall>c \<in> set cs. new_tree c)"

lemma new_base [simp]: "ts_samples (ib_sampler (Instruction_ctor name p)) = []"
  by (simp add: Instruction_ctor_def new_sampler_def)

lemma procC_Inr_iff: "procC m st = (Inr x, st') \<longleftrightarrow> m (fst st) = (Inr x, fst st') \<and> snd st' = snd st"
  by (cases st') (auto simp: procC_def split: prod.splits)

lemma new_leaf_of:
  "ts_samples (ib_sampler (fst ob)) = [] \<Longrightarrow> leaf_even (fst ob, C (snd ob)) \<Longrightarrow> new_tree (leaf_of C ob)"
  by (simp add: leaf_of_def)

lemmas create_defs =
  CreateOpenFile_def CreateWriteFile_def CreateReadFile_def CreateResizeFileRandom_def CreateCpuWork_def
  CreateMemAlloc_def CreateLock_def CreateUnlock_def
  OpenFile_path_def OpenFile_input_def OpenFile_random_def DeleteFile_path_def DeleteFile_input_def
  ReadDirectory_ctor_def ReadWriteFile_ctor_def ResizeFileRandom_ctor_def ResizeFile_ctor_def
  MemoryAllocation_ctor_def CpuWorkUtilization_ctor_def CpuWorkDurationUs_ctor_def

lemma CreateSimple_new:
  assumes "CreateSimple E ids p opt s = (Inr c, t)"
  shows "new_tree c"
proof (cases opt)
  case (PbOpenFile q)
  then show ?thesis
    using assms by (cases "po_file q")
      (auto simp: create_defs bindC_Inr_iff Let_def mapC_result_Inr_iff leaf_of_def leaf_even_def)
next
  case (PbCpuWork w)
  then show ?thesis
    using assms by (auto simp: create_defs bindR_Inr_iff leaf_of_def leaf_even_def
        split: pb_cpu_work.splits if_splits)
qed (use assms in \<open>auto simp: create_defs bindC_Inr_iff Let_def mapC_result_Inr_iff leaf_of_def leaf_even_def
        split: pb_file.splits\<close>)

lemma make_set_new:
  assumes "make_set E jk ids p cs iterate s = (Inr c, t)" and "\<forall>c \<in> set cs. new_tree c"
  shows "new_tree c"
  using assms
  by (auto simp: make_set_def bindC_Inr_iff InstructionSet_ctor_def InstructionSet_plain_ctor_def
      split: option.splits)

text \<open>The number of threads that a message describes.\<close>

fun spawned :: "pb_instruction \<Rightarrow> nat"
  and spawned_kind :: "pb_kind \<Rightarrow> nat"
  and spawned_thread :: "pb_thread \<Rightarrow> nat" where
  "spawned (PbInstruction rep period offset k) = spawned_kind k"
| "spawned_kind (PbSimple opt) = 0"
| "spawned_kind (PbInstructionSet instructions iterate) = sum_list (map spawned instructions)"
| "spawned_kind (PbMultithreading threads fork) = sum_list (map spawned_thread threads)"
| "spawned_thread (PbThread i th) = nat (pt_spawn th) * Suc (spawned i)"

definition makes :: "nat \<Rightarrow> ('w, 'g instr) fact \<Rightarrow> bool" where
  "makes n m \<longleftrightarrow> (\<forall>st c st'. m st = (Inr c, st') \<longrightarrow> new_tree c \<and> snd st' = snd st + int n)"

definition new_threads :: "'g instr list \<times> thread_params list \<Rightarrow> bool" where
  "new_threads acc \<longleftrightarrow> length (snd acc) = length (fst acc) \<and> (\<forall>c \<in> set (fst acc). new_tree c)"

lemma makesD: "makes n m \<Longrightarrow> m st = (Inr c, st') \<Longrightarrow> new_tree c \<and> snd st' = snd st + int n"
  unfolding makes_def by blast

lemma mapC_makes:
  assumes "\<And>x. x \<in> set xs \<Longrightarrow> makes (n x) (f x)"
  shows "mapC f xs st = (Inr cs, st') \<Longrightarrow> (\<forall>c \<in> set cs. new_tree c) \<and> snd st' = snd st + int (sum_list (map n xs))"
  using assms
proof (induction xs arbitrary: st cs)
  case (Cons x xs)
  obtain c st1 cs' where *: "f x st = (Inr c, st1)" "mapC f xs st1 = (Inr cs', st')" "cs = c # cs'"
    using Cons.prems(1) by (auto simp: bindC_Inr_iff)
  then show ?case using Cons.IH [OF *(2)] Cons.prems(2) makesD [OF Cons.prems(2) *(1)] by auto
qed simp

lemma spawn_step_makes:
  assumes "\<And>ids. makes n (create ids)" and "spawn_step jk create ids th t acc i st = (Inr acc', st')"
    and "new_threads acc"
  shows "new_threads acc' \<and> snd st' = snd st + int (Suc n)"
proof -
  obtain tid c st1 st2 tp where *: "GenerateThreadId st = (Inr tid, st1)" "create (ids @ [tid]) st1 = (Inr c, st2)"
      "procC (liftR (make_thread_params jk th t i)) st2 = (Inr tp, st')" "acc' = (fst acc @ [c], snd acc @ [tp])"
    using assms(2) by (auto simp: spawn_step_def bindC_Inr_iff)
  then show ?thesis
    using makesD [OF assms(1) *(2)] assms(3)
    by (auto simp: GenerateThreadId_def procC_Inr_iff new_threads_def)
qed

lemma spawn_loop_makes:
  assumes "\<And>ids. makes n (create ids)"
  shows "foldC (spawn_step jk create ids th t) acc is st = (Inr acc', st') \<Longrightarrow> new_threads acc \<Longrightarrow>
    new_threads acc' \<and> snd st' = snd st + int (length is * Suc n)"
proof (induction "is" arbitrary: acc st)
  case (Cons i "is")
  then obtain acc1 st1 where *: "spawn_step jk create ids th t acc i st = (Inr acc1, st1)"
      "foldC (spawn_step jk create ids th t) acc1 is st1 = (Inr acc', st')"
    by (auto simp: bindC_Inr_iff)
  then show ?case using spawn_step_makes [OF assms *(1) Cons.prems(2)] Cons.IH [OF *(2)] by (auto simp: algebra_simps)
qed simp

lemma threads_loop_makes:
  assumes "\<And>k th acc st acc' st'. th \<in> set ths \<Longrightarrow> f acc (k, th) st = (Inr acc', st') \<Longrightarrow> new_threads acc \<Longrightarrow>
      new_threads acc' \<and> snd st' = snd st + int (spawned_thread th)"
  shows "foldC f acc (enumerate k ths) st = (Inr acc', st') \<Longrightarrow> new_threads acc \<Longrightarrow>
    new_threads acc' \<and> snd st' = snd st + int (sum_list (map spawned_thread ths))"
  using assms
proof (induction ths arbitrary: acc st k)
  case (Cons th ths)
  obtain acc1 st1 where *: "f acc (k, th) st = (Inr acc1, st1)"
      "foldC f acc1 (enumerate (Suc k) ths) st1 = (Inr acc', st')"
    using Cons.prems(1) by (auto simp: bindC_Inr_iff)
  have "new_threads acc1 \<and> snd st1 = snd st + int (spawned_thread th)"
    using Cons.prems(3) [OF _ *(1) Cons.prems(2)] by simp
  moreover from this have "new_threads acc' \<and> snd st' = snd st1 + int (sum_list (map spawned_thread ths))"
    using Cons.IH [OF *(2)] Cons.prems(3) [OF list.set_intros(2)] by blast
  ultimately show ?case by simp
qed simp

lemma create_makes:
  fixes E :: "('w, 'g) env"
  assumes mp: "\<And>p cs tps. new_threads (cs, tps) \<Longrightarrow> new_tree (mp p cs tps)"
  shows "makes (spawned i) (CreateFromProtoInstruction E jk mp ids i)"
    and "makes (spawned_kind k) (CreateKind E jk mp ids2 p k)"
    and "CreateThreads E jk mp ids3 n th acc st = (Inr acc', st') \<Longrightarrow> new_threads acc \<Longrightarrow>
           new_threads acc' \<and> snd st' = snd st + int (spawned_thread th)"
proof (induction i and k and th arbitrary: ids and ids2 p and ids3 n acc st acc' st'
    rule: pb_instruction.induct pb_kind.induct pb_thread.induct)
  case (PbSimple opt)
  then show ?case by (auto simp: makes_def procC_Inr_iff dest: CreateSimple_new)
next
  case (PbInstructionSet instructions iterate)
  show ?case
    unfolding makes_def
  proof (intro allI impI)
    fix st c st'
    assume "CreateKind E jk mp ids2 p (PbInstructionSet instructions iterate) st = (Inr c, st')"
    then obtain cs st1 where *: "mapC (CreateFromProtoInstruction E jk mp ids2) instructions st = (Inr cs, st1)"
        "procC (make_set E jk ids2 p cs iterate) st1 = (Inr c, st')"
      by (auto simp: bindC_Inr_iff)
    have "(\<forall>c \<in> set cs. new_tree c) \<and> snd st1 = snd st + int (sum_list (map spawned instructions))"
      by (rule mapC_makes [OF _ *(1)]) (rule PbInstructionSet)
    then show "new_tree c \<and> snd st' = snd st + int (spawned_kind (PbInstructionSet instructions iterate))"
      using *(2) make_set_new by (auto simp: procC_Inr_iff)
  qed
next
  case (PbMultithreading threads fork)
  show ?case
    unfolding makes_def
  proof (intro allI impI)
    fix st c st'
    assume "CreateKind E jk mp ids2 p (PbMultithreading threads fork) st = (Inr c, st')"
    then obtain cs tps where *: "foldC (\<lambda>acc (t, th). CreateThreads E jk mp ids2 t th acc) ([], [])
          (enumerate 0 threads) st = (Inr (cs, tps), st')"
        "c = (if fork then mp p cs tps else Multithreading_ctor p cs tps)"
      by (auto simp: bindC_Inr_iff)
    have "new_threads (cs, tps) \<and> snd st' = snd st + int (sum_list (map spawned_thread threads))"
      by (rule threads_loop_makes [OF _ *(1)]) (use PbMultithreading in \<open>auto simp: new_threads_def\<close>)
    then show "new_tree c \<and> snd st' = snd st + int (spawned_kind (PbMultithreading threads fork))"
      using *(2) mp by (auto simp: Multithreading_ctor_def new_threads_def)
  qed
next
  case (PbThread i th)
  then show ?case
    using spawn_loop_makes [of "spawned i" "\<lambda>ids. CreateFromProtoInstruction E jk mp ids i"] by auto
qed simp_all

section \<open>Properties\<close>


text \<open>A set that iterates over a list with threads that use the item.\<close>

definition iterate_with_thread :: "string \<Rightarrow> string \<Rightarrow> pb_instruction" where
  "iterate_with_thread xs item =
     PbInstruction 1 0 0 (PbInstructionSet
       [PbInstruction 1 0 0 (PbMultithreading
          [PbThread (PbInstruction 1 0 0 (PbSimple (PbDeleteFile (PbInput item))))
             \<lparr>pt_spawn = 1, pt_name = None, pt_sched_attr = None, pt_sched_affinity = None\<rparr>] False)]
       (Some \<lparr>pi_list_name = xs, pi_item_name = item, pi_access_order = SEQUENTIAL, pi_reseeding = ONCE,
              pi_seed = Some 7\<rparr>))"

text \<open>The key \<open>n\<close> is not known to the scopes \<open>ids\<close>, and never will be.\<close>

definition hidden :: "nat \<Rightarrow> int list \<Rightarrow> shared_vars \<Rightarrow> bool" where
  "hidden n ids sv \<longleftrightarrow>
     n < length (sv_variables sv) \<and> (\<forall>t \<in> set ids. \<forall>name. key_of sv (t, name) \<noteq> Some (int n))"

lemma GetKey_hidden:
  assumes "hidden n ids sv" and "ids \<noteq> []" and "GetKey ids name sv = (Inr k, sv')"
  shows "hidden n ids sv'" and "k \<noteq> int n"
proof -
  have "hidden n ids sv' \<and> k \<noteq> int n"
  proof (rule GetKey_cases [OF assms(2), of sv name])
    fix k' assume k': "find_key (sv_keys sv) (rev ids) name = Some k'" "GetKey ids name sv = (Inr k', sv)"
    from find_key_Some [OF k'(1)] show ?thesis using assms(1,3) k'(2) by (auto simp: hidden_def)
  next
    fix k' assume k': "\<forall>t \<in> set ids. key_of sv (t, name) = None" "k' = int (length (sv_variables sv))"
        "GetKey ids name sv = (Inr k', grow_variables (insert_key (last ids) name k' sv))"
    then have "key_of sv (last ids, name) = None" using assms(2) by simp
    then show ?thesis
      using assms(1,3) k' by (auto simp: hidden_def key_of_grow key_of_insert split: if_splits)
  qed
  then show "hidden n ids sv'" "k \<noteq> int n" by auto
qed

lemma GetKey_in_thread:
  assumes "\<forall>t \<in> set (ids @ [tid]). key_of sv (t, name) = None" and "tid \<notin> set ids"
    and "GetKey (ids @ [tid]) name sv = (Inr k, sv')" and "\<forall>t \<in> set ids. \<forall>m. key_of sv (t, m) \<noteq> Some (int (length (sv_variables sv)))"
  shows "k = int (length (sv_variables sv)) \<and> hidden (length (sv_variables sv)) ids sv'"
proof -
  have "find_key (sv_keys sv) (rev (ids @ [tid])) name = None"
    unfolding find_key_None using assms(1) by auto
  then have "k = int (length (sv_variables sv))" "sv' = grow_variables (insert_key tid name k sv)"
    using assms(3) by (auto simp: GetKey_def Let_def)
  moreover have "key_of sv (tid, name) = None" using assms(1) by simp
  ultimately show ?thesis
    using assms(2,4) by (auto simp: hidden_def key_of_grow key_of_insert)
qed

lemma resolve_key_Inr_iff:
  "resolve_key ids name s = (Inr k, t) \<longleftrightarrow>
     GetKey ids name (ps_vars s) = (Inr k, ps_vars t) \<and> t = s\<lparr>ps_vars := ps_vars t\<rparr>"
  by (auto simp: resolve_key_def varsC_Inr_iff)

lemma create_iterate_with_thread:
  assumes "CreateFromProtoInstruction E jk mp ids (iterate_with_thread xs item) (s, tid) = (Inr i, st')"
  shows "\<exists>b f b2 m b3 d s1 s2 s3 l.
    i = InstructionSet b f [Multithreading b2 m [Leaf b3 (DeleteFile d)]] \<and>
    resolve_key (ids @ [tid]) item s = (Inr (df_input_key d), s1) \<and>
    resolve_key ids xs s1 = (Inr l, s2) \<and> resolve_key ids item s2 = (Inr (is_item_key f), s3)"
  using assms
  by (auto simp: iterate_with_thread_def bindC_Inr_iff procC_Inr_iff spawn_step_def GenerateThreadId_def
      make_set_def InstructionSet_ctor_def Multithreading_ctor_def leaf_of_def DeleteFile_input_def
      returnC_def)

text \<open>
  A name first used inside a thread belongs to that thread: a set that iterates over a list with
  threads as children sets a variable that the threads never see, because the children are created,
  and their names resolved, before the names of the set. The same set with a direct child works.
\<close>

theorem iterated_item_unseen_by_threads:
  assumes "vars_ok (ps_vars s)" and "ids \<noteq> []" and "tid \<notin> set ids"
    and "\<forall>t \<in> set (ids @ [tid]). key_of (ps_vars s) (t, item) = None"
    and "CreateFromProtoInstruction E jk mp ids (iterate_with_thread xs item) (s, tid) = (Inr i, st')"
  shows "\<exists>b f b2 m b3 d. i = InstructionSet b f [Multithreading b2 m [Leaf b3 (DeleteFile d)]] \<and>
    df_input_key d \<noteq> is_item_key f"
proof -
  obtain b f b2 m b3 d s1 s2 s3 l where *: "i = InstructionSet b f [Multithreading b2 m [Leaf b3 (DeleteFile d)]]"
      "resolve_key (ids @ [tid]) item s = (Inr (df_input_key d), s1)"
      "resolve_key ids xs s1 = (Inr l, s2)" "resolve_key ids item s2 = (Inr (is_item_key f), s3)"
    using create_iterate_with_thread [OF assms(5)] by blast
  have "\<forall>t \<in> set ids. \<forall>m. key_of (ps_vars s) (t, m) \<noteq> Some (int (length (sv_variables (ps_vars s))))"
    using assms(1) by (auto simp: vars_ok_def valid_key_def)
  then have 1: "df_input_key d = int (length (sv_variables (ps_vars s)))"
      "hidden (length (sv_variables (ps_vars s))) ids (ps_vars s1)"
    using GetKey_in_thread [OF assms(4,3)] *(2) by (auto simp: resolve_key_Inr_iff)
  have 2: "hidden (length (sv_variables (ps_vars s))) ids (ps_vars s2)"
    using GetKey_hidden(1) [OF 1(2) assms(2)] *(3) by (auto simp: resolve_key_Inr_iff)
  have "is_item_key f \<noteq> int (length (sv_variables (ps_vars s)))"
    using GetKey_hidden(2) [OF 2 assms(2)] *(4) by (auto simp: resolve_key_Inr_iff)
  then show ?thesis using *(1) 1(1) by auto
qed

text \<open>
  \<^verbatim>\<open>Lock\<close> and \<^verbatim>\<open>Unlock\<close> are only created for a named mutex that has been declared; then they get
  a pointer to the variable of that name, which is live, or null when the variable is not a mutex.
\<close>

theorem lock_needs_declared_mutex:
  assumes "vars_ok (ps_vars s)"
  shows "(mutex = None \<or> mutex = Some None \<longrightarrow> find_mutex ids mutex s = (Inl mutex_missing, s)) \<and>
    (mutex = Some (Some name) \<longrightarrow> \<not> Exists ids name (ps_vars s) \<longrightarrow>
       find_mutex ids mutex s = (Inl mutex_undeclared, s)) \<and>
    (mutex = Some (Some name) \<longrightarrow> Exists ids name (ps_vars s) \<longrightarrow>
       (\<exists>k. GetKey ids name (ps_vars s) = (Inr k, ps_vars s) \<and> ptr_live (ps_vars s) (sv_buffer (ps_vars s), k) \<and>
          find_mutex ids mutex s =
            (Inr (case sv_variables (ps_vars s) ! nat k of
                    VMutex m \<Rightarrow> Some (sv_buffer (ps_vars s), k) | _ \<Rightarrow> None), s)))"
proof -
  have "\<exists>k. GetKey ids name (ps_vars s) = (Inr k, ps_vars s) \<and> ptr_live (ps_vars s) (sv_buffer (ps_vars s), k) \<and>
      find_mutex ids (Some (Some name)) s =
        (Inr (case sv_variables (ps_vars s) ! nat k of
                VMutex m \<Rightarrow> Some (sv_buffer (ps_vars s), k) | _ \<Rightarrow> None), s)"
    if ex: "Exists ids name (ps_vars s)"
  proof -
    obtain k where k: "find_key (sv_keys (ps_vars s)) (rev ids) name = Some k"
      using ex by (auto simp: Exists_def)
    then have v: "valid_key (ps_vars s) k"
      using find_key_Some [OF k] assms by (auto simp: vars_ok_def)
    have "GetKey ids name (ps_vars s) = (Inr k, ps_vars s)" using k by (simp add: GetKey_def)
    then show ?thesis
      using v ex
      by (auto simp: find_mutex_def bindC_def fail_ifC_def resolve_key_def varsC_def GetPointer_def get_if_mutex_def
          ptr_live_def split: variant.splits)
  qed
  then show ?thesis by (auto simp: find_mutex_def bindC_def fail_ifC_def)
qed

section \<open>Examples\<close>

definition sample_junk :: junk where
  "sample_junk = \<lparr>jk_order = kSequential, jk_reseeding = kOnce, jk_seed = 0,
     jk_sched_attr = \<lparr>sa_size = 0, sa_policy = 0, sa_flags = 0, sa_nice = 0, sa_priority = 0, sa_runtime = 0,
        sa_deadline = 0, sa_period = 0\<rparr>, jk_mask = 0\<rparr>"

definition sample_create :: "(sample_world pstate \<times> int, nat instr) comp" where
  "sample_create = CreateFromProtoInstruction sample_env sample_junk Multithreading_ctor [0]
     (iterate_with_thread ''files'' ''file'')"

lemma sample_create_succeeds: "\<exists>i st'. sample_create (sample_state, 1) = (Inr i, st')"
proof -
  have "\<not> isl (fst (sample_create (sample_state, 1)))" by code_simp
  from not_isl_Inr [OF this] show ?thesis by blast
qed


theorem iterated_item_unseen_by_threads_witness:
  "\<exists>b f b2 m b3 d st'. sample_create (sample_state, 1) =
     (Inr (InstructionSet b f [Multithreading b2 m [Leaf b3 (DeleteFile d)]]), st') \<and>
     df_input_key d \<noteq> is_item_key f"
proof -
  obtain i st' where r: "sample_create (sample_state, 1) = (Inr i, st')"
    using sample_create_succeeds by blast
  have "vars_ok (ps_vars sample_state)" by (simp add: sample_state_def vars_ok_def key_of_def)
  from iterated_item_unseen_by_threads [OF this _ _ _ r [unfolded sample_create_def]] r
  show ?thesis by (auto simp: sample_state_def key_of_def)
qed

theorem lock_needs_declared_mutex_witness:
  "find_mutex [0] (Some (Some ''mux'')) sample_state = (Inl mutex_undeclared, sample_state)"
proof -
  have v: "vars_ok (ps_vars sample_state)" by (simp add: sample_state_def vars_ok_def key_of_def)
  have "\<not> Exists [0] ''mux'' (ps_vars sample_state)" by (simp add: sample_state_def Exists_def)
  then show ?thesis using lock_needs_declared_mutex [OF v, of "Some (Some ''mux'')" "[0]" "''mux''"] by blast
qed

end
