(* ===== verification/Benchmark_Parser.thy ===== *)
theory Benchmark_Parser
  imports Factory_Properties
begin

text \<open>
  \<^verbatim>\<open>src/parser.cpp\<close> and \<^verbatim>\<open>include/ditto/parser.h\<close>: from the text of a benchmark and the parameters of
  the command line to the three trees of instructions.

  What is not in the repository is the record \<open>outside\<close>: the environment of the instructions, the
  reader of the text format of protobuf (\<open>ou_text_parse\<close>), the benchmarks compiled into the program
  (\<open>ou_config\<close>, generated by \<^verbatim>\<open>ditto2cpp.py\<close>), the files by path, the bytes of the uninitialised
  \<^verbatim>\<open>mux_orig\<close>, those that \<^verbatim>\<open>pthread_mutex_init\<close> writes, and the two arguments of the factory.

  The first part of the file shows what parsing a benchmark does to the variables it finds: it only
  adds to them. The properties follow from that and from the lemmas on the factory.
\<close>

section \<open>The benchmark message\<close>

record pb_global =
  pg_absolute_path :: string
  pg_mutex :: "string option option"

record pb_benchmark =
  pb_init :: "pb_instruction option"
  pb_main :: pb_instruction
  pb_clean_up :: "pb_instruction option"
  pb_global :: pb_global

section \<open>Parameters\<close>

text \<open>A parameter replaces the first occurrence of its name; one that does not occur is ignored.\<close>

definition parameter_name :: "nat \<Rightarrow> string" where
  "parameter_name n = ''$PARAMETER_'' @ show_nat n @ ''$''"

definition replace_parameter :: "nat \<Rightarrow> string \<Rightarrow> string \<Rightarrow> string" where
  "replace_parameter n by_s s =
     (case str_find (parameter_name n) s of
        None \<Rightarrow> s
      | Some position \<Rightarrow> str_replace s position (length (parameter_name n)) by_s)"

definition replace_parameters :: "string list \<Rightarrow> string \<Rightarrow> string" where
  "replace_parameters parameters s =
     foldl (\<lambda>s (i, p). replace_parameter (i + 1) p s) s (enumerate 0 parameters)"

section \<open>Parsing\<close>

record ('w, 'g) outside =
  ou_env :: "('w, 'g) env"
  ou_junk :: junk
  ou_mp :: "params \<Rightarrow> 'g instr list \<Rightarrow> thread_params list \<Rightarrow> 'g instr"
  ou_junk_mutex :: mutex_bytes
  ou_init_mutex :: mutex_bytes
  ou_text_parse :: "string \<Rightarrow> pb_benchmark option"
  ou_config :: "string \<rightharpoonup> string"
  ou_files :: "string \<rightharpoonup> string"

text \<open>The three trees, held by the parser until they are taken.\<close>

record 'g parsed =
  pd_init :: "'g instr option"
  pd_main :: "'g instr"
  pd_clean_up :: "'g instr option"

definition create_in :: "('w, 'g) outside \<Rightarrow> int list \<Rightarrow> pb_instruction \<Rightarrow> ('w, 'g instr) fact" where
  "create_in X ids i = CreateFromProtoInstruction (ou_env X) (ou_junk X) (ou_mp X) ids i"

definition SetAbsolutePathKey :: "int \<Rightarrow> ('w, unit) act" where
  "SetAbsolutePathKey k = modifyC (\<lambda>s. s\<lparr>ps_path_key := k\<rparr>)"

definition declare_path :: "int list \<Rightarrow> string \<Rightarrow> ('w, unit) act" where
  "declare_path ids path =
     bindC (resolve_key ids ''absolute_path'') (\<lambda>key.
     bindC (varsC (SetVar key (VString path))) (\<lambda>_.
     SetAbsolutePathKey key))"

definition pthread_mutex_init :: "mutex_bytes \<Rightarrow> var_ptr option \<Rightarrow> ('w, unit) act" where
  "pthread_mutex_init bytes mux =
     (case mux of
        None \<Rightarrow> failC (Undefined NullPointer)
      | Some p \<Rightarrow> varsC (SetVar (snd p) (VMutex bytes)))"

definition declare_mutex ::
  "('w, 'g) outside \<Rightarrow> int list \<Rightarrow> string option option \<Rightarrow> ('w, unit) act" where
  "declare_mutex X ids mutex =
     (case mutex of
        None \<Rightarrow> returnC ()
      | Some name \<Rightarrow>
          bindC (resolve_key ids (case name of None \<Rightarrow> [] | Some n \<Rightarrow> n)) (\<lambda>key.
          bindC (varsC (SetVar key (VMutex (ou_junk_mutex X)))) (\<lambda>_.
          bindC (varsC (GetPointer key)) (\<lambda>p.
          bindC (varsC (get_if_mutex p)) (pthread_mutex_init (ou_init_mutex X))))))"

definition create_optional ::
  "('w, 'g) outside \<Rightarrow> int list \<Rightarrow> pb_instruction option \<Rightarrow> ('w, 'g instr option) fact" where
  "create_optional X ids i =
     (case i of None \<Rightarrow> returnC None | Some i \<Rightarrow> bindC (create_in X ids i) (\<lambda>c. returnC (Some c)))"

definition declare_globals :: "('w, 'g) outside \<Rightarrow> int list \<Rightarrow> pb_global \<Rightarrow> ('w, unit) act" where
  "declare_globals X ids g =
     bindC (declare_path ids (pg_absolute_path g)) (\<lambda>_. declare_mutex X ids (pg_mutex g))"

definition create_trees :: "('w, 'g) outside \<Rightarrow> int list \<Rightarrow> pb_benchmark \<Rightarrow> ('w, 'g parsed) fact" where
  "create_trees X ids b =
     bindC (create_optional X ids (pb_init b)) (\<lambda>init.
     bindC (create_in X ids (pb_main b)) (\<lambda>main.
     bindC (create_optional X ids (pb_clean_up b)) (\<lambda>clean_up.
     returnC \<lparr>pd_init = init, pd_main = main, pd_clean_up = clean_up\<rparr>)))"

definition load_benchmark :: "('w, 'g) outside \<Rightarrow> pb_benchmark \<Rightarrow> ('w, 'g parsed) fact" where
  "load_benchmark X b =
     bindC GenerateThreadId (\<lambda>tid.
     bindC (procC (declare_globals X [tid] (pb_global b))) (\<lambda>_.
     bindC (create_trees X [tid] b) (\<lambda>trees.
     bindC (procC (modifyC (\<lambda>s. s\<lparr>ps_vars := ClearKeys (ps_vars s)\<rparr>))) (\<lambda>_.
     returnC trees))))"

definition Parse ::
  "('w, 'g) outside \<Rightarrow> string \<Rightarrow> string list \<Rightarrow> ('w, pb_benchmark \<times> 'g parsed) fact" where
  "Parse X json_benchmark parameters =
     (case ou_text_parse X (replace_parameters parameters json_benchmark) of
        None \<Rightarrow> failC (Logf ''Error while parsing .ditto file'')
      | Some b \<Rightarrow> bindC (load_benchmark X b) (\<lambda>p. returnC (b, p)))"

definition ParseEmbedded ::
  "('w, 'g) outside \<Rightarrow> string \<Rightarrow> string list \<Rightarrow> ('w, pb_benchmark \<times> 'g parsed) fact" where
  "ParseEmbedded X embedded_benchmark parameters =
     (case ou_config X embedded_benchmark of
        None \<Rightarrow> failC (Logf (''The requested benchmark is invalid: '' @ embedded_benchmark))
      | Some json \<Rightarrow> Parse X json parameters)"

definition ParseFile ::
  "('w, 'g) outside \<Rightarrow> string \<Rightarrow> string list \<Rightarrow> ('w, pb_benchmark \<times> 'g parsed) fact" where
  "ParseFile X file_path parameters =
     (case ou_files X file_path of
        None \<Rightarrow> failC (Logf (''Provided .ditto file was not found: '' @ file_path))
      | Some json \<Rightarrow> Parse X json parameters)"

section \<open>What parsing leaves alone\<close>

text \<open>\<open>grows s t\<close>: the variables of \<open>s\<close> keep their values and names in \<open>t\<close>, where there may be more.\<close>

definition grows :: "'w pstate \<Rightarrow> 'w pstate \<Rightarrow> bool" where
  "grows s t \<longleftrightarrow> (vars_ok (ps_vars s) \<longrightarrow>
     vars_ok (ps_vars t) \<and> ps_path_key t = ps_path_key s \<and>
     (\<exists>vs. sv_variables (ps_vars t) = sv_variables (ps_vars s) @ vs) \<and>
     (\<forall>p k. key_of (ps_vars s) p = Some k \<longrightarrow> key_of (ps_vars t) p = Some k))"

interpretation act_grow: preorder_steps grows
  by unfold_locales (auto simp: grows_def)

interpretation fact_grow: preorder_steps "\<lambda>st st'. grows (fst st) (fst st')"
  by unfold_locales (auto intro: act_grow.R_refl act_grow.R_trans)

lemma growsD:
  assumes "grows s t" and "vars_ok (ps_vars s)"
  shows "vars_ok (ps_vars t)" and "ps_path_key t = ps_path_key s"
    and "\<exists>vs. sv_variables (ps_vars t) = sv_variables (ps_vars s) @ vs"
    and "key_of (ps_vars s) p = Some k \<Longrightarrow> key_of (ps_vars t) p = Some k"
  using assms unfolding grows_def by blast+

lemma keeps_grow: "keeps_vars m \<Longrightarrow> act_grow.moves m"
  by (auto simp: keeps_vars_def act_grow.moves_def grows_def)

lemma resolve_key_grow: "act_grow.moves (resolve_key ids name)"
  unfolding act_grow.moves_def
proof
  fix s :: "'w pstate"
  show "grows s (snd (resolve_key ids name s))"
  proof (cases "ids = []")
    case True
    then show ?thesis by (auto simp: resolve_key_def varsC_def GetKey_def act_grow.R_refl split: option.splits)
  next
    case False
    then show ?thesis
    proof (cases rule: GetKey_cases [of ids "ps_vars s" name])
      case (found k)
      then show ?thesis by (simp add: resolve_key_def varsC_def act_grow.R_refl)
    next
      case (fresh k)
      have "key_of (ps_vars s) (last ids, name) = None" using fresh(1) False by simp
      then show ?thesis
        using fresh register_ok [of "ps_vars s" "last ids" name]
        by (auto simp: grows_def resolve_key_def varsC_def key_of_grow key_of_insert)
    qed
  qed
qed

lemma read_pointer_grow: "act_grow.moves (varsC (GetPointer k))" "act_grow.moves (varsC (get_if_mutex p))"
  by (auto simp: act_grow.moves_def varsC_def GetPointer_def get_if_mutex_def act_grow.R_refl
      split: variant.splits)

lemma mapC_result_grow: "act_grow.moves m \<Longrightarrow> act_grow.moves (mapC_result f m)"
  unfolding mapC_result_def by auto

lemma seed_of_grow: "act_grow.moves (seed_of E seed)"
  unfolding seed_of_def by (auto intro!: keeps_grow keeps_intros split: option.splits)

lemma find_mutex_grow: "act_grow.moves (find_mutex ids mutex)"
  unfolding find_mutex_def
  by (auto intro!: act_grow.moves_bindC resolve_key_grow read_pointer_grow split: option.splits)

lemma constructors_grow:
  "act_grow.moves (OpenFile_path E p path_name create direct_io k mode)"
  "act_grow.moves (OpenFile_random E p create direct_io k mode)"
  "act_grow.moves (DeleteFile_path p path_name)"
  "act_grow.moves (ReadDirectory_ctor p directory_name k)"
  unfolding OpenFile_path_def OpenFile_random_def DeleteFile_path_def ReadDirectory_ctor_def
  by (auto intro!: keeps_grow keeps_intros)

lemmas grow_intros =
  resolve_key_grow seed_of_grow find_mutex_grow constructors_grow mapC_result_grow act_grow.moves_bindC

lemma CreateSimple_grow: "act_grow.moves (CreateSimple E ids p opt)"
proof (cases opt)
  case (PbOpenFile q)
  then show ?thesis
    by (auto simp: CreateOpenFile_def Let_def intro!: grow_intros split: option.splits pb_file.splits)
qed (auto simp: CreateWriteFile_def CreateReadFile_def CreateResizeFileRandom_def CreateMemAlloc_def CreateLock_def
    CreateUnlock_def Let_def intro!: grow_intros split: pb_file.splits)

lemma make_set_grow: "act_grow.moves (make_set E jk ids p cs iterate)"
  unfolding make_set_def by (auto intro!: grow_intros split: option.splits)

lemma procC_grow: "act_grow.moves m \<Longrightarrow> fact_grow.moves (procC m)"
  by (auto simp: act_grow.moves_def fact_grow.moves_def procC_def split: prod.splits) (metis snd_conv)

lemma GenerateThreadId_grow: "fact_grow.moves GenerateThreadId"
  by (simp add: fact_grow.moves_def GenerateThreadId_def act_grow.R_refl)

lemma create_grow:
  "fact_grow.moves (CreateFromProtoInstruction E jk mp ids i)"
  "fact_grow.moves (CreateKind E jk mp ids2 p k)"
  "fact_grow.moves (CreateThreads E jk mp ids3 n th acc)"
proof (induction i and k and th arbitrary: ids and ids2 p and ids3 n acc
    rule: pb_instruction.induct pb_kind.induct pb_thread.induct)
  case (PbThread i th)
  then show ?case
    by (auto simp: spawn_step_def intro!: fact_grow.moves_foldC fact_grow.moves_bindC GenerateThreadId_grow procC_grow)
next
  case (PbMultithreading ths fork)
  then show ?case
    by (auto simp: enumerate_eq_zip intro!: fact_grow.moves_foldC fact_grow.moves_bindC dest: set_zip_rightD split: prod.splits)
qed (auto intro!: procC_grow CreateSimple_grow make_set_grow fact_grow.moves_bindC fact_grow.moves_mapC)

lemma create_trees_grow: "fact_grow.moves (create_trees X ids b)"
  unfolding create_trees_def create_optional_def create_in_def
  by (auto intro!: create_grow fact_grow.moves_bindC split: option.splits)

section \<open>The global declarations\<close>

lemma GetKey_key_of:
  assumes "GetKey [t] name sv = (Inr k, sv')"
  shows "key_of sv' (t, name) = Some k"
proof -
  have "GetKey [t] name sv' = (Inr k, sv')" using GetKey_again [OF _ assms] by simp
  moreover have "find_key (sv_keys sv') [t] name = key_of sv' (t, name)"
    by (simp add: key_of_def split: option.splits)
  ultimately show ?thesis
    by (cases "key_of sv' (t, name)") (auto simp: GetKey_def grow_variables_def Let_def split: if_splits dest: arg_cong [of _ _ sv_variables])
qed

lemma resolve_key_one:
  assumes "resolve_key [t] name s = (Inr k, s')" and "vars_ok (ps_vars s)"
  shows "vars_ok (ps_vars s')" and "key_of (ps_vars s') (t, name) = Some k" and "valid_key (ps_vars s') k"
    and "grows s s'"
proof -
  show g: "grows s s'" using act_grow.movesD [OF resolve_key_grow assms(1)] .
  show ok: "vars_ok (ps_vars s')" using growsD(1) [OF g assms(2)] .
  show "key_of (ps_vars s') (t, name) = Some k"
    using assms(1) GetKey_key_of by (auto simp: resolve_key_def varsC_Inr_iff)
  then show "valid_key (ps_vars s') k" using ok by (auto simp: vars_ok_def)
qed

lemma holds_string_grows: "grows s t \<Longrightarrow> vars_ok (ps_vars s) \<Longrightarrow> holds_string k p s \<Longrightarrow> holds_string k p t"
  by (auto simp: holds_string_def valid_key_def nth_append dest!: growsD(3))

lemma varsC_SetVar_Inr:
  "varsC (SetVar k v) s = (Inr (), t) \<longleftrightarrow> valid_key (ps_vars s) k \<and>
     t = s\<lparr>ps_vars := (ps_vars s)\<lparr>sv_variables := (sv_variables (ps_vars s))[nat k := v]\<rparr>\<rparr>"
  by (auto simp: varsC_def SetVar_def)

lemma key_of_set [simp]: "key_of (sv\<lparr>sv_variables := vs\<rparr>) p = key_of sv p"
  by (simp add: key_of_def)

lemma vars_ok_set:
  "vars_ok sv \<Longrightarrow> vars_ok (sv\<lparr>sv_variables := (sv_variables sv)[i := v]\<rparr>)"
  by (simp add: vars_ok_def valid_key_def)

lemma declare_path_Inr:
  assumes "declare_path [t] path s = (Inr (), s')" and "vars_ok (ps_vars s)"
  shows "vars_ok (ps_vars s') \<and> key_of (ps_vars s') (t, ''absolute_path'') = Some (ps_path_key s') \<and>
    holds_string (ps_path_key s') path s'"
proof -
  obtain k s1 where *: "resolve_key [t] ''absolute_path'' s = (Inr k, s1)" "valid_key (ps_vars s1) k"
      "s' = s1\<lparr>ps_vars := (ps_vars s1)\<lparr>sv_variables := (sv_variables (ps_vars s1))[nat k := VString path]\<rparr>, ps_path_key := k\<rparr>"
    using assms(1) by (auto simp: declare_path_def SetAbsolutePathKey_def bindC_Inr_iff varsC_SetVar_Inr)
  note r = resolve_key_one [OF *(1) assms(2)]
  then show ?thesis using *(2,3) by (auto simp: vars_ok_set holds_string_def valid_key_def)
qed

lemma declare_mutex_Inr:
  assumes "declare_mutex X [t] mutex s = (Inr (), s')" and "vars_ok (ps_vars s)"
    and "key_of (ps_vars s) (t, name) = Some k" and "holds_string k path s" and "mutex \<noteq> Some (Some name)"
    and "name \<noteq> []"
  shows "vars_ok (ps_vars s') \<and> ps_path_key s' = ps_path_key s \<and> holds_string k path s'"
proof (cases mutex)
  case None
  then show ?thesis using assms by (simp add: declare_mutex_def)
next
  case (Some m)
  define n where "n = (case m of None \<Rightarrow> [] | Some n \<Rightarrow> n)"
  obtain j s1 where *: "resolve_key [t] n s = (Inr j, s1)" "valid_key (ps_vars s1) j"
      "\<exists>v. s' = s1\<lparr>ps_vars := (ps_vars s1)\<lparr>sv_variables := (sv_variables (ps_vars s1))[nat j := v]\<rparr>\<rparr>"
    using assms(1) unfolding Some n_def
    by (auto simp: declare_mutex_def bindC_Inr_iff varsC_Inr_iff SetVar_def GetPointer_def get_if_mutex_def
        pthread_mutex_init_def valid_key_def split: if_splits variant.splits)
  note r = resolve_key_one [OF *(1) assms(2)]
  have "key_of (ps_vars s1) (t, name) = Some k" using growsD(4) [OF r(4) assms(2,3)] .
  moreover have "n \<noteq> name" using assms(5,6) unfolding Some n_def by (cases m) auto
  ultimately have "j \<noteq> k" using r(1,2) unfolding vars_ok_def by blast
  moreover have "holds_string k path s1" using holds_string_grows [OF r(4) assms(2,4)] .
  ultimately show ?thesis
    using r growsD(2) [OF r(4) assms(2)] *(2,3)
    by (auto simp: vars_ok_set holds_string_def valid_key_def)
qed

lemma load_benchmark_Inr:
  assumes "load_benchmark X b (s, n) = (Inr trees, (s', n'))"
  obtains s1 s2 where "declare_globals X [n] (pb_global b) s = (Inr (), s1)"
    "create_trees X [n] b (s1, n + 1) = (Inr trees, (s2, n'))"
    "s' = s2\<lparr>ps_vars := ClearKeys (ps_vars s2)\<rparr>"
  using assms
  by (auto simp: load_benchmark_def bindC_Inr_iff procC_Inr_iff GenerateThreadId_def returnC_def modifyC_def)

section \<open>Properties\<close>

text \<open>
  After a benchmark has been parsed, the absolute path is the one it declares, no name is left,
  and the variables are consistent, whatever the instructions resolved in between; unless the global
  mutex has the name of the variable that holds the path.
\<close>

theorem absolute_path_after_parse:
  assumes "vars_ok (ps_vars s)" and "Parse X text ps (s, n) = (Inr (b, trees), (s', n'))"
    and "pg_mutex (pb_global b) \<noteq> Some (Some ''absolute_path'')"
  shows "GetAbsolutePath s' = (Inr (pg_absolute_path (pb_global b)), s') \<and>
    sv_keys (ps_vars s') = Map.empty \<and> vars_ok (ps_vars s')"
proof -
  have "load_benchmark X b (s, n) = (Inr trees, (s', n'))"
    using assms(2) by (auto simp: Parse_def bindC_Inr_iff split: option.splits)
  then obtain s1 s2 where *: "declare_globals X [n] (pb_global b) s = (Inr (), s1)"
      "create_trees X [n] b (s1, n + 1) = (Inr trees, (s2, n'))" "s' = s2\<lparr>ps_vars := ClearKeys (ps_vars s2)\<rparr>"
    by (rule load_benchmark_Inr)
  obtain s0 where p: "declare_path [n] (pg_absolute_path (pb_global b)) s = (Inr (), s0)"
      "declare_mutex X [n] (pg_mutex (pb_global b)) s0 = (Inr (), s1)"
    using *(1) by (auto simp: declare_globals_def bindC_Inr_iff)
  note d = declare_path_Inr [OF p(1) assms(1)]
  have "vars_ok (ps_vars s1) \<and> ps_path_key s1 = ps_path_key s0 \<and>
      holds_string (ps_path_key s0) (pg_absolute_path (pb_global b)) s1"
    using declare_mutex_Inr [OF p(2) _ _ _ assms(3)] d by blast
  moreover have "grows s1 s2" using fact_grow.movesD [OF create_trees_grow *(2)] by simp
  ultimately have "vars_ok (ps_vars s2) \<and> holds_string (ps_path_key s2) (pg_absolute_path (pb_global b)) s2"
    using growsD(1,2) holds_string_grows by metis
  then show ?thesis
    using *(3) ClearKeys_ok [of "ps_vars s2"]
    by (auto simp: ClearKeys_def GetAbsolutePath_def bindC_def holds_string_def valid_key_def
        intro!: shared_string_holds)
qed

text \<open>
  C19: the trees of a parsed benchmark are new, and the thread identifiers drawn are one for the scope
  of the global declarations and one for each thread of the three sections.
\<close>

theorem parsed_trees_are_new:
  assumes "Parse X text ps (s, n) = (Inr (b, trees), (s', n'))"
    and "\<And>p cs tps. length tps = length cs \<Longrightarrow> \<forall>c \<in> set cs. new_tree c \<Longrightarrow> new_tree (ou_mp X p cs tps)"
  shows "new_tree (pd_main trees) \<and> pred_option new_tree (pd_init trees) \<and>
    pred_option new_tree (pd_clean_up trees) \<and>
    n' = n + 1 + int (spawned (pb_main b)) + (case pb_init b of None \<Rightarrow> 0 | Some i \<Rightarrow> int (spawned i)) +
      (case pb_clean_up b of None \<Rightarrow> 0 | Some i \<Rightarrow> int (spawned i))"
proof -
  have "load_benchmark X b (s, n) = (Inr trees, (s', n'))"
    using assms(1) by (auto simp: Parse_def bindC_Inr_iff split: option.splits)
  then obtain s1 s2 where "create_trees X [n] b (s1, n + 1) = (Inr trees, (s2, n'))"
    by (rule load_benchmark_Inr)
  then obtain i st1 st2 m c where *: "create_optional X [n] (pb_init b) (s1, n + 1) = (Inr i, st1)"
      "create_in X [n] (pb_main b) st1 = (Inr m, st2)"
      "create_optional X [n] (pb_clean_up b) st2 = (Inr c, (s2, n'))"
      "trees = \<lparr>pd_init = i, pd_main = m, pd_clean_up = c\<rparr>"
    by (auto simp: create_trees_def bindC_Inr_iff)
  have one: "new_tree c \<and> snd st' = snd st + int (spawned i)" if "create_in X ids i st = (Inr c, st')" for ids i st c st'
    using makesD [OF create_makes(1) that [unfolded create_in_def]] assms(2) by (simp add: new_threads_def)
  have opt: "pred_option new_tree c \<and> snd st' = snd st + (case i of None \<Rightarrow> 0 | Some i \<Rightarrow> int (spawned i))"
    if "create_optional X ids i st = (Inr c, st')" for ids i st c st'
    using that by (cases i) (auto simp: create_optional_def bindC_Inr_iff dest!: one)
  show ?thesis using one [OF *(2)] opt [OF *(1)] opt [OF *(3)] *(4) by simp
qed

lemma str_find_marked:
  "m \<notin> set a \<Longrightarrow> str_find (m # w) (a @ (m # w) @ b) = Some (length a)"
  by (induction a) auto

lemma parameter_name_Cons: "\<exists>w. parameter_name n = CHR ''$'' # w"
  by (simp add: parameter_name_def)

lemma replace_parameter_marked:
  assumes "CHR ''$'' \<notin> set a"
  shows "replace_parameter n p (a @ parameter_name n @ b) = a @ p @ b"
proof -
  obtain w where w: "parameter_name n = CHR ''$'' # w" using parameter_name_Cons by blast
  show ?thesis using str_find_marked [OF assms, of w b] by (simp add: replace_parameter_def w str_replace_def)
qed

lemma replace_from:
  assumes "length as = length ps" and "\<forall>a \<in> set as. CHR ''$'' \<notin> set a" and "\<forall>p \<in> set ps. CHR ''$'' \<notin> set p"
    and "CHR ''$'' \<notin> set d"
  shows "foldl (\<lambda>s (i, p). replace_parameter (i + 1) p s)
      (d @ concat (map (\<lambda>(i, a). a @ parameter_name (i + 1)) (enumerate k as)) @ c) (enumerate k ps)
    = d @ concat (map2 (@) as ps) @ c"
  using assms
proof (induction as ps arbitrary: d k rule: list_induct2)
  case (Cons a as p ps)
  have "CHR ''$'' \<notin> set (d @ a)" using Cons.prems by simp
  from replace_parameter_marked [OF this, of "Suc k" p]
  have "replace_parameter (Suc k) p (d @ a @ parameter_name (Suc k) @ rest) = (d @ a @ p) @ rest" for rest
    by simp
  moreover have "CHR ''$'' \<notin> set (d @ a @ p)" using Cons.prems by simp
  ultimately show ?case using Cons.IH [of "d @ a @ p" "Suc k"] Cons.prems by simp
qed simp

text \<open>
  Parameters fill their slots in order, and only the first slot of each: the text \<open>c\<close> after the
  last slot stays as it is, with any further slots in it. Nothing is said of values that contain
  the character \<^verbatim>\<open>$\<close>, which could make up a slot themselves.
\<close>

theorem parameters_fill_first_slots:
  assumes "length as = length ps" and "\<forall>a \<in> set as. CHR ''$'' \<notin> set a" and "\<forall>p \<in> set ps. CHR ''$'' \<notin> set p"
  shows "replace_parameters ps (concat (map (\<lambda>(i, a). a @ parameter_name (i + 1)) (enumerate 0 as)) @ c)
    = concat (map2 (@) as ps) @ c"
  using replace_from [OF assms, of "[]" 0 c] by (simp add: replace_parameters_def)

section \<open>A benchmark whose lock is stale\<close>

text \<open>The benchmark that locks its global mutex and then opens a file under a new name.\<close>

definition lock_then_open :: "string \<Rightarrow> string \<Rightarrow> string \<Rightarrow> pb_benchmark" where
  "lock_then_open path mux fd =
     \<lparr>pb_init = None,
      pb_main = PbInstruction 1 0 0 (PbInstructionSet
        [PbInstruction 1 0 0 (PbSimple (PbLock (Some (Some mux)))),
         PbInstruction 1 0 0 (PbSimple (PbOpenFile \<lparr>po_file = PbPathName ''f'', po_output_fd = Some fd,
           po_create = True, po_direct_io = False, po_access_mode = READ_WRITE\<rparr>))] None),
      pb_clean_up = None,
      pb_global = \<lparr>pg_absolute_path = path, pg_mutex = Some (Some mux)\<rparr>\<rparr>"

lemma parse_lock_then_open:
  assumes "ou_text_parse X (replace_parameters ps text) = Some (lock_then_open path mux fd)"
    and "ps_vars s = empty_vars" and "distinct [''absolute_path'', mux, fd]"
  shows "\<exists>b trees s' bs f b1 p j. Parse X text ps (s, n) = (Inr (b, trees), (s', n + 1)) \<and>
    pd_main trees = InstructionSet bs f [Leaf b1 (Lock (Some p)), j] \<and>
    fst (Lock_RunSingle E (Some p) s') = Inl (Undefined StalePointer)"
proof -
  have ne: "mux \<noteq> ''absolute_path''" "fd \<noteq> ''absolute_path''" "fd \<noteq> mux" using assms(3) by auto
  show ?thesis
    using assms(1,2)
    by (simp add: Parse_def load_benchmark_def lock_then_open_def bindC_app GenerateThreadId_def procC_def
        declare_globals_def declare_path_def declare_mutex_def resolve_key_def varsC_def GetKey_def SetVar_def
        empty_vars_def SetAbsolutePathKey_def insert_key_def grow_variables_def Let_def valid_key_def GetPointer_def
        get_if_mutex_def pthread_mutex_init_def create_trees_def create_optional_def create_in_def CreateLock_def
        find_mutex_def Exists_def CreateOpenFile_def mapC_result_def OpenFile_path_def GetAbsolutePath_def
        shared_string_app get_string_def fail_ifC_def leaf_of_def make_set_def InstructionSet_plain_ctor_def
        ClearKeys_def Lock_RunSingle_def on_mutex_def ptr_live_def ne ne [symmetric])
qed


section \<open>Examples\<close>

definition sample_benchmark :: pb_benchmark where
  "sample_benchmark = lock_then_open ''/data/'' ''mux'' ''fd''"

definition sample_outside :: "(sample_world, nat) outside" where
  "sample_outside =
     \<lparr>ou_env = sample_env, ou_junk = sample_junk, ou_mp = Multithreading_ctor, ou_junk_mutex = [], ou_init_mutex = [0],
      ou_text_parse = (\<lambda>t. if t = ''main: 7'' then Some sample_benchmark else None), ou_config = Map.empty,
      ou_files = [''/b.ditto'' \<mapsto> ''main: $PARAMETER_1$'']\<rparr>"

definition sample_start :: "sample_world pstate" where
  "sample_start = sample_state\<lparr>ps_vars := empty_vars\<rparr>"

definition sample_text :: string where
  "sample_text = ''main: '' @ parameter_name 1"

lemma sample_text_parses:
  "ou_text_parse sample_outside (replace_parameters [''7''] sample_text)
     = Some (lock_then_open ''/data/'' ''mux'' ''fd'')"
proof -
  have "replace_parameters [''7''] sample_text = ''main: 7''" by code_simp
  then show ?thesis by (simp add: sample_outside_def sample_benchmark_def)
qed

lemma sample_parse_succeeds:
  "\<exists>trees s' n'. Parse sample_outside sample_text [''7''] (sample_start, 0) = (Inr (sample_benchmark, trees), (s', n'))"
proof -
  have "ps_vars sample_start = empty_vars" by (simp add: sample_start_def)
  from parse_lock_then_open [OF sample_text_parses this, of 0 sample_env]
  show ?thesis by (auto simp: Parse_def sample_text_parses sample_benchmark_def bindC_Inr_iff)
qed

lemma sample_start_ok: "vars_ok (ps_vars sample_start)"
  by (simp add: sample_start_def empty_vars_ok)

theorem absolute_path_after_parse_witness:
  "\<exists>trees s' n'. Parse sample_outside sample_text [''7''] (sample_start, 0) = (Inr (sample_benchmark, trees), (s', n')) \<and>
     GetAbsolutePath s' = (Inr ''/data/'', s')"
proof -
  obtain trees s' n' where p: "Parse sample_outside sample_text [''7''] (sample_start, 0) = (Inr (sample_benchmark, trees), (s', n'))"
    using sample_parse_succeeds by blast
  have "pg_mutex (pb_global sample_benchmark) \<noteq> Some (Some ''absolute_path'')"
    by (simp add: sample_benchmark_def lock_then_open_def)
  from absolute_path_after_parse [OF sample_start_ok p this] p show ?thesis
    by (auto simp: sample_benchmark_def lock_then_open_def)
qed

theorem parsed_trees_are_new_witness:
  "\<exists>trees s' n'. Parse sample_outside sample_text [''7''] (sample_start, 0) = (Inr (sample_benchmark, trees), (s', n')) \<and>
     new_tree (pd_main trees) \<and> n' = 1"
proof -
  obtain trees s' n' where p: "Parse sample_outside sample_text [''7''] (sample_start, 0) = (Inr (sample_benchmark, trees), (s', n'))"
    using sample_parse_succeeds by blast
  have "new_tree (ou_mp sample_outside q cs tps)" if "length tps = length cs" "\<forall>c \<in> set cs. new_tree c" for q cs tps
    using that by (simp add: sample_outside_def Multithreading_ctor_def)
  from parsed_trees_are_new [OF p this] p show ?thesis
    by (auto simp: sample_benchmark_def lock_then_open_def)
qed

theorem parameters_fill_first_slots_witness:
  "replace_parameters [''7''] (''main: '' @ parameter_name 1 @ parameter_name 1) = ''main: 7'' @ parameter_name 1"
  using parameters_fill_first_slots [of "[''main: '']" "[''7'']" "parameter_name 1"] by simp


end
