(* ===== verification/Command_Line.thy ===== *)
theory Command_Line
  imports Results "HOL-Library.Sublist"
begin

text \<open>
  \<^verbatim>\<open>src/logger.cpp\<close>, \<^verbatim>\<open>include/ditto/logger.h\<close>, \<^verbatim>\<open>src/arg_parser.cpp\<close> and \<^verbatim>\<open>include/ditto/arg_parser.h\<close>,
  in a build for the host: the logger with its two settings, and the command line.

  \<open>scan\<close> is \<^verbatim>\<open>getopt_long\<close> on the options of the program, with the GNU behaviour that arguments which
  are not options are moved behind the others, and that a long option may be abbreviated. What the
  program prints before it exits is the string of \<open>Exit_with\<close>; log messages are not part of the
  results.
\<close>

section \<open>The logger\<close>

datatype log_level = kVerbose | kDebug | kInfo | kWarning | kError | kFatal

datatype log_stream = kStdout | kLogcat

fun level_index :: "log_level \<Rightarrow> nat" where
  "level_index kVerbose = 0"
| "level_index kDebug = 1"
| "level_index kInfo = 2"
| "level_index kWarning = 3"
| "level_index kError = 4"
| "level_index kFatal = 5"

lemma level_index_inj: "level_index a = level_index b \<Longrightarrow> a = b"
  by (cases a; cases b) simp_all

instantiation log_level :: linorder
begin

definition less_eq_log_level :: "log_level \<Rightarrow> log_level \<Rightarrow> bool" where
  "less_eq_log_level a b \<longleftrightarrow> level_index a \<le> level_index b"

definition less_log_level :: "log_level \<Rightarrow> log_level \<Rightarrow> bool" where
  "less_log_level a b \<longleftrightarrow> level_index a < level_index b"

instance
  by standard (auto simp: less_eq_log_level_def less_log_level_def level_index_inj)

end

record logger =
  lg_level :: log_level
  lg_stream :: log_stream

text \<open>The instance is static: \<^verbatim>\<open>log_stream_\<close>, which the constructor leaves out, is zero.\<close>

definition Logger_ctor :: logger where
  "Logger_ctor = \<lparr>lg_level = kInfo, lg_stream = kStdout\<rparr>"

definition SetLogLevel :: "log_level \<Rightarrow> logger \<Rightarrow> logger" where
  "SetLogLevel level lg = lg\<lparr>lg_level := level\<rparr>"

definition SetLogStream :: "log_stream \<Rightarrow> logger \<Rightarrow> logger" where
  "SetLogStream stream lg = lg\<lparr>lg_stream := stream\<rparr>"

definition GetLogLevel :: "logger \<Rightarrow> log_level" where
  "GetLogLevel lg = lg_level lg"

definition GetLogStream :: "logger \<Rightarrow> log_stream" where
  "GetLogStream lg = lg_stream lg"

definition LogLevelToString :: "log_level \<Rightarrow> string" where
  "LogLevelToString level =
     [''VERBOSE'', ''DEBUG'', ''INFO'', ''WARNING'', ''ERROR'', ''FATAL''] ! level_index level"

text \<open>The severities of \<^verbatim>\<open>android::base\<close> that the code names.\<close>

datatype log_severity = VERBOSE | DEBUG | INFO | WARNING | ERROR | FATAL

fun LogLevelToAndroidLogLevel :: "log_level \<Rightarrow> log_severity" where
  "LogLevelToAndroidLogLevel kVerbose = VERBOSE"
| "LogLevelToAndroidLogLevel kDebug = DEBUG"
| "LogLevelToAndroidLogLevel kInfo = INFO"
| "LogLevelToAndroidLogLevel kWarning = WARNING"
| "LogLevelToAndroidLogLevel kError = ERROR"
| "LogLevelToAndroidLogLevel kFatal = FATAL"

text \<open>
  Where a message is written: \<open>lx_android\<close> says which build it is, \<open>lx_date\<close> is what \<^verbatim>\<open>put_time\<close> writes,
  \<open>lx_ms\<close> the milliseconds since the epoch, \<open>lx_errno\<close> the result of \<^verbatim>\<open>strerror\<close>; the file and the line.
\<close>

record log_site =
  lx_android :: bool
  lx_date :: string
  lx_ms :: nat
  lx_errno :: string
  lx_file :: string
  lx_line :: int

datatype log_output = To_stdout string | To_logcat log_severity string

definition log_text :: "log_site \<Rightarrow> log_level \<Rightarrow> string \<Rightarrow> bool \<Rightarrow> string" where
  "log_text x level message print_errno =
     ''['' @ lx_date x @ ''.'' @ setw_right (CHR ''0'') 3 (show_nat (lx_ms x mod 1000)) @ '']'' @
     '' '' @ LogLevelToString level @ '' '' @ lx_file x @ '':'' @ show_int (lx_line x) @ '' '' @ message @
     (if print_errno then '': '' @ lx_errno x else [])"

definition WriteLogMessage :: "log_site \<Rightarrow> logger \<Rightarrow> log_level \<Rightarrow> string \<Rightarrow> bool \<Rightarrow> log_output" where
  "WriteLogMessage x lg level message print_errno =
     (let ss = log_text x level message print_errno in
      case lg_stream lg of
        kLogcat \<Rightarrow>
          if lx_android x then To_logcat (LogLevelToAndroidLogLevel level) ss else To_stdout (ss @ newline)
      | kStdout \<Rightarrow> To_stdout (ss @ newline))"

text \<open>The macros: what a message adds to the output.\<close>

definition DITTO_LOG :: "log_site \<Rightarrow> logger \<Rightarrow> log_level \<Rightarrow> string \<Rightarrow> bool \<Rightarrow> log_output list" where
  "DITTO_LOG x lg level message print_errno =
     (if GetLogLevel lg \<le> level then [WriteLogMessage x lg level message print_errno] else [])"

text \<open>\<^verbatim>\<open>LOGF\<close> and \<^verbatim>\<open>PLOGF\<close> log and exit; they are the errors \<open>Logf\<close> and \<open>Plogf\<close> of the model.\<close>

fun fatal_output :: "log_site \<Rightarrow> logger \<Rightarrow> err \<Rightarrow> log_output list" where
  "fatal_output x lg (Logf message) = DITTO_LOG x lg kFatal message False"
| "fatal_output x lg (Plogf message) = DITTO_LOG x lg kFatal message True"
| "fatal_output x lg (Loge_exit message) = DITTO_LOG x lg kError message False"
| "fatal_output x lg _ = []"

text \<open>A message is written exactly when its level is not below the one that is set, fatal ones always.\<close>

lemma log_levels:
  "DITTO_LOG x (SetLogLevel l lg) level message e = [] \<longleftrightarrow> level_index level < level_index l"
  "DITTO_LOG x lg kFatal message e = [WriteLogMessage x lg kFatal message e]"
  by (simp_all add: DITTO_LOG_def GetLogLevel_def SetLogLevel_def less_eq_log_level_def not_le)
    (cases "lg_level lg"; simp)

text \<open>Outside Android both streams are the standard output.\<close>

lemma log_stream_of_host:
  "\<not> lx_android x \<Longrightarrow>
     WriteLogMessage x (SetLogStream stream lg) level message e = To_stdout (log_text x level message e @ newline)"
  by (cases stream) (simp_all add: WriteLogMessage_def SetLogStream_def Let_def)

lemma logger_settings:
  "GetLogLevel Logger_ctor = kInfo" "GetLogLevel (SetLogLevel l lg) = l" "GetLogStream (SetLogStream st lg) = st"
  "GetLogStream (SetLogLevel l lg) = GetLogStream lg" "GetLogLevel (SetLogStream st lg) = GetLogLevel lg"
  by (simp_all add: GetLogLevel_def GetLogStream_def SetLogLevel_def SetLogStream_def Logger_ctor_def)

section \<open>The values of options\<close>

definition ArgToResultsOutput :: "string \<Rightarrow> results_output" where
  "ArgToResultsOutput optarg =
     (if optarg = ''report'' \<or> optarg = ''0'' then kReport
      else if optarg = ''csv'' \<or> optarg = ''1'' then kCsv
      else if optarg = ''pb'' \<or> optarg = ''2'' then kPb
      else if optarg = ''null'' \<or> optarg = ''-1'' then kNull
      else kReport)"

definition no_logcat :: err where
  "no_logcat = Plogf ''Cannot set log stream as logcat outside of Android''"

definition ArgToLogStream :: "string \<Rightarrow> log_stream res" where
  "ArgToLogStream optarg =
     (if optarg = ''logcat'' \<or> optarg = ''1'' then Inl no_logcat else Inr kStdout)"

definition ArgToLogLevel :: "string \<Rightarrow> log_level" where
  "ArgToLogLevel optarg =
     (if optarg = ''VERBOSE'' \<or> optarg = ''5'' then kVerbose
      else if optarg = ''DEBUG'' \<or> optarg = ''4'' then kDebug
      else if optarg = ''INFO'' \<or> optarg = ''3'' then kInfo
      else if optarg = ''WARNING'' \<or> optarg = ''2'' then kWarning
      else if optarg = ''ERROR'' \<or> optarg = ''1'' then kError
      else if optarg = ''FATAL'' \<or> optarg = ''0'' then kFatal
      else kInfo)"

text \<open>The loop over \<^verbatim>\<open>strtok(optarg, ",")\<close>: the parts between commas that are not empty.\<close>

fun strtok_commas :: "string \<Rightarrow> string \<Rightarrow> string list" where
  "strtok_commas token [] = (if token = [] then [] else [token])"
| "strtok_commas token (c # s) =
     (if c = CHR '','' then (if token = [] then [] else [token]) @ strtok_commas [] s
      else strtok_commas (token @ [c]) s)"

section \<open>Help\<close>

definition tab :: string where
  "tab = [CHR 0x09]"

definition help_text :: "string list \<Rightarrow> string \<Rightarrow> string \<Rightarrow> string" where
  "help_text workloads program_name help_arg =
     (if help_arg = ''workloads'' then
        ''The following workloads are available for execution:'' @ newline @
        concat (map (\<lambda>c. ''  - '' @ c @ newline) workloads)
      else
        ''Usage: '' @ program_name @ '' [OPTION]... [FILE]'' @ newline @
        ''Benchmarking tool for generic workloads.'' @ newline @ newline @
        ''  -w, --workload[=WORKLOAD]'' @ '' The workload to run. Full list with '' @
        [CHR 0x22] @ ''-h workloads'' @ [CHR 0x22] @ ''.'' @ newline @
        ''  -f, --format[=FMT]'' @ tab @ ''results output format, where FMT can be one of:'' @ newline @
        tab @ tab @ tab @ ''  - report (or 0, default): human readable summary;'' @ newline @
        tab @ tab @ tab @ ''  - csv (or 1): for comma-separated detailed stats;'' @ newline @
        tab @ tab @ tab @ ''  - pb (or 2): protocol-buffer text;'' @ newline @
        tab @ tab @ tab @ ''  - null (-1): do not print.'' @ newline @
        ''  -p, --param[=PAR]...'' @ tab @ ''if the benchmark is parametric, all the parameters can be passed'' @ newline @
        tab @ tab @ tab @ ''through PAR (comma separated)'' @ newline @
        ''  -l, --log[=LOG]'' @ tab @ ''output stream for the log messages.'' @ newline @
        tab @ tab @ tab @ ''LOG can be one of: stdout (or 0, default), logcat (or 1)'' @ newline @
        ''  -v, --verbosity[=VER]'' @ tab @ ''output messages verbosity.'' @ newline @
        tab @ tab @ tab @ ''VER can be one of: VERBOSE (or 5), DEBUG (or 4), INFO (or 3, default),'' @ newline @
        tab @ tab @ tab @ ''WARNING (or 2), ERROR (or 1), FATAL (or 0)'' @ newline @
        ''  -h, --help'' @ tab @ tab @ ''display this help and exit'' @ newline @ newline)"

definition PrintHelpAndExit :: "string list \<Rightarrow> string \<Rightarrow> string \<Rightarrow> err" where
  "PrintHelpAndExit workloads program_name help_arg =
     Exit_with 0 (help_text workloads program_name help_arg)"

section \<open>\<^verbatim>\<open>getopt_long\<close>\<close>

datatype arg_kind = required_argument | optional_argument

definition long_options :: "(string \<times> arg_kind \<times> char) list" where
  "long_options =
     [(''workload'', required_argument, CHR ''w''),
      (''format'', required_argument, CHR ''f''),
      (''param'', required_argument, CHR ''p''),
      (''log'', required_argument, CHR ''l''),
      (''verbosity'', required_argument, CHR ''v''),
      (''help'', optional_argument, CHR ''h'')]"

definition short_options :: "char \<Rightarrow> arg_kind option" where
  "short_options c =
     (if c \<in> {CHR ''w'', CHR ''f'', CHR ''l'', CHR ''v'', CHR ''p''} then Some required_argument
      else if c = CHR ''h'' then Some optional_argument else None)"

text \<open>
  \<open>scan a rest\<close> is one call that meets the element \<open>a\<close> of \<^verbatim>\<open>argv\<close>, before \<open>rest\<close>: what it returns, and
  the elements that remain.
\<close>

datatype scanned = Opt char "string option" | BadOpt | NonOption | EndOfOptions

definition take_argument :: "char \<Rightarrow> arg_kind \<Rightarrow> string option \<Rightarrow> string list \<Rightarrow> scanned \<times> string list" where
  "take_argument c k given rest =
     (case (k, given, rest) of
        (required_argument, None, []) \<Rightarrow> (BadOpt, [])
      | (required_argument, None, v # rest') \<Rightarrow> (Opt c (Some v), rest')
      | _ \<Rightarrow> (Opt c given, rest))"

definition scan_long :: "string \<Rightarrow> string list \<Rightarrow> scanned \<times> string list" where
  "scan_long body rest =
     (let name = takeWhile (\<lambda>c. c \<noteq> CHR ''='') body;
          given = (if CHR ''='' \<in> set body then Some (drop (Suc (length name)) body) else None)
      in case filter (\<lambda>(n, k, c). prefix name n) long_options of
           [(n, k, c)] \<Rightarrow> take_argument c k given rest
         | _ \<Rightarrow> (BadOpt, rest))"

definition scan_short :: "char \<Rightarrow> string \<Rightarrow> string list \<Rightarrow> scanned \<times> string list" where
  "scan_short c attached rest =
     (case short_options c of
        None \<Rightarrow> (BadOpt, rest)
      | Some k \<Rightarrow> take_argument c k (if attached = [] then None else Some attached) rest)"

definition scan :: "string \<Rightarrow> string list \<Rightarrow> scanned \<times> string list" where
  "scan a rest =
     (if a = ''--'' then (EndOfOptions, rest)
      else if take 2 a = ''--'' then scan_long (drop 2 a) rest
      else case a of
             d # c # attached \<Rightarrow> if d = CHR ''-'' then scan_short c attached rest else (NonOption, rest)
           | _ \<Rightarrow> (NonOption, rest))"

lemma take_argument_rest: "length (snd (take_argument c k given rest)) \<le> length rest"
  by (cases k; cases given; cases rest) (simp_all add: take_argument_def)

lemma scan_rest: "length (snd (scan a rest)) \<le> length rest"
  using take_argument_rest
  by (auto simp: scan_def scan_long_def scan_short_def Let_def split: list.splits option.splits)

section \<open>The command line\<close>

record cmd_arguments =
  ca_results_output :: results_output
  ca_file_path :: string
  ca_embedded_benchmark :: string
  ca_parameters :: "string list"

definition no_arguments :: cmd_arguments where
  "no_arguments = \<lparr>ca_results_output = kReport, ca_file_path = [], ca_embedded_benchmark = [], ca_parameters = []\<rparr>"

text \<open>What the loop changes: the arguments, \<^verbatim>\<open>is_embedded\<close> and the logger.\<close>

record option_state =
  os_arguments :: cmd_arguments
  os_is_embedded :: bool
  os_logger :: logger

text \<open>The argument of \<^verbatim>\<open>-h\<close> may be the next element of \<^verbatim>\<open>argv\<close>.\<close>

definition help_argument :: "string option \<Rightarrow> string list \<Rightarrow> string" where
  "help_argument optarg rest =
     (case (optarg, rest) of
        (None, (c # s) # _) \<Rightarrow> if c \<noteq> CHR ''-'' then c # s else []
      | _ \<Rightarrow> [])"

definition apply_option ::
  "string list \<Rightarrow> string \<Rightarrow> char \<Rightarrow> string option \<Rightarrow> string list \<Rightarrow> option_state \<Rightarrow> option_state res" where
  "apply_option workloads program_name c optarg rest st =
     (let arg = (case optarg of None \<Rightarrow> [] | Some a \<Rightarrow> a); ca = os_arguments st; lg = os_logger st in
      if c = CHR ''w'' then Inr (st\<lparr>os_arguments := ca\<lparr>ca_embedded_benchmark := arg\<rparr>, os_is_embedded := True\<rparr>)
      else if c = CHR ''f'' then Inr (st\<lparr>os_arguments := ca\<lparr>ca_results_output := ArgToResultsOutput arg\<rparr>\<rparr>)
      else if c = CHR ''l'' then
        bindR (ArgToLogStream arg) (\<lambda>stream. Inr (st\<lparr>os_logger := SetLogStream stream lg\<rparr>))
      else if c = CHR ''v'' then Inr (st\<lparr>os_logger := SetLogLevel (ArgToLogLevel arg) lg\<rparr>)
      else if c = CHR ''p'' then
        Inr (st\<lparr>os_arguments := ca\<lparr>ca_parameters := ca_parameters ca @ strtok_commas [] arg\<rparr>\<rparr>)
      else Inl (PrintHelpAndExit workloads program_name (help_argument optarg rest)))"

text \<open>The loop; it returns the elements that are not options, in their order, with the state.\<close>

function parse_options ::
  "string list \<Rightarrow> string \<Rightarrow> string list \<Rightarrow> option_state \<Rightarrow> (string list \<times> option_state) res" where
  "parse_options workloads program_name [] st = Inr ([], st)"
| "parse_options workloads program_name (a # rest) st =
     (case fst (scan a rest) of
        EndOfOptions \<Rightarrow> Inr (rest, st)
      | NonOption \<Rightarrow>
          bindR (parse_options workloads program_name rest st) (\<lambda>(others, st'). Inr (a # others, st'))
      | BadOpt \<Rightarrow> Inl (PrintHelpAndExit workloads program_name [])
      | Opt c optarg \<Rightarrow>
          bindR (apply_option workloads program_name c optarg (snd (scan a rest)) st) (\<lambda>st'.
          parse_options workloads program_name (snd (scan a rest)) st'))"
  by pat_completeness auto
termination
  by (relation "measure (\<lambda>(_, _, args, _). length args)") (auto simp: le_imp_less_Suc scan_rest)

definition ParseArguments ::
  "string list \<Rightarrow> logger \<Rightarrow> string \<Rightarrow> string list \<Rightarrow> (cmd_arguments \<times> logger) res" where
  "ParseArguments workloads lg program_name args =
     bindR (parse_options workloads program_name args
              \<lparr>os_arguments = no_arguments, os_is_embedded = False, os_logger = lg\<rparr>) (\<lambda>(others, st).
     if os_is_embedded st \<and> others \<noteq> [] then Inl (PrintHelpAndExit workloads program_name [])
     else if os_is_embedded st then Inr (os_arguments st, os_logger st)
     else (case others of
             [] \<Rightarrow> Inl (PrintHelpAndExit workloads program_name [])
           | file # _ \<Rightarrow> Inr ((os_arguments st)\<lparr>ca_file_path := file\<rparr>, os_logger st)))"

section \<open>Properties\<close>

fun join_commas :: "string list \<Rightarrow> string" where
  "join_commas [] = []"
| "join_commas [p] = p"
| "join_commas (p # q # ps) = p @ '','' @ join_commas (q # ps)"

lemma strtok_token: "CHR '','' \<notin> set p \<Longrightarrow> strtok_commas t (p @ s) = strtok_commas (t @ p) s"
  by (induction p arbitrary: t) auto

lemma strtok_join:
  "\<forall>p \<in> set ps. p \<noteq> [] \<and> CHR '','' \<notin> set p \<Longrightarrow> strtok_commas [] (join_commas ps) = ps"
proof (induction ps rule: join_commas.induct)
  case (2 p)
  then show ?case using strtok_token [of p "[]" "[]"] by simp
next
  case (3 p q ps)
  then show ?case using strtok_token [of p "[]"] by simp
qed simp

fun output_name :: "results_output \<Rightarrow> string" where
  "output_name kReport = ''report''"
| "output_name kCsv = ''csv''"
| "output_name kPb = ''pb''"
| "output_name kNull = ''null''"

definition command_line :: "results_output \<Rightarrow> log_level \<Rightarrow> string list \<Rightarrow> string \<Rightarrow> string list" where
  "command_line out level params target =
     [''--format='' @ output_name out, ''-v'', LogLevelToString level, ''--param'', join_commas params, target]"

lemma log_level_names: "ArgToLogLevel (LogLevelToString level) = level"
  by (cases level) (simp_all add: ArgToLogLevel_def LogLevelToString_def)

lemma output_names: "ArgToResultsOutput (output_name out) = out"
  by (cases out) (simp_all add: ArgToResultsOutput_def)

lemma scan_file: "target = [] \<or> hd target \<noteq> CHR ''-'' \<Longrightarrow> scan target rest = (NonOption, rest)"
  by (cases target) (auto simp: scan_def split: list.splits)

text \<open>
  C34: the format, the verbosity, the parameters and the file written on a command line are the ones
  that are read back, for parameters that are not empty and contain no comma.
\<close>

theorem command_line_roundtrip:
  assumes "\<forall>p \<in> set params. p \<noteq> [] \<and> CHR '','' \<notin> set p" and "target = [] \<or> hd target \<noteq> CHR ''-''"
  shows "ParseArguments workloads lg program_name (command_line out level params target) =
    Inr (\<lparr>ca_results_output = out, ca_file_path = target, ca_embedded_benchmark = [], ca_parameters = params\<rparr>,
         SetLogLevel level lg)"
proof -
  have "scan (''--format='' @ output_name out) rest = (Opt (CHR ''f'') (Some (output_name out)), rest)" for rest
    by (simp add: scan_def scan_long_def long_options_def take_argument_def)
  moreover have "scan ''-v'' (v # rest) = (Opt (CHR ''v'') (Some v), rest)" for v rest
    by (simp add: scan_def scan_short_def short_options_def take_argument_def)
  moreover have "scan ''--param'' (v # rest) = (Opt (CHR ''p'') (Some v), rest)" for v rest
    by (simp add: scan_def scan_long_def long_options_def take_argument_def)
  ultimately show ?thesis
    using strtok_join [OF assms(1)] scan_file [OF assms(2)]
    by (simp add: ParseArguments_def command_line_def apply_option_def Let_def output_names log_level_names no_arguments_def)
qed

text \<open>
  The level of a log is printed by its name, and both the name and the number of the help text
  select it again.
\<close>

theorem log_level_roundtrip:
  "ArgToLogLevel (LogLevelToString level) = level \<and> ArgToLogLevel (show_nat (5 - level_index level)) = level"
  by (induction level) code_simp+

lemma apply_option_error:
  "apply_option workloads program_name c optarg rest st = Inl e \<Longrightarrow>
     e = no_logcat \<or> (\<exists>a. e = PrintHelpAndExit workloads program_name a)"
  by (auto simp: bindR_Inl_iff apply_option_def ArgToLogStream_def Let_def split: if_splits)

lemma parse_options_error:
  "parse_options workloads program_name args st = Inl e \<Longrightarrow>
     e = no_logcat \<or> (\<exists>a. e = PrintHelpAndExit workloads program_name a)"
proof (induction workloads program_name args st rule: parse_options.induct)
  case (2 workloads program_name a rest st)
  show ?case
  proof (cases "fst (scan a rest)")
    case (Opt c optarg)
    then consider "apply_option workloads program_name c optarg (snd (scan a rest)) st = Inl e"
      | st' where "apply_option workloads program_name c optarg (snd (scan a rest)) st = Inr st'"
          "parse_options workloads program_name (snd (scan a rest)) st' = Inl e"
      using "2.prems" by (auto simp: bindR_Inl_iff)
    then show ?thesis using apply_option_error "2.IH"(1) [OF Opt] by cases blast+
  qed (use 2 in \<open>auto simp: bindR_Inl_iff split: prod.splits\<close>)
qed simp

text \<open>
  A command line that cannot be used ends the process with status 0, as asking for help does: the
  only failure that is reported as one is \<^verbatim>\<open>--log=logcat\<close> on the host.
\<close>

theorem usage_errors_exit_with_success:
  assumes "ParseArguments workloads lg program_name args = Inl e"
  shows "e = no_logcat \<or> (\<exists>a. e = Exit_with 0 (help_text workloads program_name a))"
  using assms parse_options_error
  by (fastforce simp: ParseArguments_def bindR_Inl_iff PrintHelpAndExit_def split: if_splits list.splits prod.splits)

text \<open>
  The long options that \<^verbatim>\<open>README.md\<close> documents are not the ones of the program: the first of them on
  a command line prints the help and exits.
\<close>

theorem documented_options_rejected:
  "list_all (\<lambda>name. ParseArguments workloads lg program_name ((''--'' @ name @ ''='' @ v) # args) =
      Inl (Exit_with 0 (help_text workloads program_name [])))
    [''results-output'', ''log-stream'', ''log-level'', ''parameters'']"
  by (simp add: ParseArguments_def scan_def scan_long_def long_options_def PrintHelpAndExit_def)

theorem command_line_roundtrip_witness:
  "ParseArguments [] Logger_ctor ''dittobench'' (command_line kCsv kDebug [''4'', ''10''] ''b.ditto'') =
    Inr (\<lparr>ca_results_output = kCsv, ca_file_path = ''b.ditto'', ca_embedded_benchmark = [], ca_parameters = [''4'', ''10'']\<rparr>,
         \<lparr>lg_level = kDebug, lg_stream = kStdout\<rparr>)"
  using command_line_roundtrip [of "[''4'', ''10'']" "''b.ditto''" "[]" Logger_ctor "''dittobench''" kCsv kDebug]
  by (simp add: SetLogLevel_def Logger_ctor_def)

theorem usage_errors_exit_with_success_witness:
  "\<exists>e. ParseArguments [] Logger_ctor ''dittobench'' [] = Inl e \<and> (\<exists>a. e = Exit_with 0 (help_text [] ''dittobench'' a))"
proof -
  have "ParseArguments [] Logger_ctor ''dittobench'' [] = Inl (PrintHelpAndExit [] ''dittobench'' [])"
    by (simp add: ParseArguments_def)
  from usage_errors_exit_with_success [OF this] this show ?thesis
    by (auto simp: PrintHelpAndExit_def no_logcat_def)
qed

end
