(* ===== verification/Dittobench.thy ===== *)
theory Dittobench
  imports Benchmark_Parser Command_Line Results_Properties
begin

text \<open>
  \<^verbatim>\<open>dittobench.cpp\<close> and \<^verbatim>\<open>dittobench_benchmark.cpp\<close>: the programs. \<open>dittobench\<close> composes the command
  line, the parser, the factory, the tracer, the instructions and the results the way \<^verbatim>\<open>main\<close> does;
  its value is what the results print, its state the process after the program, for a benchmark that
  does not fork.

  The properties compose those of the parts: a benchmark of a plain form that has run reports its
  results.
\<close>

section \<open>The programs\<close>

record ('w, 'g) program = "('w, 'g) outside" +
  pg_dump :: "pb_benchmark \<Rightarrow> string option"
  pg_to_json :: "pb_result \<Rightarrow> string option"
  pg_nth_el :: "nat \<Rightarrow> f64 list \<Rightarrow> f64 list"
  pg_workloads :: "string list"

text \<open>
  \<open>pg_dump\<close> and \<open>pg_to_json\<close> are the JSON printer of protobuf on the two kinds of messages,
  \<open>pg_workloads\<close> the names of the benchmarks in \<open>ou_config\<close>.
\<close>

definition run_section :: "('w, 'g) env \<Rightarrow> 'g instr option \<Rightarrow> ('w, unit) act" where
  "run_section E i =
     (case i of None \<Rightarrow> returnC () | Some i \<Rightarrow> bindC (run_instruction E i) (\<lambda>_. returnC ()))"

definition run_main :: "('w, 'g) env \<Rightarrow> 'g instr \<Rightarrow> ('w, 'g instr) act" where
  "run_main E i =
     bindC (vSetUp E i) (\<lambda>i1.
     bindC (Tracer_Start E ''Benchmark'') (\<lambda>_.
     bindC (Run E i1) (\<lambda>i2.
     bindC (Tracer_End E ''Benchmark'') (\<lambda>_.
     vTearDown i2))))"

definition load_arguments ::
  "('w, 'g, 'z) outside_scheme \<Rightarrow> cmd_arguments \<Rightarrow> ('w, pb_benchmark \<times> 'g parsed) fact" where
  "load_arguments X ca =
     (if ca_embedded_benchmark ca \<noteq> []
      then ParseEmbedded (outside.truncate X) (ca_embedded_benchmark ca) (ca_parameters ca)
      else ParseFile (outside.truncate X) (ca_file_path ca) (ca_parameters ca))"

definition report :: "('w, 'g) program \<Rightarrow> results_output \<Rightarrow> 'g instr \<Rightarrow> string res" where
  "report X results_output i =
     bindR (CollectResults (pg_nth_el X) [] i) (\<lambda>r. Result_Print (pg_to_json X) results_output [] r)"

definition dittobench :: "('w, 'g) program \<Rightarrow> string \<Rightarrow> string list \<Rightarrow> ('w, string) fact" where
  "dittobench X program_name args =
     bindC (liftR (ParseArguments (pg_workloads X) Logger_ctor program_name args)) (\<lambda>(ca, lg).
     bindC (load_arguments X ca) (\<lambda>(b, trees).
     bindC (procC (Tracer_StartSession (ou_env X) (pg_dump X b))) (\<lambda>ident.
     bindC (procC (run_section (ou_env X) (pd_init trees))) (\<lambda>_.
     bindC (procC (run_main (ou_env X) (pd_main trees))) (\<lambda>main.
     bindC (liftR (report X (ca_results_output ca) main)) (\<lambda>out.
     bindC (procC (run_section (ou_env X) (pd_clean_up trees))) (\<lambda>_.
     bindC (procC (Tracer_destroy (ou_env X) ident)) (\<lambda>_.
     returnC out))))))))"

text \<open>One iteration of \<^verbatim>\<open>BM_DittoBench\<close>: the time it reports, in seconds.\<close>

definition iteration_seconds :: "result \<Rightarrow> f64 res" where
  "iteration_seconds r =
     bindR (GetSamples ''duration'' r) (\<lambda>samples.
     case samples of
       [] \<Rightarrow> Inl (Undefined OutOfBounds)
     | duration_ns # _ \<Rightarrow>
         Inr (fdiv (fdiv (fdiv duration_ns (f64_of_int 1000)) (f64_of_int 1000)) (f64_of_int 1000)))"

definition BM_DittoBench :: "('w, 'g) program \<Rightarrow> string \<Rightarrow> string \<Rightarrow> ('w, f64) fact" where
  "BM_DittoBench X project_path name =
     bindC (ParseFile (outside.truncate X) (project_path @ ''/'' @ name) []) (\<lambda>(b, trees).
     bindC (procC (run_section (ou_env X) (pd_init trees))) (\<lambda>_.
     bindC (procC (bindC (vSetUp (ou_env X) (pd_main trees)) (\<lambda>i1.
                   bindC (Run (ou_env X) i1) vTearDown))) (\<lambda>main.
     bindC (liftR (CollectResults (pg_nth_el X) [] main)) (\<lambda>result.
     bindC (liftR (iteration_seconds result)) (\<lambda>seconds.
     bindC (procC (run_section (ou_env X) (pd_clean_up trees))) (\<lambda>_.
     returnC seconds))))))"

section \<open>Trees of plain messages\<close>

text \<open>
  Messages without memory allocation, forks and empty sets, with positive repetitions, in which no
  set of a set iterates.
\<close>

definition iterates :: "pb_instruction \<Rightarrow> bool" where
  "iterates i \<longleftrightarrow> (case pi_kind i of PbInstructionSet is (Some opt) \<Rightarrow> True | _ \<Rightarrow> False)"

fun plain :: "pb_instruction \<Rightarrow> bool"
  and plain_kind :: "pb_kind \<Rightarrow> bool"
  and plain_thread :: "pb_thread \<Rightarrow> bool" where
  "plain (PbInstruction rep period offset k) \<longleftrightarrow> 0 < rep \<and> plain_kind k"
| "plain_kind (PbSimple opt) \<longleftrightarrow> (case opt of PbMemAlloc n policy \<Rightarrow> False | _ \<Rightarrow> True)"
| "plain_kind (PbInstructionSet is opt) \<longleftrightarrow> is \<noteq> [] \<and> (\<forall>i \<in> set is. plain i \<and> \<not> iterates i)"
| "plain_kind (PbMultithreading ths fork) \<longleftrightarrow> \<not> fork \<and> (\<forall>th \<in> set ths. plain_thread th)"
| "plain_thread (PbThread i th) \<longleftrightarrow> plain i"

text \<open>\<open>makes_fresh rep it m\<close>: \<open>m\<close> makes a fresh tree, repeated \<open>rep\<close> times, that iterates only if \<open>it\<close>.\<close>

definition makes_fresh :: "int \<Rightarrow> bool \<Rightarrow> ('w, 'g instr) fact \<Rightarrow> bool" where
  "makes_fresh rep it m \<longleftrightarrow> (\<forall>st c st'. m st = (Inr c, st') \<longrightarrow>
     fresh c \<and> ib_repeat (in_base c) = rep \<and> (iterating c \<longrightarrow> it))"

lemma makes_freshI:
  "(\<And>st c st'. m st = (Inr c, st') \<Longrightarrow> fresh c \<and> ib_repeat (in_base c) = rep \<and> (iterating c \<longrightarrow> it))
     \<Longrightarrow> makes_fresh rep it m"
  unfolding makes_fresh_def by blast

lemma makes_freshD:
  "makes_fresh rep it m \<Longrightarrow> m st = (Inr c, st') \<Longrightarrow> fresh c \<and> ib_repeat (in_base c) = rep \<and> (iterating c \<longrightarrow> it)"
  unfolding makes_fresh_def by blast

lemma CreateSimple_leaf:
  assumes "CreateSimple E ids p opt s = (Inr c, t)" and "\<forall>n policy. opt \<noteq> PbMemAlloc n policy"
  shows "\<exists>b k. c = Leaf b k \<and> ib_repeat b = pr_repeat p \<and> \<not> is_mem k"
proof (cases opt)
  case (PbOpenFile q)
  then show ?thesis
    using assms by (cases "po_file q")
      (auto simp: create_defs bindC_Inr_iff Let_def mapC_result_Inr_iff leaf_of_def is_mem_def Instruction_ctor_def)
next
  case (PbCpuWork w)
  then show ?thesis
    using assms by (auto simp: create_defs bindR_Inr_iff leaf_of_def is_mem_def Instruction_ctor_def
        split: pb_cpu_work.splits if_splits)
qed (use assms in \<open>auto simp: create_defs bindC_Inr_iff Let_def mapC_result_Inr_iff leaf_of_def is_mem_def
        Instruction_ctor_def split: pb_file.splits\<close>)

lemma CreateSimple_fresh:
  assumes "CreateSimple E ids p opt s = (Inr c, t)" and "\<forall>n policy. opt \<noteq> PbMemAlloc n policy"
    and "0 < pr_repeat p"
  shows "fresh c \<and> ib_repeat (in_base c) = pr_repeat p \<and> \<not> iterating c"
  using CreateSimple_leaf [OF assms(1,2)] CreateSimple_new [OF assms(1)] assms(3)
  by (auto simp: iterating_def)

lemma make_set_fresh:
  assumes "make_set E jk ids p cs opt s = (Inr c, t)" and "cs \<noteq> []" and "\<forall>c \<in> set cs. fresh c \<and> \<not> iterating c"
    and "0 < pr_repeat p"
  shows "fresh c \<and> ib_repeat (in_base c) = pr_repeat p \<and> (iterating c \<longrightarrow> opt \<noteq> None)"
  using assms
  by (auto simp: make_set_def bindC_Inr_iff InstructionSet_ctor_def InstructionSet_plain_ctor_def iterating_def
      Instruction_ctor_def new_sampler_def split: option.splits)

lemma mapC_fresh:
  assumes "\<And>x. x \<in> set xs \<Longrightarrow> \<exists>r. makes_fresh r False (f x)"
  shows "mapC f xs st = (Inr cs, st') \<Longrightarrow> length cs = length xs \<and> (\<forall>c \<in> set cs. fresh c \<and> \<not> iterating c)"
  using assms
proof (induction xs arbitrary: st cs)
  case (Cons x xs)
  obtain c st1 cs' where *: "f x st = (Inr c, st1)" "mapC f xs st1 = (Inr cs', st')" "cs = c # cs'"
    using Cons.prems(1) by (auto simp: bindC_Inr_iff)
  obtain r where "makes_fresh r False (f x)" using Cons.prems(2) by auto
  from makes_freshD [OF this *(1)] show ?case using Cons.IH [OF *(2)] Cons.prems(2) *(3) by simp
qed simp

lemma foldC_fresh:
  assumes "\<And>acc x st acc' st'. x \<in> set xs \<Longrightarrow> f acc x st = (Inr acc', st') \<Longrightarrow> \<forall>c \<in> set (fst acc). fresh c \<Longrightarrow>
      \<forall>c \<in> set (fst acc'). fresh c"
  shows "foldC f acc xs st = (Inr acc', st') \<Longrightarrow> \<forall>c \<in> set (fst acc). fresh c \<Longrightarrow> \<forall>c \<in> set (fst acc'). fresh c"
  using assms
proof (induction xs arbitrary: acc st)
  case (Cons x xs)
  obtain acc1 st1 where *: "f acc x st = (Inr acc1, st1)" "foldC f acc1 xs st1 = (Inr acc', st')"
    using Cons.prems(1) by (auto simp: bindC_Inr_iff)
  have "\<forall>c \<in> set (fst acc1). fresh c"
    by (rule Cons.prems(3) [OF _ *(1) Cons.prems(2)]) simp
  then show ?case by (rule Cons.IH [OF *(2)]) (rule Cons.prems(3), simp_all)
qed simp

lemma spawn_step_fresh:
  assumes "\<And>ids. makes_fresh rep it (create ids)"
    and "spawn_step jk create ids th t acc i st = (Inr acc', st')" and "\<forall>c \<in> set (fst acc). fresh c"
  shows "\<forall>c \<in> set (fst acc'). fresh c"
  using assms(2,3) makes_freshD [OF assms(1)] by (auto simp: spawn_step_def bindC_Inr_iff)

lemma create_fresh:
  "plain i \<Longrightarrow> makes_fresh (pi_repeat i) (iterates i) (CreateFromProtoInstruction E jk mp ids i)"
  "plain_kind k \<Longrightarrow> 0 < pr_repeat p \<Longrightarrow>
     makes_fresh (pr_repeat p) (\<exists>is opt. k = PbInstructionSet is (Some opt)) (CreateKind E jk mp ids2 p k)"
  "plain_thread th \<Longrightarrow> CreateThreads E jk mp ids3 n th acc st = (Inr acc', st') \<Longrightarrow>
     \<forall>c \<in> set (fst acc). fresh c \<Longrightarrow> \<forall>c \<in> set (fst acc'). fresh c"
proof (induction i and k and th arbitrary: ids and ids2 p and ids3 n acc st acc' st'
    rule: pb_instruction.induct pb_kind.induct pb_thread.induct)
  case (PbInstruction rep period offset k)
  have "makes_fresh rep (\<exists>is opt. k = PbInstructionSet is (Some opt))
      (CreateKind E jk mp ids (params_of (PbInstruction rep period offset k)) k)"
    using PbInstruction.IH [of "params_of (PbInstruction rep period offset k)" ids] PbInstruction.prems
    by (simp add: params_of_def)
  moreover have "(\<exists>is opt. k = PbInstructionSet is (Some opt)) \<longleftrightarrow> iterates (PbInstruction rep period offset k)"
    by (auto simp: iterates_def split: pb_kind.splits option.splits)
  ultimately show ?case by simp
next
  case (PbSimple opt)
  have "\<forall>n policy. opt \<noteq> PbMemAlloc n policy" using PbSimple.prems by auto
  then have "fresh c \<and> ib_repeat (in_base c) = pr_repeat p \<and> \<not> iterating c"
    if "CreateSimple E ids2 p opt s = (Inr c, t)" for s t and c :: "'b instr"
    using CreateSimple_fresh [OF that _ PbSimple.prems(2)] by blast
  then show ?case by (intro makes_freshI) (auto simp: procC_Inr_iff)
next
  case (PbInstructionSet xs opt)
  show ?case
  proof (rule makes_freshI)
    fix st :: "'a pstate \<times> int" and c :: "'b instr" and st'
    assume "CreateKind E jk mp ids2 p (PbInstructionSet xs opt) st = (Inr c, st')"
    then obtain cs st1 where *: "mapC (CreateFromProtoInstruction E jk mp ids2) xs st = (Inr cs, st1)"
        "procC (make_set E jk ids2 p cs opt) st1 = (Inr c, st')"
      by (auto simp: bindC_Inr_iff)
    have "\<exists>r. makes_fresh r False (CreateFromProtoInstruction E jk mp ids2 i)" if "i \<in> set xs" for i
      using PbInstructionSet that by fastforce
    from mapC_fresh [OF this *(1)] have "length cs = length xs \<and> (\<forall>c \<in> set cs. fresh c \<and> \<not> iterating c)" by blast
    moreover from this have "cs \<noteq> []" using PbInstructionSet.prems by auto
    ultimately show "fresh c \<and> ib_repeat (in_base c) = pr_repeat p \<and>
        (iterating c \<longrightarrow> (\<exists>xs' opt'. PbInstructionSet xs opt = PbInstructionSet xs' (Some opt')))"
      using make_set_fresh [of E jk ids2 p cs opt "fst st1" c "fst st'"] *(2) PbInstructionSet.prems
      by (auto simp: procC_Inr_iff)
  qed
next
  case (PbMultithreading ths fork)
  show ?case
  proof (rule makes_freshI)
    fix st :: "'a pstate \<times> int" and c :: "'b instr" and st'
    assume "CreateKind E jk mp ids2 p (PbMultithreading ths fork) st = (Inr c, st')"
    then obtain cs tps where *: "foldC (\<lambda>acc (t, th). CreateThreads E jk mp ids2 t th acc) ([], []) (enumerate 0 ths) st
          = (Inr (cs, tps), st')" "c = Multithreading_ctor p cs tps"
      using PbMultithreading.prems by (auto simp: bindC_Inr_iff)
    have "\<forall>c \<in> set (fst (cs, tps)). fresh c"
      by (rule foldC_fresh [OF _ *(1)])
        (use PbMultithreading in \<open>auto simp: enumerate_eq_zip dest: set_zip_rightD\<close>)
    then show "fresh c \<and> ib_repeat (in_base c) = pr_repeat p \<and>
        (iterating c \<longrightarrow> (\<exists>is' opt'. PbMultithreading ths fork = PbInstructionSet is' (Some opt')))"
      using *(2) PbMultithreading.prems
      by (auto simp: Multithreading_ctor_def iterating_def Instruction_ctor_def new_sampler_def)
  qed
next
  case (PbThread i th)
  have 1: "\<forall>c \<in> set (fst acc'). fresh c"
    if "foldC (spawn_step jk (\<lambda>ids. CreateFromProtoInstruction E jk mp ids i) ids3 th n) acc xs st = (Inr acc', st')"
      "\<forall>c \<in> set (fst acc). fresh c" for xs
    by (rule foldC_fresh [OF spawn_step_fresh that]) (use PbThread in \<open>auto\<close>)
  show ?case using 1 PbThread.prems by auto
qed

text \<open>The tree that the factory made of a plain message, and its results after a run.\<close>

lemma loaded_fresh:
  assumes "plain (pb_main b)" and "load_benchmark X b st = (Inr trees, st')"
  shows "fresh (pd_main trees)" and "ib_repeat (in_base (pd_main trees)) = pi_repeat (pb_main b)"
proof -
  obtain st1 st2 where "create_in X [snd st] (pb_main b) st1 = (Inr (pd_main trees), st2)"
    using assms(2) by (auto simp: load_benchmark_def create_trees_def bindC_Inr_iff GenerateThreadId_def)
  from makes_freshD [OF create_fresh(1) [OF assms(1)] this [unfolded create_in_def]]
  show "fresh (pd_main trees)" "ib_repeat (in_base (pd_main trees)) = pi_repeat (pb_main b)" by auto
qed

lemma run_main_steps:
  assumes "run_main E i s = (Inr main, t)"
  obtains i1 s1 s2 s3 where "vSetUp E i s = (Inr i1, s1)" "vRun E (depth i1) i1 s2 = (Inr main, s3)"
  using assms by (auto simp: run_main_def Run_def vTearDown_def bindC_Inr_iff)

lemma run_main_collects:
  assumes "fresh i" and "run_main E i s = (Inr main, t)" and "ready main"
  shows "\<exists>r. CollectResults nth_el path main = Inr r \<and> re_repeat r = ib_repeat (in_base i)"
  using run_main_steps [OF assms(2)] collect_run [OF assms(1) _ _ assms(3)] by metis

section \<open>Properties\<close>

text \<open>
  A benchmark whose main section is plain reports its results whenever it has run: whatever tree
  the factory made of the message, collecting the results after the run succeeds without leaving a
  vector, and the report is for the number of repetitions of the message.
\<close>

theorem plain_benchmark_reports:
  assumes "plain (pb_main b)" and "load_benchmark X b st = (Inr trees, st')"
    and "run_main E (pd_main trees) s = (Inr main, t)" and "ready main"
  shows "\<exists>r. CollectResults nth_el path main = Inr r \<and> re_repeat r = pi_repeat (pb_main b)"
  using run_main_collects [OF loaded_fresh(1) [OF assms(1,2)] assms(3,4)] loaded_fresh(2) [OF assms(1,2)] by simp

text \<open>
  \<^verbatim>\<open>main\<close> tells an embedded benchmark from a file by its name: an empty \<^verbatim>\<open>--workload\<close> passes the
  check of the command line and is then taken for a file without a name.
\<close>

theorem empty_workload_is_taken_for_a_file:
  assumes "ou_files X [] = None"
  shows "ParseArguments (pg_workloads X) Logger_ctor program_name [''-w'', []] = Inr (no_arguments, Logger_ctor) \<and>
    dittobench X program_name [''-w'', []] st = (Inl (Logf ''Provided .ditto file was not found: ''), st)"
proof -
  have "ParseArguments (pg_workloads X) Logger_ctor program_name [''-w'', []] = Inr (no_arguments, Logger_ctor)"
    by (simp add: ParseArguments_def scan_def scan_short_def short_options_def take_argument_def apply_option_def
        no_arguments_def Let_def)
  then show ?thesis
    using assms by (simp add: dittobench_def bindC_app load_arguments_def no_arguments_def ParseFile_def outside.truncate_def)
qed

section \<open>Examples\<close>

definition cpu_benchmark :: pb_benchmark where
  "cpu_benchmark = \<lparr>pb_init = None, pb_main = PbInstruction 2 0 0 (PbSimple PbInvalidateCache), pb_clean_up = None,
     pb_global = \<lparr>pg_absolute_path = [], pg_mutex = None\<rparr>\<rparr>"

theorem plain_benchmark_reports_witness:
  "\<exists>trees st main t r. load_benchmark sample_outside cpu_benchmark (sample_start, 0) = (Inr trees, st) \<and>
     run_main sample_env (pd_main trees) sample_start = (Inr main, t) \<and>
     CollectResults nth_element_sorting [] main = Inr r \<and> re_repeat r = 2"
proof -
  have "case load_benchmark sample_outside cpu_benchmark (sample_start, 0) of
      (Inr trees, st) \<Rightarrow> (case run_main sample_env (pd_main trees) sample_start of
        (Inr (Leaf b k), t) \<Rightarrow> ts_samples (ib_sampler b) = [Timespec 0 1000, Timespec 0 1000] | _ \<Rightarrow> False)
    | _ \<Rightarrow> False"
    (is "?ok") by code_simp
  obtain x st where x: "load_benchmark sample_outside cpu_benchmark (sample_start, 0) = (x, st)" by (rule prod.exhaust)
  obtain trees where trees: "x = Inr trees" using \<open>?ok\<close> by (cases x) (simp_all add: x)
  obtain y t where y: "run_main sample_env (pd_main trees) sample_start = (y, t)" by (rule prod.exhaust)
  obtain i where i: "y = Inr i" using \<open>?ok\<close> by (cases y) (simp_all add: x trees y)
  obtain b k where b: "i = Leaf b k" using \<open>?ok\<close> by (cases i) (simp_all add: x trees y i)
  note l = x [unfolded trees] and r = y [unfolded i b]
  have ts: "ts_samples (ib_sampler b) = [Timespec 0 1000, Timespec 0 1000]" using \<open>?ok\<close> by (simp add: l r)
  have "plain (pb_main cpu_benchmark)" by (simp add: cpu_benchmark_def)
  moreover have "ready (Leaf b k)"
    using ts small_readable [of "Timespec 0 1000"] by (simp add: readable_def small_ts_def)
  ultimately obtain q where "CollectResults nth_element_sorting [] (Leaf b k) = Inr q" "re_repeat q = 2"
    using plain_benchmark_reports [OF _ l r] by (auto simp: cpu_benchmark_def)
  with l r show ?thesis by (intro exI conjI)
qed

definition sample_program :: "(sample_world, nat) program" where
  "sample_program = outside.extend sample_outside
     \<lparr>pg_dump = (\<lambda>b. Some []), pg_to_json = (\<lambda>r. Some []), pg_nth_el = nth_element_sorting, pg_workloads = []\<rparr>"

theorem empty_workload_is_taken_for_a_file_witness:
  "fst (dittobench sample_program ''dittobench'' [''-w'', []] (sample_start, 0))
     = Inl (Logf ''Provided .ditto file was not found: '')"
proof -
  have "ou_files sample_program [] = None"
    by (simp add: sample_program_def outside.extend_def sample_outside_def)
  from empty_workload_is_taken_for_a_file [OF this] show ?thesis by simp
qed

end
