(* ===== verification/Trace_Properties.thy ===== *)
theory Trace_Properties
  imports Dittobench
begin

text \<open>
  What a program leaves in the trace marker: the marks of the tracers in \<^verbatim>\<open>src/tracer.cpp\<close>, followed
  through the instructions, the sets and the whole program. The marks of threads interleave, so the
  trees here have none; memory allocations leave their marks open and are excluded, too.
\<close>

section \<open>Work that writes no mark\<close>

lemma do_whileC_preserves:
  assumes "\<And>s. f (snd (body s)) = f s"
  shows "f (snd (do_whileC body s)) = f s"
proof -
  have "f (snd x) = f s" if "while_option (\<lambda>(r, _). r = Inr True) (\<lambda>(_, s). body s) (Inr True, s) = Some x" for x
    by (rule while_option_rule [OF _ that]) (auto simp: assms split: prod.splits)
  then show ?thesis by (auto simp: do_whileC_def split: option.splits sum.splits prod.splits)
qed

lemma silent_do_whileC [silent_intros]: "silent body \<Longrightarrow> silent (do_whileC body)"
  unfolding silent_def by (intro allI do_whileC_preserves) simp

lemma silentD: "silent m \<Longrightarrow> m s = (r, t) \<Longrightarrow> ps_trace t = ps_trace s"
  unfolding silent_def by (metis snd_conv)

lemma silent_random_path [silent_intros]: "silent (random_path E f)"
proof -
  have body: "ps_trace (snd (snd (snd (draw_name E st)))) = ps_trace (snd (snd st))" for st
    by (auto simp: draw_name_def Let_def split: prod.splits sum.splits
        dest!: silentD [OF silent_shared(3)] silentD [OF silent_utils(3)])
  show ?thesis
    unfolding silent_def
  proof
    fix s
    have "ps_trace (snd (snd (snd (do_whileC (draw_name E) (of_path_name f, of_gen f, s))))) = ps_trace s"
      using do_whileC_preserves [where f = "\<lambda>st. ps_trace (snd (snd st))", of "draw_name E" "(of_path_name f, of_gen f, s)"] body
      by simp
    then show "ps_trace (snd (random_path E f s)) = ps_trace s"
      by (auto simp: random_path_def split: prod.splits sum.splits)
  qed
qed

lemma silent_collect_entries [silent_intros]: "silent (collect_entries E dir handle)"
proof -
  have body: "ps_trace (snd (snd (read_entry E dir handle st))) = ps_trace (snd st)" for st
    by (auto simp: read_entry_def split: prod.splits sum.splits option.splits
        dest!: silentD [OF silent_basic(6)])
  show ?thesis
    unfolding silent_def
  proof
    fix s
    have "ps_trace (snd (snd (do_whileC (read_entry E dir handle) ([], s)))) = ps_trace s"
      using do_whileC_preserves [where f = "\<lambda>st. ps_trace (snd st)", of "read_entry E dir handle" "([], s)"] body by simp
    then show "ps_trace (snd (collect_entries E dir handle s)) = ps_trace s"
      by (auto simp: collect_entries_def split: prod.splits sum.splits)
  qed
qed

lemma silent_on_mutex [silent_intros]: "silent (on_mutex call mutex)"
  by (auto simp: silent_def on_mutex_def split: option.splits variant.splits prod.splits)

lemma silent_leafC [silent_intros]: "silent (m (b, f)) \<Longrightarrow> silent (leafC C m b f)"
  unfolding leafC_def by (auto intro!: silent_intros)

lemma silent_inherit [silent_intros]: "silent (m (fst ob)) \<Longrightarrow> silent (inherit m ob)"
  by (cases ob) (auto simp: inherit_def intro!: silent_intros)

lemma silent_run_work [silent_intros]: "silent m \<Longrightarrow> silent (run_work m b)"
  unfolding run_work_def by (auto intro!: silent_intros)

lemma silent_leaf_RunSingle [silent_intros]: "silent (leaf_RunSingle E (b, k))"
  by (cases k)
    (auto simp: leaf_RunSingle_def OpenFile_RunSingle_def CloseFile_RunSingle_def DeleteFile_RunSingle_def
      ResizeFile_RunSingle_def WriteFile_RunSingle_def write_unit_def ReadFile_RunSingle_def read_unit_def
      ReadDirectory_RunSingle_def InvalidateCache_RunSingle_def CpuWorkCycles_RunSingle_def threadWaitAbsoluteTime_def
      wait_step_def cpu_time_def MemoryAllocation_RunSingle_def allocate_memory_def Lock_RunSingle_def
      Unlock_RunSingle_def Let_def
      intro!: silent_intros split: option.splits)

lemma silent_vSetUp [silent_intros]: "silent (vSetUp E i)"
proof (cases i)
  case (Leaf b k)
  have "silent (leaf_SetUp E (b, k))"
    by (cases k) (auto simp: leaf_SetUp_def ReadWriteFile_SetUp_def ResizeFileRandom_SetUp_def Let_def
        intro!: silent_intros)
  then show ?thesis using Leaf by (auto simp: mapC_result_def intro!: silent_intros)
qed (auto simp: mapC_result_def InstructionSet_SetUp_def Let_def intro!: silent_intros)

section \<open>The marks of an iteration\<close>

text \<open>\<open>marks E ms m\<close>: every success of \<open>m\<close> writes \<open>ms\<close>, if the marker is there.\<close>

definition marks :: "('w, 'g) env \<Rightarrow> string list \<Rightarrow> ('w, 'a) act \<Rightarrow> bool" where
  "marks E ms m \<longleftrightarrow> (\<forall>s x t. m s = (Inr x, t) \<longrightarrow> ps_trace t = ps_trace s @ (if trace_good E then ms else []))"

lemma marks_before: "silent m \<Longrightarrow> (\<And>x. marks E ms (k x)) \<Longrightarrow> marks E ms (bindC m k)"
  unfolding marks_def bindC_Inr_iff by (metis silentD)

lemma marks_after: "marks E ms m \<Longrightarrow> (\<And>x. silent (k x)) \<Longrightarrow> marks E ms (bindC m k)"
  unfolding marks_def bindC_Inr_iff by (metis silentD)

lemma marks_fail: "marks E ms (failC e)"
  by (simp add: marks_def)

lemma marks_base:
  "marks E [begin_mark (env_pid E) (ib_name b)] (Instruction_SetUpSingle E b)"
  "marks E [end_mark (env_pid E) (ib_name b)] (Instruction_TearDownSingle E l b)"
  unfolding marks_def by (auto dest: SetUpSingle_trace TearDownSingle_trace)

lemma marks_inherit: "marks E ms (m b) \<Longrightarrow> marks E ms (inherit m (b, k))"
  unfolding inherit_def by (auto intro!: marks_after silent_intros)

lemma marks_leafC: "marks E ms (m (b, f)) \<Longrightarrow> marks E ms (leafC C m b f)"
  unfolding leafC_def by (auto intro!: marks_after silent_intros)

text \<open>The methods that call the base class last, after work that may fail, and those that call it first.\<close>

lemma marks_set_up_last: "marks E [begin_mark (env_pid E) (ib_name b)] (bindC (Instruction_SetUpSingle E b) (\<lambda>b'. returnC (b', f)))"
  by (rule marks_after [OF marks_base(1) silent_basic(1)])

lemmas before_set_up = marks_before marks_set_up_last marks_fail silent_intros

lemma marks_ReadWriteFile:
  "marks E [begin_mark (env_pid E) (ib_name b)] (ReadWriteFile_SetUpSingle E (b, f))"
  by (auto simp: ReadWriteFile_SetUpSingle_def Let_def check_block_def allocate_buffer_def
      intro!: before_set_up)

lemma leaf_SetUpSingle_marks: "marks E [begin_mark (env_pid E) (ib_name b)] (leaf_SetUpSingle E (b, k))"
proof (cases k)
  case (OpenFile f)
  then show ?thesis
    by (auto simp: leaf_SetUpSingle_def OpenFile_SetUpSingle_def intro!: marks_leafC before_set_up)
next
  case (DeleteFile f)
  then show ?thesis
    by (auto simp: leaf_SetUpSingle_def DeleteFile_SetUpSingle_def intro!: marks_leafC before_set_up)
next
  case (ResizeFileRandom f)
  then show ?thesis
    by (auto simp: leaf_SetUpSingle_def ResizeFileRandom_SetUpSingle_def Let_def
        intro!: marks_leafC before_set_up split: prod.splits)
next
  case (ReadFile fadvise f)
  then show ?thesis
    by (auto simp: leaf_SetUpSingle_def ReadFile_SetUpSingle_def
        intro!: marks_leafC marks_before marks_ReadWriteFile silent_intros)
qed (auto simp: leaf_SetUpSingle_def intro!: marks_leafC marks_inherit marks_base marks_ReadWriteFile)

lemma marks_ReadWriteFile_TearDown:
  "marks E [end_mark (env_pid E) (ib_name b)] (ReadWriteFile_TearDownSingle E l (b, f))"
  unfolding ReadWriteFile_TearDownSingle_def prod.case
  by (rule marks_after [OF marks_base(2)]) (intro silent_intros)

lemma leaf_TearDownSingle_marks:
  "\<not> is_mem k \<Longrightarrow> marks E [end_mark (env_pid E) (ib_name b)] (leaf_TearDownSingle E l (b, k))"
  by (cases k) (auto simp: leaf_TearDownSingle_def is_mem_def
      intro!: marks_leafC marks_inherit marks_base marks_ReadWriteFile_TearDown)

section \<open>The marks of a tree\<close>

text \<open>Trees in one thread that free no memory behind the base class and iterate over no list.\<close>

fun traced :: "'g instr \<Rightarrow> bool" where
  "traced (Leaf b k) \<longleftrightarrow> \<not> is_mem k"
| "traced (InstructionSet b f cs) \<longleftrightarrow> (is_list_key f = -1 \<or> is_item_key f = -1) \<and> (\<forall>c \<in> set cs. traced c)"
| "traced (Multithreading b m cs) \<longleftrightarrow> False"

text \<open>What \<^verbatim>\<open>Run\<close> is to write: one span per repetition, around the spans of the children.\<close>

definition mark_span :: "nat \<Rightarrow> string \<Rightarrow> string list \<Rightarrow> string list" where
  "mark_span pid n ms = begin_mark pid n # ms @ [end_mark pid n]"

fun trace_of :: "nat \<Rightarrow> 'g instr \<Rightarrow> string list" where
  "trace_of pid (Leaf b k) = concat (replicate (nat (ib_repeat b)) (mark_span pid (ib_name b) []))"
| "trace_of pid (InstructionSet b f cs) =
     concat (replicate (nat (ib_repeat b)) (mark_span pid (ib_name b) (concat (map (trace_of pid) cs))))"
| "trace_of pid (Multithreading b m cs) = []"

fun inner_trace :: "nat \<Rightarrow> 'g instr \<Rightarrow> string list" where
  "inner_trace pid (InstructionSet b f cs) = concat (map (trace_of pid) cs)"
| "inner_trace pid i = []"

lemma trace_of_spans:
  "traced i \<Longrightarrow> trace_of pid i = concat (replicate (repeats i) (mark_span pid (ib_name (in_base i)) (inner_trace pid i)))"
  by (cases i) (simp_all add: repeats_def)

lemma nested_replicate: "nested pid ms \<Longrightarrow> nested pid (concat (replicate n ms))"
  by (induction n) (auto intro: nested.intros)

lemma nested_concat: "(\<And>ms. ms \<in> set mss \<Longrightarrow> nested pid ms) \<Longrightarrow> nested pid (concat mss)"
  by (induction mss) (auto intro: nested.intros)

lemma nested_in_span: "nested pid ms \<Longrightarrow> nested pid (mark_span pid n ms)"
  by (simp add: mark_span_def nested_span)

lemma nested_trace_of: "nested pid (trace_of pid i)"
proof (induction pid i rule: trace_of.induct)
  case (2 pid b f cs)
  then have "nested pid (concat (map (trace_of pid) cs))" by (intro nested_concat) auto
  then show ?case by (simp add: nested_replicate nested_in_span)
qed (auto intro!: nested_replicate nested_in_span nested_Nil)

text \<open>\<open>akin i i'\<close>: the object may have changed, but not what its \<^verbatim>\<open>Run\<close> is to write.\<close>

definition akin :: "'g instr \<Rightarrow> 'g instr \<Rightarrow> bool" where
  "akin i i' \<longleftrightarrow> traced i \<and> traced i' \<and> same_params (in_base i) (in_base i') \<and>
     (\<forall>pid. inner_trace pid i' = inner_trace pid i)"

lemma akin_refl: "traced i \<Longrightarrow> akin i i"
  by (simp add: akin_def)

lemma akin_trans: "akin i j \<Longrightarrow> akin j k \<Longrightarrow> akin i k"
  by (auto simp: akin_def intro: same_params_trans)

lemma akin_traced: "akin i i' \<Longrightarrow> traced i'" "akin i i' \<Longrightarrow> traced i"
  by (simp_all add: akin_def)

lemma akin_trace_of: "akin i i' \<Longrightarrow> trace_of pid i' = trace_of pid i"
  by (simp add: akin_def trace_of_spans repeats_def same_params_def)

lemma akin_set:
  assumes "list_all2 akin cs cs'" and "same_params b b'" and "is_list_key f = -1 \<or> is_item_key f = -1"
    and "is_list_key f' = is_list_key f" and "is_item_key f' = is_item_key f"
  shows "akin (InstructionSet b f cs) (InstructionSet b' f' cs')"
proof -
  have "map (trace_of pid) cs' = map (trace_of pid) cs" for pid
    using assms(1) by (induction rule: list_all2_induct) (auto simp: akin_trace_of)
  moreover have "(\<forall>c \<in> set cs. traced c) \<and> (\<forall>c \<in> set cs'. traced c)"
    using assms(1) by (induction rule: list_all2_induct) (auto simp: akin_def)
  ultimately show ?thesis using assms by (auto simp: akin_def)
qed

lemma akin_kids: "\<forall>c \<in> set cs. traced c \<Longrightarrow> list_all2 akin cs cs"
  by (auto simp: akin_refl list_all2_same)

text \<open>\<open>writes E ms i m\<close>: every success of \<open>m\<close> writes \<open>ms\<close> and gives an object akin to \<open>i\<close>.\<close>

definition writes :: "('w, 'g) env \<Rightarrow> string list \<Rightarrow> 'g instr \<Rightarrow> ('w, 'g instr) act \<Rightarrow> bool" where
  "writes E ms i m \<longleftrightarrow> marks E ms m \<and> (\<forall>s i' t. m s = (Inr i', t) \<longrightarrow> akin i i')"

lemma writesI:
  "marks E ms m \<Longrightarrow> (\<And>s i' t. m s = (Inr i', t) \<Longrightarrow> akin i i') \<Longrightarrow> writes E ms i m"
  by (simp add: writes_def)

lemma writesD:
  assumes "writes E ms i m" and "m s = (Inr i', t)"
  shows "ps_trace t = ps_trace s @ (if trace_good E then ms else [])" and "akin i i'"
  using assms unfolding writes_def marks_def by blast+

lemma writes_bindC:
  assumes "writes E ms i m" and "\<And>j. akin i j \<Longrightarrow> writes E ms' j (k j)"
  shows "writes E (ms @ ms') i (bindC m k)"
proof -
  have "ps_trace t = ps_trace s @ (if trace_good E then ms @ ms' else []) \<and> akin i j"
    if r: "bindC m k s = (Inr j, t)" for s j t
  proof -
    obtain h u where *: "m s = (Inr h, u)" "k h u = (Inr j, t)" using r by (auto simp: bindC_Inr_iff)
    note first = writesD [OF assms(1) *(1)]
    note second = writesD [OF assms(2) [OF first(2)] *(2)]
    show ?thesis using first second akin_trans [OF first(2) second(2)] by simp
  qed
  then show ?thesis by (simp add: writes_def marks_def)
qed

lemma marks_mapC_result: "marks E ms m \<Longrightarrow> marks E ms (mapC_result f m)"
  unfolding mapC_result_def by (rule marks_after) (auto intro: silent_intros)

lemma silent_marks: "silent m \<Longrightarrow> marks E [] m"
  unfolding marks_def by (metis append_Nil2 silentD)

section \<open>The methods\<close>

lemma akin_leaf: "same_params b b' \<Longrightarrow> is_mem k' = is_mem k \<Longrightarrow> \<not> is_mem k \<Longrightarrow> akin (Leaf b k) (Leaf b' k')"
  by (simp add: akin_def)

lemma leaf_names:
  assumes "\<not> is_mem k"
  shows "leaf_SetUp E (b, k) s = (Inr (b', k'), t) \<Longrightarrow> akin (Leaf b k) (Leaf b' k')"
    and "leaf_SetUpSingle E (b, k) s = (Inr (b', k'), t) \<Longrightarrow> akin (Leaf b k) (Leaf b' k')"
    and "leaf_RunSingle E (b, k) s = (Inr (b', k'), t) \<Longrightarrow> akin (Leaf b k) (Leaf b' k')"
proof -
  show "akin (Leaf b k) (Leaf b' k')" if "leaf_SetUp E (b, k) s = (Inr (b', k'), t)"
    using leaf_SetUp_effect [OF that] assms by (simp add: akin_leaf)
  show "akin (Leaf b k) (Leaf b' k')" if r: "leaf_SetUpSingle E (b, k) s = (Inr (b', k'), t)"
    using set_up_base_effect(1) [OF leaf_set_up(1) [OF r]] leaf_set_up(3) [OF r] assms by (simp add: akin_leaf)
  show "akin (Leaf b k) (Leaf b' k')" if "leaf_RunSingle E (b, k) s = (Inr (b', k'), t)"
    using leaf_run(1,3) [OF that] assms by (simp add: akin_leaf)
qed

lemma leaf_TearDownSingle_name:
  assumes "leaf_TearDownSingle E l (b, k) s = (Inr (b', k'), t)" and "\<not> is_mem k"
  shows "akin (Leaf b k) (Leaf b' k')"
proof -
  have "tear_down_base E b b' \<and> \<not> is_mem k'"
    using assms by (cases k) (force simp: leaf_TearDownSingle_def leafC_Inr_iff is_mem_def
        ReadWriteFile_TearDownSingle_def bindC_Inr_iff dest: inherit_tear_down_base)+
  then show ?thesis using assms(2) tear_down_base_effect(1) [of E b b'] by (simp add: akin_def)
qed

lemma vSetUp_writes: "traced i \<Longrightarrow> writes E [] i (vSetUp E i)"
proof (rule writesI)
  fix s i' t assume "traced i" and "vSetUp E i s = (Inr i', t)"
  then show "akin i i'"
    by (cases i) (auto simp: mapC_result_Inr_iff to_leaf_def InstructionSet_SetUp_def Let_def bindC_Inr_iff
        intro!: akin_set akin_kids leaf_names(1) dest: Instruction_SetUp_effect)
qed (auto intro: silent_marks silent_vSetUp)

lemma vSetUpSingle_writes:
  assumes "traced i"
  shows "writes E [begin_mark (env_pid E) (ib_name (in_base i))] i (vSetUpSingle E i)"
proof (rule writesI)
  fix s i' t assume "vSetUpSingle E i s = (Inr i', t)"
  then show "akin i i'"
    using assms by (cases i) (auto simp: mapC_result_Inr_iff to_leaf_def InstructionSet_SetUpSingle_def Let_def
        bindC_Inr_iff intro!: akin_set akin_kids leaf_names(2) set_up_base_effect(1))
next
  show "marks E [begin_mark (env_pid E) (ib_name (in_base i))] (vSetUpSingle E i)"
    using assms by (cases i) (auto simp: InstructionSet_SetUpSingle_def Let_def
        intro!: marks_mapC_result leaf_SetUpSingle_marks marks_set_up_last)
qed

lemma vTearDownSingle_writes:
  assumes "traced i"
  shows "writes E [end_mark (env_pid E) (ib_name (in_base i))] i (vTearDownSingle E n l i)"
proof (cases n)
  case (Suc n')
  show ?thesis
  proof (rule writesI)
    fix s i' t assume "vTearDownSingle E n l i s = (Inr i', t)"
    then show "akin i i'"
      using assms Suc by (cases i) (auto simp: mapC_result_Inr_iff to_leaf_def
          intro!: akin_set akin_kids leaf_TearDownSingle_name tear_down_base_effect(1))
  next
    show "marks E [end_mark (env_pid E) (ib_name (in_base i))] (vTearDownSingle E n l i)"
      using assms Suc by (cases i) (auto intro!: marks_mapC_result leaf_TearDownSingle_marks marks_base(2))
  qed
qed (simp add: writes_def marks_fail)

text \<open>A list of children, run one after the other.\<close>

lemma mapC_writes:
  assumes "\<And>c. c \<in> set cs \<Longrightarrow> writes E (trace_of pid c) c (f c)"
  shows "mapC f cs s = (Inr cs', t) \<Longrightarrow>
    ps_trace t = ps_trace s @ (if trace_good E then concat (map (trace_of pid) cs) else []) \<and> list_all2 akin cs cs'"
  using assms
proof (induction cs arbitrary: s cs')
  case (Cons c cs)
  obtain c' s1 cs'' where *: "f c s = (Inr c', s1)" "mapC f cs s1 = (Inr cs'', t)" "cs' = c' # cs''"
    using Cons.prems(1) by (auto simp: bindC_Inr_iff)
  have "writes E (trace_of pid c) c (f c)" by (rule Cons.prems(2)) simp
  from writesD [OF this *(1)] Cons.IH [OF *(2)] Cons.prems(2) show ?case using *(3) by simp
qed simp

lemma child_writes:
  assumes "\<And>c. traced c \<Longrightarrow> writes E (trace_of pid c) c (run c)" and "traced c"
  shows "writes E (trace_of pid c) c (bindC (vSetUp E c) (\<lambda>c1. bindC (run c1) vTearDown))"
proof -
  have "writes E ([] @ (trace_of pid c @ [])) c (bindC (vSetUp E c) (\<lambda>c1. bindC (run c1) vTearDown))"
  proof (intro writes_bindC vSetUp_writes assms(2))
    fix j assume "akin c j"
    then show "writes E (trace_of pid c) j (run j)"
      using assms(1) [of j] akin_traced(1) akin_trace_of by metis
  qed (auto simp: vTearDown_def akin_def intro!: writesI silent_marks silent_intros)
  then show ?thesis by simp
qed

lemma RunInstructions_writes:
  assumes "\<And>c. traced c \<Longrightarrow> writes E (trace_of pid c) c (run c)" and "\<forall>c \<in> set cs. traced c"
    and "RunInstructions E run cs s = (Inr cs', t)"
  shows "ps_trace t = ps_trace s @ (if trace_good E then concat (map (trace_of pid) cs) else []) \<and>
    list_all2 akin cs cs'"
  using assms child_writes [OF assms(1)] by (intro mapC_writes) (auto simp: RunInstructions_def)

lemma run_times_writes:
  assumes "\<And>l j. akin i j \<Longrightarrow> writes E ms j (single l j)" and "akin i j"
  shows "writes E (concat (replicate n ms)) j (run_times single n j)"
  using assms(2)
proof (induction n arbitrary: j)
  case 0
  then show ?case by (auto simp: akin_def intro!: writesI silent_marks silent_intros)
next
  case (Suc n)
  have "writes E (ms @ concat (replicate n ms)) j (bindC (single (n = 0) j) (run_times single n))"
    using Suc akin_trans by (intro writes_bindC assms(1)) blast+
  then show ?case by simp
qed

lemma vRunSingle_writes:
  assumes "traced i" and run: "\<And>c. traced c \<Longrightarrow> writes E (trace_of (env_pid E) c) c (vRun E n c)"
  shows "writes E (inner_trace (env_pid E) i) i (vRunSingle E (Suc n) i)"
proof (cases i)
  case (Leaf b k)
  have "akin i i'" if "vRunSingle E (Suc n) i s = (Inr i', t)" for s i' t
    using that assms(1) Leaf by (auto simp: mapC_result_Inr_iff to_leaf_def intro!: leaf_names(3))
  moreover have "silent (vRunSingle E (Suc n) i)"
    using Leaf by (auto simp: mapC_result_def intro!: silent_intros)
  ultimately show ?thesis using Leaf by (auto intro!: writesI silent_marks)
next
  case (InstructionSet b f cs)
  have "ps_trace t = ps_trace s @ (if trace_good E then inner_trace (env_pid E) i else []) \<and> akin i i'"
    if r: "vRunSingle E (Suc n) i s = (Inr i', t)" for s i' t
  proof -
    obtain cs' where *: "RunInstructions E (vRun E n) cs s = (Inr cs', t)" "i' = InstructionSet b f cs'"
      using r assms(1) InstructionSet
      by (auto simp: mapC_result_Inr_iff InstructionSet_RunSingle_def bindC_Inr_iff vRun_def)
    have "\<forall>c \<in> set cs. traced c" using assms(1) InstructionSet by simp
    from RunInstructions_writes [OF run this *(1)] show ?thesis
      using assms(1) InstructionSet *(2) by (auto intro!: akin_set)
  qed
  then show ?thesis by (simp add: writes_def marks_def)
qed (use assms in simp)

text \<open>An iteration writes a span around what \<^verbatim>\<open>RunSingle\<close> writes, and \<^verbatim>\<open>Run\<close> one for each repetition.\<close>

lemma vRun_spans:
  assumes "traced i" and inner: "\<And>k. akin i k \<Longrightarrow> writes E (inner_trace (env_pid E) i) k (vRunSingle E n k)"
  shows "writes E (trace_of (env_pid E) i) i (vRun E n i)"
proof -
  let ?inner = "inner_trace (env_pid E) i" and ?name = "ib_name (in_base i)"
  have same: "ib_name (in_base k) = ?name" "traced k" if "akin i k" for k
    using that by (auto simp: akin_def same_params_def)
  have "writes E (mark_span (env_pid E) ?name ?inner) j
      (Instruction_single (vSetUpSingle E) (vRunSingle E n) (vTearDownSingle E n) l j)"
    if j: "akin i j" for l j
  proof -
    have "writes E ([begin_mark (env_pid E) ?name] @ (?inner @ [end_mark (env_pid E) ?name])) j
        (bindC (vSetUpSingle E j) (\<lambda>j1. bindC (vRunSingle E n j1) (vTearDownSingle E n l)))"
    proof (intro writes_bindC)
      show "writes E [begin_mark (env_pid E) ?name] j (vSetUpSingle E j)"
        using vSetUpSingle_writes [of j E] same [OF j] by simp
    next
      fix k assume "akin j k"
      from inner [OF akin_trans [OF j this]] show "writes E ?inner k (vRunSingle E n k)" .
    next
      fix k m assume k: "akin j k" and m: "akin k m"
      have "akin i m" using j k m akin_trans by blast
      from same [OF this] show "writes E [end_mark (env_pid E) ?name] m (vTearDownSingle E n l m)"
        using vTearDownSingle_writes [of m E n l] by simp
    qed
    then show ?thesis by (simp add: Instruction_single_def mark_span_def)
  qed
  from run_times_writes [OF this akin_refl [OF assms(1)]] show ?thesis
    by (simp add: vRun_def Instruction_Run_def trace_of_spans [OF assms(1)] repeats_def)
qed

lemma vRun_writes: "traced i \<Longrightarrow> writes E (trace_of (env_pid E) i) i (vRun E n i)"
proof (induction n arbitrary: i)
  case 0
  then show ?case by (intro vRun_spans) (auto simp: writes_def marks_fail)
next
  case (Suc n)
  have "writes E (inner_trace (env_pid E) i) k (vRunSingle E (Suc n) k)" if "akin i k" for k
    using vRunSingle_writes [OF akin_traced(1) [OF that] Suc.IH] that by (simp add: akin_def)
  then show ?case by (rule vRun_spans [OF Suc.prems])
qed

section \<open>Messages and sessions\<close>

text \<open>The messages of such trees: without memory allocations, lists to iterate over, and threads.\<close>

fun straight :: "pb_instruction \<Rightarrow> bool"
  and straight_kind :: "pb_kind \<Rightarrow> bool" where
  "straight (PbInstruction rep period offset k) \<longleftrightarrow> straight_kind k"
| "straight_kind (PbSimple opt) \<longleftrightarrow> (case opt of PbMemAlloc n policy \<Rightarrow> False | _ \<Rightarrow> True)"
| "straight_kind (PbInstructionSet is opt) \<longleftrightarrow> opt = None \<and> (\<forall>i \<in> set is. straight i)"
| "straight_kind (PbMultithreading ths fork) \<longleftrightarrow> False"

definition straight_benchmark :: "pb_benchmark \<Rightarrow> bool" where
  "straight_benchmark b \<longleftrightarrow>
     pred_option straight (pb_init b) \<and> straight (pb_main b) \<and> pred_option straight (pb_clean_up b)"

lemma mapC_all:
  "mapC f xs st = (Inr ys, st') \<Longrightarrow> (\<And>x st y st'. x \<in> set xs \<Longrightarrow> f x st = (Inr y, st') \<Longrightarrow> P y) \<Longrightarrow> \<forall>y \<in> set ys. P y"
proof (induction xs arbitrary: st ys)
  case (Cons x xs)
  obtain y st1 ys' where *: "f x st = (Inr y, st1)" "mapC f xs st1 = (Inr ys', st')" "ys = y # ys'"
    using Cons.prems(1) by (auto simp: bindC_Inr_iff)
  have "P y" by (rule Cons.prems(2) [OF _ *(1)]) simp
  moreover have "\<forall>y \<in> set ys'. P y" by (rule Cons.IH [OF *(2)]) (rule Cons.prems(2), auto)
  ultimately show ?case using *(3) by simp
qed simp

lemma created_traced:
  fixes c :: "'g instr"
  shows "straight i \<Longrightarrow> CreateFromProtoInstruction E jk mp ids i st = (Inr c, st') \<Longrightarrow> traced c"
    and "straight_kind k \<Longrightarrow> CreateKind E jk mp ids2 p k st2 = (Inr c2, st2') \<Longrightarrow> traced (c2 :: 'g instr)"
    and "th = (th :: pb_thread)"
proof (induction i and k and th arbitrary: ids st c st' and ids2 p st2 c2 st2' and
    rule: pb_instruction.induct pb_kind.induct pb_thread.induct)
  case (PbSimple opt)
  then have "\<forall>n policy. opt \<noteq> PbMemAlloc n policy" by auto
  then show ?case using PbSimple CreateSimple_leaf by (fastforce simp: procC_Inr_iff)
next
  case (PbInstructionSet xs opt)
  then obtain cs st1 where *: "mapC (CreateFromProtoInstruction E jk mp ids2) xs st2 = (Inr cs, st1)"
      "procC (make_set E jk ids2 p cs opt) st1 = (Inr c2, st2')"
    by (auto simp: bindC_Inr_iff)
  have "\<forall>c \<in> set cs. traced c" using PbInstructionSet by (intro mapC_all [OF *(1)]) auto
  then show ?case
    using *(2) PbInstructionSet.prems(1) by (auto simp: make_set_def InstructionSet_plain_ctor_def procC_Inr_iff)
qed auto

lemma created_optional:
  "create_optional X ids i st = (Inr x, st') \<Longrightarrow> pred_option straight i \<Longrightarrow> pred_option traced x"
  by (cases i) (auto simp: create_optional_def create_in_def bindC_Inr_iff dest: created_traced(1))

lemma loaded_traced:
  assumes "load_benchmark X b st = (Inr trees, st')" and "straight_benchmark b"
  shows "pred_option traced (pd_init trees)" and "traced (pd_main trees)" and "pred_option traced (pd_clean_up trees)"
proof -
  obtain ids st1 st2 where "create_trees X ids b st1 = (Inr trees, st2)"
    using assms(1) by (auto simp: load_benchmark_def bindC_Inr_iff)
  then show "pred_option traced (pd_init trees)" "traced (pd_main trees)" "pred_option traced (pd_clean_up trees)"
    using assms(2)
    by (auto simp: create_trees_def create_in_def straight_benchmark_def bindC_Inr_iff
        dest: created_traced(1) created_optional)
qed

lemma load_arguments_load:
  "load_arguments X ca st = (Inr (b, trees), u) \<Longrightarrow> load_benchmark (outside.truncate X) b st = (Inr trees, u)"
  by (auto simp: load_arguments_def ParseEmbedded_def ParseFile_def Parse_def bindC_Inr_iff
      split: if_splits option.splits)

definition section_trace :: "nat \<Rightarrow> 'g instr option \<Rightarrow> string list" where
  "section_trace pid i = (case i of None \<Rightarrow> [] | Some i \<Rightarrow> trace_of pid i)"

lemma run_instruction_writes: "traced i \<Longrightarrow> writes E (trace_of (env_pid E) i) i (run_instruction E i)"
  unfolding run_instruction_def by (rule child_writes) (simp_all add: Run_def vRun_writes)

lemma run_section_marks:
  assumes "pred_option traced i" and "run_section E i s = (Inr x, t)"
  shows "ps_trace t = ps_trace s @ (if trace_good E then section_trace (env_pid E) i else [])"
  using assms run_instruction_writes writesD(1)
  by (cases i) (fastforce simp: run_section_def section_trace_def bindC_Inr_iff)+

lemma run_main_marks:
  assumes "traced i" and "run_main E i s = (Inr i', t)"
  shows "ps_trace t = ps_trace s @ (if trace_good E then mark_span (env_pid E) ''Benchmark'' (trace_of (env_pid E) i) else [])"
proof -
  obtain i1 i2 s1 s2 s3 where *: "vSetUp E i s = (Inr i1, s1)" "Tracer_Start E ''Benchmark'' s1 = (Inr (), s2)"
      "vRun E (depth i1) i1 s2 = (Inr i2, s3)" "Tracer_End E ''Benchmark'' s3 = (Inr (), t)"
    using assms(2) by (auto simp: run_main_def Run_def vTearDown_def bindC_Inr_iff)
  note first = writesD [OF vSetUp_writes [OF assms(1)] *(1)]
  note run = writesD(1) [OF vRun_writes [OF akin_traced(1) [OF first(2)]] *(3)]
  show ?thesis
    using *(2,4) first(1) run akin_trace_of [OF first(2)]
    by (auto simp: Tracer_Start_def Tracer_End_def write_mark_app mark_span_def begin_mark_def end_mark_def)
qed

text \<open>The marks of a session: that of its start also carries the benchmark.\<close>

definition session_begin :: "nat \<Rightarrow> string \<Rightarrow> string \<Rightarrow> string" where
  "session_begin pid json ident = trace_format [''B'', show_nat pid, ''Session'', json, ident] @ [nul]"

definition session_end :: "nat \<Rightarrow> string \<Rightarrow> string" where
  "session_end pid ident = trace_format [''E'', show_nat pid, ''Session'', ident] @ [nul]"

lemma silent_random_string [silent_intros]: "silent (random_string E n)"
  by (induction n) (auto intro!: silent_intros)

lemma write_mark_Inr:
  "write_mark E m s = (Inr x, t) \<Longrightarrow> ps_trace t = ps_trace s @ (if trace_good E then [m @ [nul]] else [])"
  by (auto simp: write_mark_app)

lemma StartSession_mark:
  assumes "Tracer_StartSession E dump s = (Inr ident, t)" and "trace_good E"
  shows "\<exists>json. dump = Some json \<and> ps_trace t = ps_trace s @ [session_begin (env_pid E) json ident]"
proof -
  obtain json u where "dump = Some json" "random_string E 16 s = (Inr ident, u)"
      "write_mark E (trace_format [''B'', show_nat (env_pid E), ''Session'', json, ident]) u = (Inr (), t)"
    using assms by (auto simp: Tracer_StartSession_def bindC_Inr_iff split: option.splits)
  then show ?thesis
    using assms(2) silentD [OF silent_random_string] by (fastforce simp: write_mark_app session_begin_def)
qed


section \<open>Example\<close>

definition traced_program :: "(sample_world, nat) program" where
  "traced_program = outside.extend (sample_outside\<lparr>ou_text_parse := (\<lambda>t. Some cpu_benchmark)\<rparr>)
     \<lparr>pg_dump = (\<lambda>b. Some ''{}''), pg_to_json = (\<lambda>r. Some []), pg_nth_el = nth_element_sorting, pg_workloads = []\<rparr>"

definition null_arguments :: cmd_arguments where
  "null_arguments = \<lparr>ca_results_output = kNull, ca_file_path = ''/b.ditto'', ca_embedded_benchmark = [], ca_parameters = []\<rparr>"

lemma traced_arguments:
  "ParseArguments [] Logger_ctor ''dittobench'' [''--format=null'', ''/b.ditto''] = Inr (null_arguments, Logger_ctor)"
  by code_simp

text \<open>What of the program can be evaluated: the loading and the run.\<close>

abbreviation traced_outside :: "(sample_world, nat) outside" where
  "traced_outside \<equiv> sample_outside\<lparr>ou_text_parse := (\<lambda>t. Some cpu_benchmark)\<rparr>"

lemma traced_program_loads:
  "load_arguments traced_program null_arguments st =
     bindC (load_benchmark traced_outside cpu_benchmark) (\<lambda>trees. returnC (cpu_benchmark, trees)) st"
  by (simp add: load_arguments_def null_arguments_def ParseFile_def Parse_def traced_program_def
      outside.extend_def outside.truncate_def sample_outside_def)

lemma sample_random_string: "random_string sample_env n s = (Inr (replicate n CHR ''b''), s)"
proof -
  have "alphabet62 ! (11 mod length alphabet62) = CHR ''b''" by code_simp
  then show ?thesis by (induction n) (simp_all add: bindC_app sysC_def sample_env_def)
qed

definition sample_ident :: string where
  "sample_ident = replicate 16 CHR ''b''"

definition in_session :: "sample_world pstate \<Rightarrow> sample_world pstate" where
  "in_session s = s\<lparr>ps_trace := ps_trace s @ [session_begin 42 ''{}'' sample_ident]\<rparr>"

lemma sample_session: "Tracer_StartSession sample_env (Some ''{}'') s = (Inr sample_ident, in_session s)"
proof -
  have "trace_good sample_env" "env_pid sample_env = 42" by (simp_all add: sample_env_def)
  then show ?thesis
    by (simp add: Tracer_StartSession_def bindC_app sample_random_string write_mark_app session_begin_def
        in_session_def sample_ident_def)
qed

lemma traced_program_runs:
  "\<exists>trees u b s. load_benchmark traced_outside cpu_benchmark (sample_start, 0) = (Inr trees, u) \<and>
     ps_trace (fst u) = [] \<and> pd_init trees = None \<and> pd_clean_up trees = None \<and>
     trace_of 42 (pd_main trees) = concat (replicate 2 (mark_span 42 ''invalidate_cache'' [])) \<and>
     run_main sample_env (pd_main trees) (in_session (fst u)) = (Inr (Leaf b InvalidateCache), s) \<and>
     ts_samples (ib_sampler b) = [Timespec 0 1000, Timespec 0 1000]"
proof -
  have "case load_benchmark traced_outside cpu_benchmark (sample_start, 0) of
      (Inr trees, u) \<Rightarrow> (case ps_trace (fst u) of [] \<Rightarrow> True | _ \<Rightarrow> False) \<and>
        (case pd_init trees of None \<Rightarrow> True | _ \<Rightarrow> False) \<and> (case pd_clean_up trees of None \<Rightarrow> True | _ \<Rightarrow> False) \<and>
         trace_of 42 (pd_main trees) = concat (replicate 2 (mark_span 42 ''invalidate_cache'' [])) \<and>
        (case run_main sample_env (pd_main trees) (in_session (fst u)) of
            (Inr (Leaf b k), s2) \<Rightarrow> ts_samples (ib_sampler b) = [Timespec 0 1000, Timespec 0 1000] \<and>
              (case k of InvalidateCache \<Rightarrow> True | _ \<Rightarrow> False) | _ \<Rightarrow> False)
    | _ \<Rightarrow> False" (is "?ok") by code_simp
  obtain x u where x: "load_benchmark traced_outside cpu_benchmark (sample_start, 0) = (x, u)" by (rule prod.exhaust)
  obtain trees where t: "x = Inr trees" using \<open>?ok\<close> by (cases x) (simp_all add: x)
  obtain y s where y: "run_main sample_env (pd_main trees) (in_session (fst u)) = (y, s)" by (rule prod.exhaust)
  obtain i where i: "y = Inr i" using \<open>?ok\<close> by (cases y) (simp_all add: x t y)
  obtain b k where b: "i = Leaf b k" using \<open>?ok\<close> by (cases i) (simp_all add: x t y i)
  have ok: "ps_trace (fst u) = [] \<and> pd_init trees = None \<and> pd_clean_up trees = None \<and>
      trace_of 42 (pd_main trees) = concat (replicate 2 (mark_span 42 ''invalidate_cache'' [])) \<and>
      ts_samples (ib_sampler b) = [Timespec 0 1000, Timespec 0 1000]"
    using \<open>?ok\<close> by (simp add: x t y i b split: list.splits option.splits)
  have "k = InvalidateCache" using \<open>?ok\<close> by (cases k) (simp_all add: x t y i b)
  with x y t i b ok show ?thesis by blast
qed


end
