(* ===== verification/Iteration.thy ===== *)
theory Iteration
  imports Engine_Properties
begin

text \<open>
  What the iteration of an \<^verbatim>\<open>InstructionSet\<close> over a list does (\<^verbatim>\<open>InstructionSet::RunSingle\<close> of
  \<^verbatim>\<open>src/instruction_set.cpp\<close>), stated without indices and generators: a sequence of items of the list is
  visited, and a visit stores the item and runs the instructions.
\<close>

definition visit ::
  "('w, 'g) env \<Rightarrow> ('g instr \<Rightarrow> ('w, 'g instr) act) \<Rightarrow> int \<Rightarrow> 'g instr list \<Rightarrow> string \<Rightarrow> ('w, 'g instr list) act" where
  "visit E run item_key cs x = bindC (varsC (SetVar item_key (VString x))) (\<lambda>_. RunInstructions E run cs)"

lemma mapC_result_bindC: "mapC_result f (bindC m k) = bindC m (\<lambda>x. mapC_result f (k x))"
  by (simp add: mapC_result_def bindC_assoc)

lemma mapC_result_app:
  "mapC_result f m s = (case m s of (Inl e, t) \<Rightarrow> (Inl e, t) | (Inr x, t) \<Rightarrow> (Inr (f x), t))"
  by (simp add: mapC_result_def bindC_app split: prod.splits sum.splits)

text \<open>The item of one round, and the set after the draw.\<close>

lemma set_item_visit:
  assumes "draws_in_range E" and "i < length xs" and "length xs \<le> 2 ^ 31"
  shows "\<exists>x f'. x \<in> set xs \<and> is_access_order f' = is_access_order f \<and> is_item_key f' = is_item_key f \<and>
    (is_access_order f = kSequential \<longrightarrow> x = xs ! i) \<and>
    set_item E xs i f = bindC (varsC (SetVar (is_item_key f) (VString x))) (\<lambda>_. returnC f')"
proof (cases "is_access_order f")
  case kSequential
  then show ?thesis using assms(2) by (intro exI [of _ "xs ! i"] exI [of _ f]) (simp add: set_item_def)
next
  case kRandom
  obtain j g where draw: "rng_draw E 0 (int (length xs) - 1) (is_gen f) = (j, g)" by (rule prod.exhaust)
  have narrow: "narrow32 (int (length xs) - 1) = int (length xs) - 1"
    using assms(2,3) by (intro narrow32_in) (simp add: in_i32_def)
  have "0 \<le> j \<and> j \<le> int (length xs) - 1"
    using assms(1,2) draw unfolding draws_in_range_def
    by (metis fst_conv le_numeral_extra(3) of_nat_0_le_iff of_nat_less_0_iff zle_diff1_eq linorder_not_less of_nat_less_iff order_le_less_trans)
  then show ?thesis
    using draw narrow kRandom
    by (intro exI [of _ "xs ! nat j"] exI [of _ "f\<lparr>is_gen := g\<rparr>"]) (auto simp: set_item_def)
qed

lemma foldC_iterate_visit:
  assumes "draws_in_range E" and "length xs \<le> 2 ^ 31"
  shows "\<forall>i \<in> set is. i < length xs \<Longrightarrow> \<exists>items. length items = length is \<and> set items \<subseteq> set xs \<and>
    (is_access_order f = kSequential \<longrightarrow> items = map ((!) xs) is) \<and>
    (\<forall>run cs. mapC_result snd (foldC (iterate_step E run xs) (f, cs) is) = foldC (visit E run (is_item_key f)) cs items)"
proof (induction "is" arbitrary: f)
  case Nil
  then show ?case by (simp add: fun_eq_iff mapC_result_app)
next
  case (Cons i "is")
  obtain x f' where x: "x \<in> set xs" "is_access_order f' = is_access_order f" "is_item_key f' = is_item_key f"
      "is_access_order f = kSequential \<longrightarrow> x = xs ! i"
      "set_item E xs i f = bindC (varsC (SetVar (is_item_key f) (VString x))) (\<lambda>_. returnC f')"
    using set_item_visit [OF assms(1) _ assms(2)] Cons.prems by (metis list.set_intros(1))
  obtain items where items: "length items = length is" "set items \<subseteq> set xs"
      "is_access_order f' = kSequential \<longrightarrow> items = map ((!) xs) is"
      "\<forall>run cs. mapC_result snd (foldC (iterate_step E run xs) (f', cs) is) = foldC (visit E run (is_item_key f')) cs items"
    using Cons by (metis list.set_intros(2))
  have "mapC_result snd (foldC (iterate_step E run xs) (f, cs) (i # is)) =
      foldC (visit E run (is_item_key f)) cs (x # items)" for run cs
    using items(4) x(3)
    by (simp add: iterate_step_def x(5) visit_def bindC_assoc bindC_return_left mapC_result_bindC)
  then show ?case using items(1-3) x by (intro exI [of _ "x # items"]) auto
qed

text \<open>
  C6: a set that iterates over a list visits as many items as the list has, all of them from the list, and
  in sequential order exactly those of the list; in a random order the choice depends on the
  generator only. A visit stores the item in the shared variable and runs all instructions. The
  index never leaves the list.
\<close>

theorem set_visits_items:
  assumes "draws_in_range E" and "is_list_key f \<noteq> -1" and "is_item_key f \<noteq> -1"
    and "xs \<noteq> []" and "length xs \<le> 2 ^ 31"
  shows "\<exists>items. length items = length xs \<and> set items \<subseteq> set xs \<and>
    (is_access_order f = kSequential \<longrightarrow> items = xs) \<and>
    (\<forall>run cs s. fst (varsC (Get (is_list_key f)) s) = Inr (VList xs) \<longrightarrow>
       mapC_result snd (InstructionSet_RunSingle E run (f, cs)) s = foldC (visit E run (is_item_key f)) cs items s)"
proof -
  have "0 \<le> narrow32 (int (length xs) - 1)"
    using assms(4,5) by (subst narrow32_in) (auto simp: in_i32_def Suc_le_eq)
  moreover obtain items where items: "length items = length xs" "set items \<subseteq> set xs"
      "is_access_order f = kSequential \<longrightarrow> items = xs"
      "\<forall>run cs. mapC_result snd (foldC (iterate_step E run xs) (f, cs) [0..<length xs]) = foldC (visit E run (is_item_key f)) cs items"
    using foldC_iterate_visit [OF assms(1,5), of "[0..<length xs]" f] by (auto simp: map_nth)
  ultimately have "mapC_result snd (InstructionSet_RunSingle E run (f, cs)) s = foldC (visit E run (is_item_key f)) cs items s"
    if "fst (varsC (Get (is_list_key f)) s) = Inr (VList xs)" for run cs s
    using that assms(2,3)
    by (auto simp: InstructionSet_RunSingle_def mapC_result_bindC bindC_app split: if_splits)
  then show ?thesis using items(1-3) by blast
qed

section \<open>Example\<close>

definition sample_list_state :: "sample_world pstate" where
  "sample_list_state = sample_state\<lparr>ps_vars := (ps_vars sample_state)\<lparr>sv_variables := [VList [''a'', ''b''], VString []]\<rparr>\<rparr>"

definition sample_list_set :: "nat iset" where
  "sample_list_set = \<lparr>is_list_key = 0, is_item_key = 1, is_access_order = kSequential, is_reseeding = kOnce,
     is_seed = 0, is_gen = 0\<rparr>"

theorem set_visits_items_witness:
  "mapC_result snd (InstructionSet_RunSingle sample_env returnC (sample_list_set, [sample_leaf 1 []])) sample_list_state =
     foldC (visit sample_env returnC 1) [sample_leaf 1 []] [''a'', ''b''] sample_list_state"
proof -
  have "fst (varsC (Get 0) sample_list_state) = Inr (VList [''a'', ''b''])"
    by (simp add: sample_list_state_def valid_key_def)
  then show ?thesis
    using set_visits_items [OF sample_env_draws, of sample_list_set "[''a'', ''b'']"]
    by (auto simp: sample_list_set_def)
qed

end
