(* ===== verification/Passing_Time.thy ===== *)
theory Passing_Time
  imports Engine_Properties
begin

text \<open>
  Time does not go back: when no call of the environment turns back the time \<open>now\<close> of the system, no method
  of the engine does, on any tree and whether it succeeds or not. The lemmas follow the structure of the
  model, from the calls to \<^verbatim>\<open>SetUp\<close>, \<^verbatim>\<open>Run\<close> and \<^verbatim>\<open>TearDown\<close> of a tree with threads.
\<close>

interpretation passing: preorder_steps "\<lambda>(s :: 'w pstate) t. (now (ps_world s) :: int) \<le> now (ps_world t)"
  for now :: "'w \<Rightarrow> int"
  by unfold_locales auto

abbreviation passes :: "('w \<Rightarrow> int) \<Rightarrow> ('w, 'a) act \<Rightarrow> bool" where
  "passes \<equiv> passing.moves"

section \<open>The calls\<close>

definition time_passes :: "('w, 'g) env \<Rightarrow> ('w \<Rightarrow> int) \<Rightarrow> bool" where
  "time_passes E now \<longleftrightarrow> (\<forall>w.
     (\<forall>p m. now w \<le> now (snd (sys_Access E p m w))) \<and>
     (\<forall>fd. now w \<le> now (snd (sys_Close E fd w))) \<and>
     (\<forall>d. now w \<le> now (snd (sys_CloseDir E d w))) \<and>
     (\<forall>fd off n adv. now w \<le> now (snd (sys_FAdvise E fd off n adv w))) \<and>
     (\<forall>fd m off n. now w \<le> now (snd (sys_FAllocate E fd m off n w))) \<and>
     (\<forall>fd n. now w \<le> now (snd (sys_FTruncate E fd n w))) \<and>
     (\<forall>fd. now w \<le> now (snd (sys_FStat E fd w))) \<and>
     (\<forall>fd. now w \<le> now (snd (sys_FSync E fd w))) \<and>
     (\<forall>p f m. now w \<le> now (snd (sys_Open E p f m w))) \<and>
     (\<forall>p. now w \<le> now (snd (sys_OpenDir E p w))) \<and>
     (\<forall>fd c off. now w \<le> now (snd (sys_Read E fd c off w))) \<and>
     (\<forall>p a f. now w \<le> now (snd (sys_SchedSetattr E p a f w))) \<and>
     (\<forall>d. now w \<le> now (snd (sys_ReadDir E d w))) \<and>
     (\<forall>p. now w \<le> now (snd (sys_ReadLink E p w))) \<and>
     now w \<le> now (sys_Sync E w) \<and>
     (\<forall>p. now w \<le> now (snd (sys_Unlink E p w))) \<and>
     (\<forall>fd buf c off. now w \<le> now (snd (sys_Write E fd buf c off w))) \<and>
     (\<forall>p m. now w \<le> now (snd (sys_LockMutex E p m w))) \<and>
     (\<forall>p m. now w \<le> now (snd (sys_UnlockMutex E p m w))) \<and>
     (\<forall>c. now w \<le> now (snd (clock_gettime E c w))) \<and>
     (\<forall>t. now w \<le> now (snd (clock_nanosleep E t w))) \<and>
     (\<forall>n. now w \<le> now (snd (mmap_anon E n w))) \<and>
     (\<forall>a n. now w \<le> now (snd (munmap E a n w))) \<and>
     (\<forall>n. now w \<le> now (snd (new_nothrow E n w))) \<and>
     now w \<le> now (snd (time_now E w)) \<and>
     (\<forall>m. now w \<le> now (snd (sched_setaffinity E m w))) \<and>
     (\<forall>n. now w \<le> now (snd (pthread_setname E n w))) \<and>
     now w \<le> now (snd (libc_rand E w)) \<and>
     (\<forall>ids. now w \<le> now (snd (pick_thread E ids w))))"

named_theorems passing_intros \<open>actions that do not turn back the time\<close>

lemma passes_sysC: "(\<And>w. now w \<le> now (snd (f w))) \<Longrightarrow> passes now (sysC f)"
  by (simp add: passing.moves_def sysC_app)

lemma passes_calls [passing_intros]:
  assumes "time_passes E now"
  shows "passes now (sysC (sys_Access E p m))" "passes now (sysC (sys_Close E fd))"
    "passes now (sysC (sys_CloseDir E d))" "passes now (sysC (sys_FAdvise E fd off n adv))"
    "passes now (sysC (sys_FAllocate E fd i off n))" "passes now (sysC (sys_FTruncate E fd n))"
    "passes now (sysC (sys_FStat E fd))" "passes now (sysC (sys_FSync E fd))"
    "passes now (sysC (sys_Open E p i m))" "passes now (sysC (sys_OpenDir E p))"
    "passes now (sysC (sys_Read E fd c off))" "passes now (sysC (sys_SchedSetattr E m a f))"
    "passes now (sysC (sys_ReadDir E d))" "passes now (sysC (sys_ReadLink E p))"
    "passes now (sysC (\<lambda>w. ((), sys_Sync E w)))" "passes now (sysC (sys_Unlink E p))"
    "passes now (sysC (sys_Write E fd buf c off))" "passes now (sysC (clock_gettime E cl))"
    "passes now (sysC (clock_nanosleep E t))" "passes now (sysC (mmap_anon E sz))"
    "passes now (sysC (munmap E fd sz))" "passes now (sysC (new_nothrow E n))" "passes now (sysC (time_now E))"
    "passes now (sysC (sched_setaffinity E cpus))" "passes now (sysC (pthread_setname E p))"
    "passes now (sysC (libc_rand E))" "passes now (sysC (pick_thread E ids))"
  using assms unfolding time_passes_def by (intro passes_sysC, simp)+

lemma passes_mutex:
  assumes "time_passes E now"
  shows "now w \<le> now (snd (sys_LockMutex E p m w))" "now w \<le> now (snd (sys_UnlockMutex E p m w))"
  using assms unfolding time_passes_def by blast+

lemma passes_vars [passing_intros]: "passes now (varsC m)"
  by (auto simp: passing.moves_def varsC_def split: prod.splits)

lemma passes_mark [passing_intros]: "passes now (write_mark E msg)"
  by (simp add: passing.moves_def write_mark_app)

lemma passes_mapC [passing_intros]: "(\<And>x. passes now (f x)) \<Longrightarrow> passes now (mapC f xs)"
  by (rule passing.moves_mapC)

lemma passes_foldC [passing_intros]: "(\<And>b x. passes now (f b x)) \<Longrightarrow> passes now (foldC f b xs)"
  by (rule passing.moves_foldC)

lemma passes_if [passing_intros]:
  "(b \<Longrightarrow> passes now m) \<Longrightarrow> (\<not> b \<Longrightarrow> passes now k) \<Longrightarrow> passes now (if b then m else k)"
  by simp

lemma passes_let [passing_intros]: "passes now (f a) \<Longrightarrow> passes now (let x = a in f x)"
  by simp

lemma passes_prod [passing_intros]: "(\<And>a b. passes now (f a b)) \<Longrightarrow> passes now (case p of (a, b) \<Rightarrow> f a b)"
  by (cases p) simp

declare passing.moves_pure [passing_intros] passing.moves_bindC [passing_intros] passing.moves_do_whileC [passing_intros]

lemma passes_mapC_result [passing_intros]: "passes now m \<Longrightarrow> passes now (mapC_result f m)"
  unfolding mapC_result_def by (intro passing_intros)

lemma passes_shared [passing_intros]:
  "passes now (shared_int k)" "passes now (shared_string k)" "passes now GetAbsolutePath"
  unfolding shared_int_def shared_string_def GetAbsolutePath_def by (intro passing_intros)+

section \<open>The base class and the leaves\<close>

lemma passes_utils [passing_intros]:
  assumes "time_passes E now"
  shows "passes now (GetFileSize E fd)" "passes now (GetFilePath E fd)" "passes now (FileExists E p)"
  using assms unfolding GetFileSize_def GetFilePath_def FileExists_def by (intro passing_intros; assumption)+

lemma passes_tracer [passing_intros]: "passes now (Tracer_Start E n)" "passes now (Tracer_End E n)"
  unfolding Tracer_Start_def Tracer_End_def by (intro passing_intros)+

lemma passes_base [passing_intros]:
  assumes "time_passes E now"
  shows "passes now (Instruction_SetUp E b)" "passes now (Instruction_SetUpSingle E b)"
    "passes now (Instruction_TearDownSingle E l b)"
  using assms
  unfolding Instruction_SetUp_def Instruction_SetUpSingle_def Instruction_TearDownSingle_def wait_wakeup_def
    MeasureStart_def MeasureEnd_def read_clock_def
  by (intro passing_intros; assumption)+

lemma passes_inherit [passing_intros]: "(\<And>b. passes now (m b)) \<Longrightarrow> passes now (inherit m ob)"
  unfolding inherit_def by (intro passing_intros)

lemma passes_work [passing_intros]: "passes now w \<Longrightarrow> passes now (run_work w b)"
  unfolding run_work_def by (intro passing_intros)

lemma passes_leafC [passing_intros]: "(\<And>ob. passes now (m ob)) \<Longrightarrow> passes now (leafC C m b f)"
  unfolding leafC_def by (intro passing_intros)

lemma passes_rw_parts [passing_intros]:
  assumes "time_passes E now"
  shows "passes now (check_block E fd bs F)" "passes now (allocate_buffer E n)" "passes now (write_unit E fd buf u)"
    "passes now (read_unit E fd buf u)"
  using assms unfolding check_block_def allocate_buffer_def write_unit_def read_unit_def
  by (intro passing_intros; assumption)+

lemma passes_rw [passing_intros]:
  assumes "time_passes E now"
  shows "passes now (ReadWriteFile_SetUp E ob)" "passes now (ReadWriteFile_SetUpSingle E ob)"
    "passes now (ReadWriteFile_TearDownSingle E l ob)" "passes now (WriteFile_RunSingle E fsync ob)"
    "passes now (ReadFile_SetUpSingle E fadvise ob)" "passes now (ReadFile_RunSingle E ob)"
  using assms
  unfolding ReadWriteFile_SetUp_def ReadWriteFile_SetUpSingle_def ReadWriteFile_TearDownSingle_def
    WriteFile_RunSingle_def ReadFile_SetUpSingle_def ReadFile_RunSingle_def
  by (intro passing_intros; assumption)+

text \<open>The loops that carry values of their own beside the process.\<close>

interpretation listing: preorder_steps
  "\<lambda>(q :: 'x \<times> 'w pstate) r. (now (ps_world (snd q)) :: int) \<le> now (ps_world (snd r))"
  for now :: "'w \<Rightarrow> int"
  by unfold_locales auto

interpretation drawing: preorder_steps
  "\<lambda>(q :: 'x \<times> 'y \<times> 'w pstate) r. (now (ps_world (snd (snd q))) :: int) \<le> now (ps_world (snd (snd r)))"
  for now :: "'w \<Rightarrow> int"
  by unfold_locales auto

lemma passes_random_path [passing_intros]:
  assumes "time_passes E now"
  shows "passes now (random_path E f)"
proof -
  have "passes now GetAbsolutePath" "\<And>p. passes now (FileExists E p)"
    using assms by (intro passing_intros; assumption)+
  then have body: "drawing.moves now (draw_name E)"
    unfolding drawing.moves_def draw_name_def
    by (auto simp: Let_def split: prod.splits sum.splits dest!: passing.movesD intro: order_trans)
  show ?thesis
    unfolding passing.moves_def random_path_def
    using drawing.movesD [OF drawing.moves_do_whileC [OF body]]
    by (fastforce split: prod.splits sum.splits)
qed

lemma passes_collect_entries [passing_intros]:
  assumes "time_passes E now"
  shows "passes now (collect_entries E dir h)"
proof -
  have "passes now (sysC (sys_ReadDir E h))" using assms by (rule passing_intros)
  then have body: "listing.moves now (read_entry E dir h)"
    unfolding listing.moves_def read_entry_def
    by (auto split: prod.splits sum.splits option.splits dest!: passing.movesD)
  show ?thesis
    unfolding passing.moves_def collect_entries_def
    using listing.movesD [OF listing.moves_do_whileC [OF body]]
    by (fastforce split: prod.splits sum.splits)
qed

lemma passes_files [passing_intros]:
  assumes "time_passes E now"
  shows "passes now (OpenFile_SetUpSingle E oob)" "passes now (OpenFile_RunSingle E oob)"
    "passes now (CloseFile_RunSingle E key)" "passes now (DeleteFile_SetUpSingle E dob)"
    "passes now (DeleteFile_RunSingle E dob)" "passes now (ResizeFile_RunSingle E rob)"
    "passes now (ResizeFileRandom_SetUp E rob)" "passes now (ResizeFileRandom_SetUpSingle E rob)"
    "passes now (InvalidateCache_RunSingle E)"
  using assms
  unfolding OpenFile_SetUpSingle_def OpenFile_RunSingle_def CloseFile_RunSingle_def DeleteFile_SetUpSingle_def
    DeleteFile_RunSingle_def ResizeFile_RunSingle_def ResizeFileRandom_SetUp_def ResizeFileRandom_SetUpSingle_def
    InvalidateCache_RunSingle_def
  by (intro passing_intros; assumption)+

lemma passes_directory [passing_intros]:
  assumes "time_passes E now"
  shows "passes now (ReadDirectory_RunSingle E ob)"
  using assms unfolding ReadDirectory_RunSingle_def by (auto intro!: passing_intros split: option.splits)

lemma passes_deallocate [passing_intros]: "time_passes E now \<Longrightarrow> passes now (deallocate_memory E as sz)"
  by (induction "as") (auto intro!: passing_intros)

lemma passes_mutexes [passing_intros]:
  assumes "\<And>p m w. now w \<le> now (snd (call p m w))"
  shows "passes now (on_mutex call mutex)"
  using assms unfolding passing.moves_def on_mutex_def
  by (auto split: option.splits variant.splits prod.splits) (metis snd_conv)

lemma passes_work_instructions [passing_intros]:
  assumes "time_passes E now"
  shows "passes now (CpuWorkCycles_RunSingle n)" "passes now (threadWaitAbsoluteTime E t)"
    "passes now (MemoryAllocation_RunSingle E mob)" "passes now (MemoryAllocation_TearDownSingle E l mob)"
    "passes now (Lock_RunSingle E mutex)" "passes now (Unlock_RunSingle E mutex)"
  using assms passes_mutex [OF assms]
  unfolding CpuWorkCycles_RunSingle_def threadWaitAbsoluteTime_def cpu_time_def wait_step_def
    MemoryAllocation_RunSingle_def allocate_memory_def MemoryAllocation_TearDownSingle_def Lock_RunSingle_def
    Unlock_RunSingle_def
  by (auto intro!: passing_intros split: option.splits free_policy.splits)

lemma passes_leaves [passing_intros]:
  assumes "time_passes E now"
  shows "passes now (leaf_SetUp E ob)" "passes now (leaf_SetUpSingle E ob)" "passes now (leaf_RunSingle E ob)"
    "passes now (leaf_TearDownSingle E l ob)"
  using assms
  unfolding leaf_SetUp_def leaf_SetUpSingle_def leaf_RunSingle_def leaf_TearDownSingle_def
  by (auto intro!: passing_intros split: leaf.splits)

section \<open>The engine\<close>

lemma passes_sets [passing_intros]:
  assumes "time_passes E now"
  shows "passes now (InstructionSet_SetUp E ob)" "passes now (InstructionSet_SetUpSingle E ob)"
  using assms unfolding InstructionSet_SetUp_def InstructionSet_SetUpSingle_def
  by (intro passing_intros; assumption)+

lemma passes_vSetUp [passing_intros]: "time_passes E now \<Longrightarrow> passes now (vSetUp E i)"
  by (cases i) (auto intro!: passing_intros)

lemma passes_vTearDown [passing_intros]: "passes now (vTearDown i)"
  unfolding vTearDown_def by (intro passing_intros)

lemma passes_vSetUpSingle [passing_intros]: "time_passes E now \<Longrightarrow> passes now (vSetUpSingle E i)"
  by (cases i) (auto simp: Multithreading_SetUpSingle_def intro!: passing_intros)

lemma passes_run_times [passing_intros]:
  "(\<And>l ob. passes now (single l ob)) \<Longrightarrow> passes now (run_times single n ob)"
  by (induction n arbitrary: ob) (auto intro!: passing_intros)

lemma passes_Run [passing_intros]:
  assumes "\<And>ob. passes now (m1 ob)" and "\<And>ob. passes now (m2 ob)" and "\<And>l ob. passes now (m3 l ob)"
  shows "passes now (Instruction_Run base m1 m2 m3 ob)"
  using assms unfolding Instruction_Run_def Instruction_single_def by (auto intro!: passing_intros)

lemma passes_RunInstructions [passing_intros]:
  assumes "time_passes E now" and "\<And>c. passes now (run c)"
  shows "passes now (RunInstructions E run cs)"
  using assms unfolding RunInstructions_def by (auto intro!: passing_intros)

lemma passes_set_item [passing_intros]: "passes now (set_item E xs i f)"
  unfolding set_item_def by (auto intro!: passing_intros split: order_kind.splits)

lemma passes_set_RunSingle [passing_intros]:
  assumes "time_passes E now" and "\<And>c. passes now (run c)"
  shows "passes now (InstructionSet_RunSingle E run ob)"
  using assms unfolding InstructionSet_RunSingle_def iterate_step_def
  by (auto intro!: passing_intros split: variant.splits)

lemma passes_enter [passing_intros]:
  assumes "time_passes E now"
  shows "passes now (enter_thread E p)"
  using assms unfolding enter_thread_def SchedAttr_Set_def SchedAffinity_Set_def Syscall_SchedSetattr_def
  by (intro passing_intros; assumption)

lemma passes_thread_phase [passing_intros]:
  assumes "time_passes E now" and "\<And>c. passes now (rs c)" and "\<And>l c. passes now (td l c)"
  shows "passes now (thread_phase E rs td ps p j c)"
  using assms unfolding thread_phase_def by (auto intro!: passing_intros split: phase.splits)

lemma passes_pick [passing_intros]: "time_passes E now \<Longrightarrow> passes now (pick E todo)"
  unfolding pick_def by (intro passing_intros)

lemma passes_join [passing_intros]:
  assumes "time_passes E now" and "\<And>p j c. passes now (step p j c)"
  shows "passes now (join_threads E step n ob)"
  using assms by (induction n arbitrary: ob) (auto intro!: passing_intros)

lemma passes_threads [passing_intros]:
  assumes "time_passes E now" and "\<And>p j c. passes now (step p j c)"
  shows "passes now (Multithreading_RunSingle m cs)" "passes now (Multithreading_TearDownSingle E step l b m cs)"
  using assms unfolding Multithreading_RunSingle_def Multithreading_TearDownSingle_def
  by (auto intro!: passing_intros)

lemma passes_methods [passing_intros]:
  assumes "time_passes E now"
  shows "passes now (vRunSingle E n i)" "passes now (vTearDownSingle E n l i)"
proof (induction n arbitrary: i l)
  case (Suc n)
  { case 1 show ?case using assms Suc by (cases i) (auto intro!: passing_intros) }
  { case 2 show ?case using assms Suc by (cases i) (auto intro!: passing_intros) }
qed (auto intro!: passing_intros)

lemma passes_run [passing_intros]:
  assumes "time_passes E now"
  shows "passes now (vRun E n i)" "passes now (Run E i)" "passes now (run_instruction E i)"
  using assms unfolding vRun_def Run_def run_instruction_def by (auto intro!: passing_intros)

end
