(* ===== verification/Contract.thy ===== *)
theory Contract
  imports Passing_Time
begin

text \<open>
  What a run needs to come to its end, and a calculus for it. A \<open>session\<close> is a period of time, a typing of
  the shared variables and the sizes that files may have; \<open>lawful\<close> says what the operating system has to
  do in the meantime: its clocks go forward and its calls succeed. \<open>yields S m s P\<close> is total correctness:
  \<open>m\<close>, started in a well typed state \<open>s\<close>, ends well with a result and a well typed state that satisfy \<open>P\<close>,
  if it ends within the period at all. Its rules follow the structure of the computations.
\<close>

section \<open>Sessions\<close>

datatype var_type = Descriptor | Path | Paths

text \<open>\<open>Paths\<close> are those of a list that can be iterated over.\<close>

fun has_type :: "var_type \<Rightarrow> variant \<Rightarrow> bool" where
  "has_type Descriptor v \<longleftrightarrow> (\<exists>i. v = VInt i)"
| "has_type Path v \<longleftrightarrow> (\<exists>p. v = VString p)"
| "has_type Paths v \<longleftrightarrow> (\<exists>xs. v = VList xs \<and> xs \<noteq> [] \<and> length xs \<le> 2 ^ 31)"

record 'w session =
  se_now :: "'w \<Rightarrow> int"
  se_start :: int
  se_end :: int
  se_types :: "int \<Rightarrow> var_type option"
  se_vars :: nat
  se_path :: int
  se_sizes :: "int set"
  se_work :: int
  se_entries :: "int \<Rightarrow> 'w \<Rightarrow> (int \<times> string) list"
  se_taken :: "string set"

text \<open>
  The time of the system in nanoseconds, the first and the last instant of the session, the types of the
  keys whose variables have been assigned, the number of variables, the key of the absolute path, the sizes
  of files, the longest busy wait, the entries a directory handle has left, the paths at which there may be
  a file.
\<close>

definition typed :: "'w session \<Rightarrow> 'w pstate \<Rightarrow> bool" where
  "typed S s \<longleftrightarrow> ps_path_key s = se_path S \<and> se_vars S \<le> length (sv_variables (ps_vars s)) \<and> (\<forall>k T. se_types S k = Some T \<longrightarrow>
     valid_key (ps_vars s) k \<and> has_type T (sv_variables (ps_vars s) ! nat k))"

text \<open>An assignment: a key of the right type, or one that nothing is known of, whose type is known afterwards.\<close>

definition writable :: "'w session \<Rightarrow> int \<Rightarrow> var_type \<Rightarrow> bool" where
  "writable S k T \<longleftrightarrow> se_types S k = Some T \<or> se_types S k = None \<and> 0 \<le> k \<and> k < int (se_vars S)"

definition learn :: "'w session \<Rightarrow> int \<Rightarrow> var_type \<Rightarrow> 'w session" where
  "learn S k T = S\<lparr>se_types := (se_types S)(k \<mapsto> T)\<rparr>"

abbreviation clock_of :: "'w session \<Rightarrow> 'w pstate \<Rightarrow> int" where
  "clock_of S s \<equiv> se_now S (ps_world s)"

definition under_way :: "'w session \<Rightarrow> 'w pstate \<Rightarrow> bool" where
  "under_way S s \<longleftrightarrow> typed S s \<and> se_start S \<le> clock_of S s"

text \<open>A call that gives what \<open>Q\<close> says when it returns in time.\<close>

definition promises :: "'w session \<Rightarrow> ('a \<Rightarrow> bool) \<Rightarrow> ('w \<Rightarrow> 'a \<times> 'w) \<Rightarrow> bool" where
  "promises S Q call \<longleftrightarrow> (\<forall>w. se_now S (snd (call w)) < se_end S \<longrightarrow> Q (fst (call w)))"

text \<open>
  The clocks. The monotonic one reads a time between the one before and the one after the call. The one
  of the CPU gets ahead by the longest busy wait, whenever it starts.
\<close>

definition clocks_advance :: "('w, 'g) env \<Rightarrow> 'w session \<Rightarrow> bool" where
  "clocks_advance E S \<longleftrightarrow> (\<forall>w.
     (se_now S (snd (clock_gettime E CLOCK_MONOTONIC w)) < se_end S \<longrightarrow>
        (\<exists>t w'. clock_gettime E CLOCK_MONOTONIC w = ((0, t), w') \<and> normal_ts t \<and> se_now S w \<le> nanos t \<and>
           nanos t \<le> se_now S w')) \<and>
     fst (fst (clock_gettime E CLOCK_THREAD_CPUTIME_ID w)) = 0 \<and>
     (se_now S w < se_end S \<longrightarrow> normal_ts (reading E w) \<and>
        nanos (reading E w) < 2 ^ 61 * 1000000000 \<and>
        (\<exists>n. \<forall>t. nanos t \<le> nanos (reading E w) + se_work S \<longrightarrow> normal_ts t \<longrightarrow>
           \<not> timespec_less (reading E (after_readings E (Suc n) w)) t)))"

definition calls_succeed :: "('w, 'g) env \<Rightarrow> 'w session \<Rightarrow> bool" where
  "calls_succeed E S \<longleftrightarrow>
     (\<forall>fd. promises S (\<lambda>ret. ret = 0) (sys_Close E fd)) \<and>
     (\<forall>fd off n adv. promises S (\<lambda>ret. ret = 0) (sys_FAdvise E fd off n adv)) \<and>
     (\<forall>fd m off n. promises S (\<lambda>ret. ret = 0) (sys_FAllocate E fd m off n)) \<and>
     (\<forall>fd n. promises S (\<lambda>ret. ret = 0) (sys_FTruncate E fd n)) \<and>
     (\<forall>fd. promises S (\<lambda>(ret, sz). ret \<noteq> -1 \<and> sz \<in> se_sizes S) (sys_FStat E fd)) \<and>
     (\<forall>fd. promises S (\<lambda>ret. ret = 0) (sys_FSync E fd)) \<and>
     (\<forall>p f m. promises S (\<lambda>fd. fd \<noteq> -1) (sys_Open E p f m)) \<and>
     (\<forall>fd c off. promises S (\<lambda>(ret, bytes). ret \<noteq> -1) (sys_Read E fd c off)) \<and>
     (\<forall>p a f. promises S (\<lambda>ret. ret = 0) (sys_SchedSetattr E p a f)) \<and>
     (\<forall>p. promises S (\<lambda>ret. ret \<noteq> -1) (sys_Unlink E p)) \<and>
     (\<forall>fd buf c off. promises S (\<lambda>ret. ret \<noteq> -1) (sys_Write E fd buf c off)) \<and>
     (\<forall>t. promises S (\<lambda>ret. ret = 0) (clock_nanosleep E t)) \<and>
     (\<forall>n. promises S (\<lambda>a. a \<noteq> None) (mmap_anon E n)) \<and>
     (\<forall>a n. promises S (\<lambda>ret. ret \<noteq> -1) (munmap E a n)) \<and>
     (\<forall>n. promises S (\<lambda>ok. ok) (new_nothrow E n)) \<and>
     (\<forall>m. promises S (\<lambda>ret. ret = 0) (sched_setaffinity E m)) \<and>
     (\<forall>n. length n \<le> 15 \<longrightarrow> promises S (\<lambda>ret. ret = 0) (pthread_setname E n))"

text \<open>Directories can be opened, have a regular file and not too many, and come to an end.\<close>

definition directories_end :: "('w, 'g) env \<Rightarrow> 'w session \<Rightarrow> bool" where
  "directories_end E S \<longleftrightarrow>
     (\<forall>p w. se_now S (snd (sys_OpenDir E p w)) < se_end S \<longrightarrow>
        (\<exists>h w'. sys_OpenDir E p w = (Some h, w') \<and> (\<exists>e \<in> set (se_entries S h w'). fst e = DT_REG) \<and>
           length (se_entries S h w') \<le> 2 ^ 31)) \<and>
     (\<forall>h w. fst (sys_ReadDir E h w) = (case se_entries S h w of [] \<Rightarrow> None | e # _ \<Rightarrow> Some e) \<and>
        se_entries S h (snd (sys_ReadDir E h w)) = tl (se_entries S h w))"

text \<open>Every sequence of draws comes to a name that is not taken.\<close>

definition names_free :: "('w, 'g) env \<Rightarrow> 'w session \<Rightarrow> bool" where
  "names_free E S \<longleftrightarrow> (\<forall>p w. p \<notin> se_taken S \<longrightarrow> fst (sys_Access E p 0 w) = -1) \<and>
     (\<forall>base g. \<exists>n. base @ show_int (nth_name E n g) \<notin> se_taken S)"

definition lawful :: "('w, 'g) env \<Rightarrow> 'w session \<Rightarrow> bool" where
  "lawful E S \<longleftrightarrow> time_passes E (se_now S) \<and> 0 \<le> se_start S \<and> se_end S \<le> se_start S + 2 ^ 23 * 1000000000 \<and>
     se_end S \<le> 2 ^ 60 * 1000000000 \<and> se_work S \<le> 2 ^ 60 * 1000000000 \<and> draws_in_range E \<and> clocks_advance E S \<and>
     calls_succeed E S \<and> directories_end E S \<and> names_free E S"

lemma lawful_passes [passing_intros]: "lawful E S \<Longrightarrow> time_passes E (se_now S)"
  by (simp add: lawful_def)

lemma lawfulD:
  assumes "lawful E S"
  shows "clocks_advance E S" "calls_succeed E S" "directories_end E S" "draws_in_range E" "0 \<le> se_start S"
    "se_end S \<le> se_start S + 2 ^ 23 * 1000000000" "se_end S \<le> 2 ^ 60 * 1000000000" "se_work S \<le> 2 ^ 60 * 1000000000"
    "names_free E S"
  using assms by (simp_all add: lawful_def)

section \<open>Computations that end well\<close>

definition yields :: "'w session \<Rightarrow> ('w, 'a) act \<Rightarrow> 'w pstate \<Rightarrow> ('a \<Rightarrow> 'w pstate \<Rightarrow> bool) \<Rightarrow> bool" where
  "yields S m s P \<longleftrightarrow> (under_way S s \<longrightarrow> clock_of S (snd (m s)) < se_end S \<longrightarrow>
     (\<exists>x t. m s = (Inr x, t) \<and> under_way S t \<and> clock_of S s \<le> clock_of S t \<and> P x t))"

lemma yieldsD:
  "yields S m s P \<Longrightarrow> under_way S s \<Longrightarrow> clock_of S (snd (m s)) < se_end S \<Longrightarrow>
     \<exists>x t. m s = (Inr x, t) \<and> under_way S t \<and> clock_of S s \<le> clock_of S t \<and> P x t"
  by (simp add: yields_def)

lemma yields_bindC:
  assumes "yields S m s Q" and "\<And>x t. Q x t \<Longrightarrow> yields S (k x) t P" and "\<And>x. passes (se_now S) (k x)"
  shows "yields S (bindC m k) s P"
  unfolding yields_def
proof (intro impI)
  assume s: "under_way S s" and e: "clock_of S (snd (bindC m k s)) < se_end S"
  obtain r t where r: "m s = (r, t)" by (rule prod.exhaust)
  have "clock_of S t \<le> clock_of S (snd (bindC m k s))"
    using r assms(3) by (cases r) (auto simp: bindC_app passing.moves_def)
  then have "clock_of S (snd (m s)) < se_end S" using r e by simp
  from yieldsD [OF assms(1) s this] obtain x where x: "r = Inr x" "under_way S t" "clock_of S s \<le> clock_of S t" "Q x t"
    using r by auto
  then have "bindC m k s = k x t" using r by (simp add: bindC_app)
  with yieldsD [OF assms(2) [OF x(4)] x(2)] e x(3)
  show "\<exists>x t. bindC m k s = (Inr x, t) \<and> under_way S t \<and> clock_of S s \<le> clock_of S t \<and> P x t" by auto
qed

lemma yields_time: "yields S m s Q \<Longrightarrow> yields S m s (\<lambda>x t. Q x t \<and> clock_of S s \<le> clock_of S t)"
  by (auto simp: yields_def)

lemma yields_returnC: "P x s \<Longrightarrow> yields S (returnC x) s P" "P x s \<Longrightarrow> yields S (Pair (Inr x)) s P"
  by (simp_all add: yields_def)

lemma yields_weaken: "yields S m s Q \<Longrightarrow> (\<And>x t. Q x t \<Longrightarrow> P x t) \<Longrightarrow> yields S m s P"
  unfolding yields_def by blast

lemma yields_also:
  assumes "yields S m s P" and "\<And>x t. m s = (Inr x, t) \<Longrightarrow> Q x"
  shows "yields S m s (\<lambda>x t. P x t \<and> Q x)"
  using assms unfolding yields_def by blast

lemma yields_typed: "yields S m s P \<Longrightarrow> yields S m s (\<lambda>x t. P x t \<and> typed S t)"
  by (auto simp: yields_def under_way_def)

lemma yields_any: "yields S m s Q \<Longrightarrow> yields S m s (\<lambda>_ _. True)"
  by (erule yields_weaken) simp

lemma yields_mapC_result: "yields S m s (\<lambda>x t. P (f x) t) \<Longrightarrow> yields S (mapC_result f m) s P"
  unfolding mapC_result_def by (erule yields_bindC) (auto intro: yields_returnC passing_intros)

lemma yields_liftR: "r = Inr x \<Longrightarrow> P x s \<Longrightarrow> yields S (liftR r) s P"
  by (simp add: yields_def)

lemma yields_fail_ifC: "\<not> b \<Longrightarrow> P () s \<Longrightarrow> yields S (fail_ifC b e) s P"
  by (simp add: yields_def fail_ifC_app)

lemma yields_if:
  "(b \<Longrightarrow> yields S m s P) \<Longrightarrow> (\<not> b \<Longrightarrow> yields S k s P) \<Longrightarrow> yields S (if b then m else k) s P"
  by simp

lemma bindC_vTearDown [simp]: "bindC m vTearDown = m"
  unfolding vTearDown_def [abs_def] by (rule bindC_return_right)

lemma yields_mapC:
  assumes "\<And>x s. x \<in> set xs \<Longrightarrow> yields S (f x) s (\<lambda>y t. R x y)" and "\<And>x. passes (se_now S) (f x)"
  shows "yields S (mapC f xs) s (\<lambda>ys t. list_all2 R xs ys)"
  using assms(1)
proof (induction xs arbitrary: s)
  case Nil
  then show ?case by (simp add: yields_def)
next
  case (Cons x xs)
  have rest: "yields S (mapC f xs) t (\<lambda>ys u. list_all2 R xs ys)" for t
    by (rule Cons.IH) (simp add: Cons.prems)
  have "yields S (bindC (mapC f xs) (\<lambda>ys. returnC (y # ys))) t (\<lambda>ys u. list_all2 R (x # xs) ys)" if "R x y" for y t
    by (rule yields_bindC [OF rest]) (auto intro: yields_returnC passing_intros that)
  then show ?case
    using Cons.prems [of x] assms(2) by (auto intro!: yields_bindC [of S "f x" s "\<lambda>y t. R x y"] passing_intros)
qed

lemma yields_foldC:
  assumes "\<And>b x s. x \<in> set xs \<Longrightarrow> I b \<Longrightarrow> yields S (f b x) s (\<lambda>b' t. I b')" and "\<And>b x. passes (se_now S) (f b x)"
  shows "I b \<Longrightarrow> yields S (foldC f b xs) s (\<lambda>b' t. I b')"
  using assms(1)
proof (induction xs arbitrary: b s)
  case Nil
  then show ?case by (simp add: yields_def)
next
  case (Cons x xs)
  show ?case
    unfolding foldC.simps
  proof (rule yields_bindC [OF Cons.prems(2) [OF _ Cons.prems(1)]])
    fix b' t assume "I b'"
    then show "yields S (foldC f b' xs) t (\<lambda>b' t. I b')" by (rule Cons.IH) (rule Cons.prems(2), simp_all)
  qed (auto intro: passing_intros assms(2))
qed

section \<open>Calls and variables\<close>

lemma typed_world [simp]:
  "typed S (s\<lparr>ps_world := w\<rparr>) = typed S s" "typed S (s\<lparr>ps_trace := tr\<rparr>) = typed S s"
  by (simp_all add: typed_def)

lemma yields_sysC:
  assumes "promises S Q f" and "passes (se_now S) (sysC f)"
  shows "yields S (sysC f) s (\<lambda>x t. Q x)"
proof -
  have "clock_of S s \<le> se_now S (snd (f (ps_world s)))" using assms(2) by (auto simp: passing.moves_def sysC_app dest: spec [of _ s])
  then show ?thesis
    using assms(1) unfolding yields_def promises_def under_way_def by (simp add: sysC_app)
qed

lemma yields_sysC_any: "passes (se_now S) (sysC f) \<Longrightarrow> yields S (sysC f) s (\<lambda>_ _. True)"
  by (rule yields_sysC) (simp add: promises_def)

text \<open>The calls of a lawful environment.\<close>

lemma yields_calls:
  assumes "lawful E S"
  shows "yields S (sysC (sys_Close E fd)) s (\<lambda>ret t. ret = 0)"
    and "yields S (sysC (sys_FAdvise E fd off n adv)) s (\<lambda>ret t. ret = 0)"
    and "yields S (sysC (sys_FAllocate E fd m off n)) s (\<lambda>ret t. ret = 0)"
    and "yields S (sysC (sys_FTruncate E fd n)) s (\<lambda>ret t. ret = 0)"
    and "yields S (sysC (sys_FStat E fd)) s (\<lambda>(ret, sz) t. ret \<noteq> -1 \<and> sz \<in> se_sizes S)"
    and "yields S (sysC (sys_FSync E fd)) s (\<lambda>ret t. ret = 0)"
    and "yields S (sysC (sys_Open E p f m)) s (\<lambda>ret t. ret \<noteq> -1)"
    and "yields S (sysC (sys_Read E fd c off)) s (\<lambda>(ret, bytes) t. ret \<noteq> -1)"
    and "yields S (sysC (sys_SchedSetattr E m a flags)) s (\<lambda>ret t. ret = 0)"
    and "yields S (sysC (sys_Unlink E p)) s (\<lambda>ret t. ret \<noteq> -1)"
    and "yields S (sysC (sys_Write E fd buf c off)) s (\<lambda>ret t. ret \<noteq> -1)"
    and "yields S (sysC (clock_nanosleep E ts)) s (\<lambda>ret t. ret = 0)"
    and "yields S (sysC (mmap_anon E sz)) s (\<lambda>a t. a \<noteq> None)"
    and "yields S (sysC (munmap E fd sz)) s (\<lambda>ret t. ret \<noteq> -1)"
    and "yields S (sysC (new_nothrow E n)) s (\<lambda>ok t. ok)"
    and "yields S (sysC (sched_setaffinity E cpus)) s (\<lambda>ret t. ret = 0)"
    and "length p \<le> 15 \<Longrightarrow> yields S (sysC (pthread_setname E p)) s (\<lambda>ret t. ret = 0)"
proof -
  note [passing_intros] = lawful_passes [OF assms]
  have "calls_succeed E S" using assms by (rule lawfulD)
  note c = this [unfolded calls_succeed_def]
  show "yields S (sysC (sys_FStat E fd)) s (\<lambda>(ret, sz) t. ret \<noteq> -1 \<and> sz \<in> se_sizes S)"
    using yields_sysC [of S "\<lambda>(ret, sz). ret \<noteq> -1 \<and> sz \<in> se_sizes S" "sys_FStat E fd" s] c
    by (simp add: passing_intros case_prod_beta')
  show "yields S (sysC (sys_Read E fd c off)) s (\<lambda>(ret, bytes) t. ret \<noteq> -1)"
    using yields_sysC [of S "\<lambda>(ret, bytes). ret \<noteq> -1" "sys_Read E fd c off" s] c
    by (simp add: passing_intros case_prod_beta')
qed (use assms in \<open>auto simp: lawful_def calls_succeed_def intro!: yields_sysC passing_intros\<close>)

lemma yields_int:
  assumes "se_types S k = Some Descriptor"
  shows "yields S (shared_int k) s (\<lambda>_ _. True)"
  using assms by (auto simp: yields_def under_way_def typed_def shared_int_app get_int_def split: variant.splits dest: spec [of _ k])

lemma yields_string:
  assumes "se_types S k = Some Path"
  shows "yields S (shared_string k) s (\<lambda>_ _. True)"
  using assms by (auto simp: yields_def under_way_def typed_def shared_string_app get_string_def split: variant.splits dest: spec [of _ k])

lemma typed_set:
  assumes "typed S s" and "writable S k T" and "has_type T v"
  shows "valid_key (ps_vars s) k"
    and "typed (learn S k T) (s\<lparr>ps_vars := (ps_vars s)\<lparr>sv_variables := (sv_variables (ps_vars s))[nat k := v]\<rparr>\<rparr>)"
proof -
  show k: "valid_key (ps_vars s) k" using assms(1,2) by (auto simp: typed_def writable_def valid_key_def)
  have "valid_key (ps_vars s) j \<and> has_type U ((sv_variables (ps_vars s))[nat k := v] ! nat j)"
    if "se_types (learn S k T) j = Some U" for j U
  proof (cases "j = k")
    case True
    then show ?thesis using that assms(3) k by (auto simp: learn_def valid_key_def nat_less_iff)
  next
    case False
    then have "valid_key (ps_vars s) j" "has_type U (sv_variables (ps_vars s) ! nat j)"
      using assms(1) that by (auto simp: typed_def learn_def)
    moreover have "nat k \<noteq> nat j" using False k calculation(1) by (auto simp: valid_key_def)
    ultimately show ?thesis by (simp add: valid_key_def)
  qed
  then show "typed (learn S k T) (s\<lparr>ps_vars := (ps_vars s)\<lparr>sv_variables := (sv_variables (ps_vars s))[nat k := v]\<rparr>\<rparr>)"
    using assms(1) by (auto simp: typed_def learn_def valid_key_def)
qed

lemma typed_forget: "typed (learn S k T) s \<Longrightarrow> writable S k T \<Longrightarrow> typed S s"
  unfolding typed_def
proof (elim conjE, intro conjI allI impI)
  fix j U assume w: "writable S k T" and j: "se_types S j = Some U" and t: "\<forall>k' T'. se_types (learn S k T) k' = Some T' \<longrightarrow>
      valid_key (ps_vars s) k' \<and> has_type T' (sv_variables (ps_vars s) ! nat k')"
  have "se_types (learn S k T) j = Some U" using w j by (auto simp: learn_def writable_def)
  then show "valid_key (ps_vars s) j" "has_type U (sv_variables (ps_vars s) ! nat j)" using t by blast+
qed (simp_all add: learn_def)

lemma learn_simps [simp]:
  "se_now (learn S k T) = se_now S" "se_start (learn S k T) = se_start S" "se_end (learn S k T) = se_end S"
  "se_path (learn S k T) = se_path S" "se_sizes (learn S k T) = se_sizes S" "se_work (learn S k T) = se_work S"
  "se_types (learn S k T) = (se_types S)(k \<mapsto> T)" "se_vars (learn S k T) = se_vars S"
  by (simp_all add: learn_def)

text \<open>
  A session in which more is known. What ends well with more knowledge ends well with less, and the knowledge
  is there at the end.
\<close>

definition richer :: "'w session \<Rightarrow> 'w session \<Rightarrow> bool" where
  "richer R S \<longleftrightarrow> (\<exists>T. R = S\<lparr>se_types := T\<rparr>) \<and> (\<forall>s. typed R s \<longrightarrow> typed S s)"

lemma richer_refl [simp]: "richer S S"
  by (auto simp: richer_def intro: exI [of _ "se_types S"])

lemma richer_trans: "richer Q R \<Longrightarrow> richer R S \<Longrightarrow> richer Q S"
  by (force simp: richer_def)

lemma richer_learn: "writable S k T \<Longrightarrow> richer (learn S k T) S"
  unfolding richer_def by (auto simp: learn_def intro: typed_forget [unfolded learn_def])

lemma richer_typed: "richer R S \<Longrightarrow> typed R s \<Longrightarrow> typed S s"
  by (simp add: richer_def)

lemma richer_same:
  assumes "richer R S"
  shows "lawful E R = lawful E S" "se_now R = se_now S" "se_start R = se_start S" "se_end R = se_end S"
proof -
  obtain T where R: "R = S\<lparr>se_types := T\<rparr>" using assms by (auto simp: richer_def)
  have sel: "se_now R = se_now S" "se_start R = se_start S" "se_end R = se_end S" "se_work R = se_work S"
      "se_sizes R = se_sizes S" "se_entries R = se_entries S" "se_taken R = se_taken S"
    by (simp_all add: R)
  show "lawful E R = lawful E S"
    unfolding lawful_def clocks_advance_def calls_succeed_def directories_end_def names_free_def promises_def sel ..
  show "se_now R = se_now S" "se_start R = se_start S" "se_end R = se_end S" by (rule sel)+
qed

lemma lawful_richer: "lawful E S \<Longrightarrow> richer R S \<Longrightarrow> lawful E R"
  by (simp add: richer_same(1))

lemma yields_richer:
  assumes "yields R m s P" and "richer R S" and "typed R s"
  shows "yields S m s (\<lambda>x t. P x t \<and> typed R t)"
  unfolding yields_def
proof (intro impI)
  assume s: "under_way S s" and e: "clock_of S (snd (m s)) < se_end S"
  note same = richer_same(2-4) [OF assms(2)]
  have "under_way R s" using s assms(3) by (simp add: under_way_def same)
  from yieldsD [OF assms(1) this] e
  show "\<exists>x t. m s = (Inr x, t) \<and> under_way S t \<and> clock_of S s \<le> clock_of S t \<and> P x t \<and> typed R t"
    by (auto simp: under_way_def same intro: richer_typed [OF assms(2)])
qed

lemma yields_keep:
  assumes "yields S m s P" and "yields R m s Q" and "richer R S"
  shows "yields S m s (\<lambda>x t. P x t \<and> (typed R s \<longrightarrow> typed R t))"
proof (cases "typed R s")
  case True
  from assms(1) yields_richer [OF assms(2,3) True] show ?thesis unfolding yields_def by fastforce
qed (use assms(1) in simp)

lemma yields_set:
  assumes "writable S k T" and "has_type T v"
  shows "yields S (varsC (SetVar k v)) s (\<lambda>_ t. typed (learn S k T) t)"
  using typed_set [OF _ assms, of s] richer_typed [OF richer_learn [OF assms(1)]]
  by (auto simp: yields_def under_way_def varsC_def SetVar_def)

lemma yields_mark: "yields S (write_mark E msg) s (\<lambda>_ t. ps_world t = ps_world s)"
  by (simp add: yields_def write_mark_app under_way_def)

lemma yields_list:
  assumes "se_types S k = Some Paths"
  shows "yields S (varsC (Get k)) s (\<lambda>v _. \<exists>xs. v = VList xs \<and> xs \<noteq> [] \<and> length xs \<le> 2 ^ 31)"
  using assms by (force simp: yields_def under_way_def typed_def)

end
