(* ===== verification/Leaf_Contracts.thy ===== *)
theory Leaf_Contracts
  imports Contract
begin

text \<open>
  The base class and the leaves in a session: \<open>leaf_fine\<close> says what the fields of an object have to be, the
  keys of the right type and the sizes in range; the methods of a fine object end well and leave a fine
  object. With a period or an offset, \<open>ticks\<close> bounds how far the next wake-ups can be.
\<close>

section \<open>The base class\<close>

text \<open>Periods and offsets whose wake-ups are in the range of the clock.\<close>

definition timely :: "ibase \<Rightarrow> bool" where
  "timely b \<longleftrightarrow> uint (ib_offset_us b) < 2 ^ 33 * 1000000 \<and> uint (ib_period_us b) < 2 ^ 33 * 1000000 \<and>
     1000 * (uint (ib_offset_us b) + int (nat (ib_repeat b)) * uint (ib_period_us b)) < 2 ^ 60 * 1000000000"

text \<open>A base class that has measured only durations in the range of a session.\<close>

definition base_ok :: "ibase \<Rightarrow> bool" where
  "base_ok b \<longleftrightarrow> (is_timed b \<longrightarrow> timely b) \<and> (\<forall>d \<in> set (ts_samples (ib_sampler b)). small_ts d)"

definition started :: "'w session \<Rightarrow> ibase \<Rightarrow> 'w pstate \<Rightarrow> bool" where
  "started S b s \<longleftrightarrow> normal_ts (ts_start (ib_sampler b)) \<and> se_start S \<le> nanos (ts_start (ib_sampler b)) \<and>
     nanos (ts_start (ib_sampler b)) \<le> clock_of S s"

text \<open>\<open>n\<close> more wake-ups are in range.\<close>

definition ticks :: "nat \<Rightarrow> ibase \<Rightarrow> bool" where
  "ticks n b \<longleftrightarrow> (is_timed b \<longrightarrow> normal_ts (ib_next_wakeup b) \<and>
     nanos (ib_next_wakeup b) + 1000 * (int n * uint (ib_period_us b)) < 2 ^ 61 * 1000000000)"

abbreviation ticked :: "ibase \<Rightarrow> bool" where
  "ticked b \<equiv> ticks (nat (ib_repeat b)) b"

lemma ticks_untimed: "\<not> is_timed b \<Longrightarrow> ticks n b"
  by (simp add: ticks_def)

lemma add_micros_in_range:
  assumes "normal_ts t" and "uint us < 2 ^ 33 * 1000000" and "nanos t + 1000 * uint us < 2 ^ 61 * 1000000000"
  shows "\<exists>v. add_micros t us = Inr v \<and> nanos v = nanos t + 1000 * uint us \<and> normal_ts v"
proof -
  obtain v where v: "add_micros t us = Inr v" "nanos v = nanos t + 1000 * uint us" "0 \<le> tv_sec v" "0 \<le> tv_nsec v"
      "tv_nsec v < 1000000000"
    using add_micros_nanos [OF assms(1,2)] by blast
  then have "normal_ts v" using assms(3) by (auto simp: normal_ts_def nanos_def)
  with v show ?thesis by blast
qed

lemma yields_read_clock:
  assumes "lawful E S"
  shows "yields S (read_clock E old) s (\<lambda>t u. normal_ts t \<and> se_start S \<le> nanos t \<and> clock_of S s \<le> nanos t \<and>
    nanos t \<le> clock_of S u \<and> nanos t < se_end S)"
proof -
  let ?c = "clock_gettime E CLOCK_MONOTONIC (ps_world s)"
  have "\<exists>t w'. ?c = ((0, t), w') \<and> normal_ts t \<and> clock_of S s \<le> nanos t \<and> nanos t \<le> se_now S w'" if "se_now S (snd ?c) < se_end S"
    using lawfulD(1) [OF assms] that unfolding clocks_advance_def by blast
  then show ?thesis
    by (auto simp: yields_def read_clock_def bindC_app sysC_app under_way_def case_prod_beta')
qed

lemma yields_SetUp:
  assumes "lawful E S" and "base_ok b"
  shows "yields S (Instruction_SetUp E b) s (\<lambda>b' t. base_ok b' \<and> ticked b' \<and> same_params b b' \<and> ib_sampler b' = ib_sampler b)"
proof (cases "is_timed b")
  case True
  then have t: "timely b" using assms(2) by (simp add: base_ok_def)
  have ok: "base_ok (b\<lparr>ib_next_wakeup := w\<rparr>)" "same_params b (b\<lparr>ib_next_wakeup := w\<rparr>)" for w
    using assms(2) by (simp_all add: base_ok_def is_timed_def timely_def same_params_def)
  have tick: "ticked (b\<lparr>ib_next_wakeup := w\<rparr>)"
    if "normal_ts w" "nanos w \<le> 2 ^ 60 * 1000000000 + 1000 * uint (ib_offset_us b)" for w
    using t that by (auto simp: ticks_def timely_def distrib_left)
  have "yields S (if ib_offset_us b = 0 then returnC (b\<lparr>ib_next_wakeup := now\<rparr>)
      else bindC (liftR (add_micros now (ib_offset_us b))) (\<lambda>w. returnC (b\<lparr>ib_next_wakeup := w\<rparr>))) u
      (\<lambda>b' t. base_ok b' \<and> ticked b' \<and> same_params b b' \<and> ib_sampler b' = ib_sampler b)"
    if n: "normal_ts now" "nanos now < se_end S" for now u
  proof -
    have n60: "nanos now < 2 ^ 60 * 1000000000" using n(2) lawfulD(7) [OF assms(1)] by simp
    moreover have "0 \<le> int (nat (ib_repeat b)) * uint (ib_period_us b)" by simp
    ultimately have "nanos now + 1000 * uint (ib_offset_us b) < 2 ^ 61 * 1000000000"
      using t unfolding timely_def by (simp add: distrib_left)
    then obtain w where "add_micros now (ib_offset_us b) = Inr w" "nanos w = nanos now + 1000 * uint (ib_offset_us b)" "normal_ts w"
      using add_micros_in_range [OF n(1)] t by (auto simp: timely_def)
    then show ?thesis
      using ok tick n(1) n60 by (auto simp: yields_def bindC_app)
  qed
  then show ?thesis
    unfolding Instruction_SetUp_def using True
    by (auto intro!: yields_bindC [OF yields_read_clock [OF assms(1)]] passing_intros)
next
  case False
  then show ?thesis using assms(2) by (simp add: Instruction_SetUp_def yields_def ticks_untimed)
qed

lemma yields_wait:
  assumes "lawful E S" and "base_ok b" and "ticks (Suc n) b"
  shows "yields S (wait_wakeup E b) s (\<lambda>b' t. base_ok b' \<and> ticks n b' \<and> same_params b b' \<and> ib_sampler b' = ib_sampler b)"
proof (cases "is_timed b")
  case True
  then have t: "timely b" "normal_ts (ib_next_wakeup b)"
      "nanos (ib_next_wakeup b) + 1000 * (int (Suc n) * uint (ib_period_us b)) < 2 ^ 61 * 1000000000"
    using assms(2,3) by (auto simp: base_ok_def ticks_def)
  moreover have "1000 * (int (Suc n) * uint (ib_period_us b)) =
      1000 * uint (ib_period_us b) + 1000 * (int n * uint (ib_period_us b))" by (simp add: algebra_simps)
  moreover have "0 \<le> 1000 * (int n * uint (ib_period_us b))" by simp
  ultimately have "nanos (ib_next_wakeup b) + 1000 * uint (ib_period_us b) < 2 ^ 61 * 1000000000" by linarith
  then obtain w where w: "add_micros (ib_next_wakeup b) (ib_period_us b) = Inr w"
      "nanos w = nanos (ib_next_wakeup b) + 1000 * uint (ib_period_us b)" "normal_ts w"
    using add_micros_in_range [OF t(2)] t(1) by (auto simp: timely_def)
  have "base_ok (b\<lparr>ib_next_wakeup := w\<rparr>) \<and> ticks n (b\<lparr>ib_next_wakeup := w\<rparr>) \<and> same_params b (b\<lparr>ib_next_wakeup := w\<rparr>)"
    using assms(2) t(3) w(2,3)
    by (simp add: base_ok_def is_timed_def timely_def same_params_def ticks_def algebra_simps)
  then show ?thesis
    unfolding wait_wakeup_def w(1) using True
    by (simp only: not_True_eq_False if_False)
      (rule yields_bindC [OF yields_calls(12) [OF assms(1)]];
       auto simp: yields_def bindC_app fail_ifC_app intro!: passing_intros)
next
  case False
  then show ?thesis using assms(2) by (simp add: wait_wakeup_def yields_def ticks_untimed)
qed

lemma yields_SetUpSingle:
  assumes "lawful E S" and "base_ok b" and "ticks (Suc n) b"
  shows "yields S (Instruction_SetUpSingle E b) s
    (\<lambda>b' t. base_ok b' \<and> started S b' t \<and> ticks n b' \<and> same_params b b' \<and>
       ts_samples (ib_sampler b') = ts_samples (ib_sampler b))"
  unfolding Instruction_SetUpSingle_def
proof (rule yields_bindC [OF yields_wait [OF assms]], elim conjE)
  fix b' t assume b': "base_ok b'" "ticks n b'" "same_params b b'" "ib_sampler b' = ib_sampler b"
  have start: "yields S (MeasureStart E (ib_sampler b')) u (\<lambda>ts t. normal_ts (ts_start ts) \<and> se_start S \<le> nanos (ts_start ts) \<and>
      nanos (ts_start ts) \<le> clock_of S t \<and> ts_samples ts = ts_samples (ib_sampler b))" for u
    unfolding MeasureStart_def
    by (rule yields_bindC [OF yields_read_clock [OF assms(1)]]) (auto intro: yields_returnC passing_intros simp: b'(4))
  have "yields S (bindC (MeasureStart E (ib_sampler b')) (\<lambda>ts. returnC (b'\<lparr>ib_sampler := ts\<rparr>))) u
    (\<lambda>b' t. base_ok b' \<and> started S b' t \<and> ticks n b' \<and> same_params b b' \<and>
       ts_samples (ib_sampler b') = ts_samples (ib_sampler b))" for u
    by (rule yields_bindC [OF start]) (use b' in \<open>auto intro!: yields_returnC passing_intros
        simp: base_ok_def is_timed_def timely_def started_def ticks_def same_params_def\<close>)
  then show "yields S (bindC (Tracer_Start E (ib_name b)) (\<lambda>_.
      bindC (MeasureStart E (ib_sampler b')) (\<lambda>ts. returnC (b'\<lparr>ib_sampler := ts\<rparr>)))) t
    (\<lambda>b' t. base_ok b' \<and> started S b' t \<and> ticks n b' \<and> same_params b b' \<and>
       ts_samples (ib_sampler b') = ts_samples (ib_sampler b))"
    unfolding Tracer_Start_def MeasureStart_def read_clock_def
    by (rule yields_bindC [OF yields_mark]) (auto intro!: passing_intros assms(1))
qed (auto simp: MeasureStart_def read_clock_def intro!: passing_intros assms(1))

lemma yields_TearDownSingle:
  assumes "lawful E S" and "base_ok b" and "started S b s"
  shows "yields S (Instruction_TearDownSingle E l b) s
    (\<lambda>b' t. base_ok b' \<and> (\<forall>n. ticks n b \<longrightarrow> ticks n b') \<and> same_params b b' \<and>
       (\<exists>d. small_ts d \<and> ts_samples (ib_sampler b') = ts_samples (ib_sampler b) @ [d]))"
proof -
  have "yields S (MeasureEnd E (ib_sampler b)) s (\<lambda>ts t. \<exists>d. small_ts d \<and> ts_samples ts = ts_samples (ib_sampler b) @ [d])"
    unfolding MeasureEnd_def
  proof (rule yields_bindC [OF yields_read_clock [OF assms(1)]], elim conjE)
    fix now' u assume t: "normal_ts now'" "clock_of S s \<le> nanos now'" "nanos now' < se_end S"
    then have "\<not> nanos now' < nanos (ts_start (ib_sampler b))" using assms(3) by (simp add: started_def)
    then obtain d where d: "timespec_minus now' (ts_start (ib_sampler b)) = Inr d" "normal_ts d"
        "nanos d = nanos now' - nanos (ts_start (ib_sampler b))"
      using timespec_minus_normal [OF t(1), of "ts_start (ib_sampler b)"] assms(3) by (auto simp: started_def)
    have "nanos d < 2 ^ 23 * 1000000000"
      using d(3) t(3) lawfulD(6) [OF assms(1)] assms(3) by (simp add: started_def)
    then have "small_ts d" using d(2) by (auto simp: small_ts_def normal_ts_def nanos_def)
    then show "yields S (bindC (liftR (timespec_minus now' (ts_start (ib_sampler b)))) (\<lambda>d.
        returnC ((ib_sampler b)\<lparr>ts_end := now', ts_samples := ts_samples (ib_sampler b) @ [d]\<rparr>))) u
        (\<lambda>ts t. \<exists>d. small_ts d \<and> ts_samples ts = ts_samples (ib_sampler b) @ [d])"
      using d(1) by (auto simp: yields_def bindC_app)
  qed (auto intro!: passing_intros)
  then show ?thesis
    using assms(2) unfolding Instruction_TearDownSingle_def Tracer_End_def
    by (auto simp: base_ok_def is_timed_def timely_def ticks_def same_params_def
        intro!: yields_returnC yields_bindC [OF yields_mark] passing_intros elim!: yields_bindC)
qed

section \<open>The leaves\<close>

text \<open>
  The blocks and sizes of a reader or a writer for every size a file can have. The methods of these
  classes do not set the wake-up time, so they have to be without a period and an offset.
\<close>

definition rw_fits :: "'w session \<Rightarrow> 'g rw_file \<Rightarrow> bool" where
  "rw_fits S f \<longleftrightarrow> se_types S (rw_input_fd_key f) = Some Descriptor \<and>
     (\<forall>F \<in> se_sizes S. let g = update_sizes F f in
        0 < rw_block_size g \<and> rw_block_size g \<le> F \<and> 0 \<le> rw_size g \<and> in_i64 (rw_size g) \<and>
        (rw_access_order g = kRandom \<longrightarrow> 0 \<le> narrow32 (F - rw_block_size g)))"

fun leaf_fine :: "'w session \<Rightarrow> ibase \<Rightarrow> 'g leaf \<Rightarrow> bool" where
  "leaf_fine S b (OpenFile f) \<longleftrightarrow> (of_random_name f \<longrightarrow> se_types S (se_path S) = Some Path) \<and>
     (of_input_key f \<noteq> -1 \<longrightarrow> se_types S (of_input_key f) = Some Path) \<and>
     (of_output_fd_key f \<noteq> -1 \<longrightarrow> writable S (of_output_fd_key f) Descriptor)"
| "leaf_fine S b (CloseFile key) \<longleftrightarrow> se_types S key = Some Descriptor"
| "leaf_fine S b (DeleteFile f) \<longleftrightarrow> (df_input_key f \<noteq> -1 \<longrightarrow> se_types S (df_input_key f) = Some Path)"
| "leaf_fine S b (ResizeFile f) \<longleftrightarrow> se_types S (rf_input_fd_key f) = Some Descriptor"
| "leaf_fine S b (ResizeFileRandom f) \<longleftrightarrow>
     se_types S (rf_input_fd_key f) = Some Descriptor \<and> narrow32 (rf_min f) \<le> narrow32 (rf_max f)"
| "leaf_fine S b (WriteFile fsync f) \<longleftrightarrow> \<not> is_timed b \<and> rw_fits S f"
| "leaf_fine S b (ReadFile fadvise f) \<longleftrightarrow> \<not> is_timed b \<and> rw_fits S f"
| "leaf_fine S b (ReadDirectory f) \<longleftrightarrow> writable S (rd_output_key f) Paths"
| "leaf_fine S b InvalidateCache \<longleftrightarrow> True"
| "leaf_fine S b (CpuWorkCycles n) \<longleftrightarrow> True"
| "leaf_fine S b (CpuWorkUtilization t) \<longleftrightarrow> normal_ts t \<and> nanos t \<le> se_work S"
| "leaf_fine S b (CpuWorkDurationUs t) \<longleftrightarrow> normal_ts t \<and> nanos t \<le> se_work S"
| "leaf_fine S b (MemoryAllocation f) \<longleftrightarrow> True"
| "leaf_fine S b (Lock m) \<longleftrightarrow> False"
| "leaf_fine S b (Unlock m) \<longleftrightarrow> False"

definition fine :: "'w session \<Rightarrow> ibase \<times> 'g leaf \<Rightarrow> bool" where
  "fine S ob \<longleftrightarrow> base_ok (fst ob) \<and> leaf_fine S (fst ob) (snd ob)"

lemma leaf_fine_params: "leaf_fine S b k \<Longrightarrow> same_params b b' \<Longrightarrow> leaf_fine S b' k"
  by (cases k) (simp_all add: same_params_timed)

lemma yields_inherit:
  assumes "yields S (m b) s (\<lambda>b' t. P (b', k) t)"
  shows "yields S (inherit m (b, k)) s P"
  unfolding inherit_def prod.case by (rule yields_bindC [OF assms]) (auto intro: yields_returnC passing_intros)

lemma yields_leafC:
  assumes "yields S (m (b, f)) s (\<lambda>ob t. P (fst ob, C (snd ob)) t)"
  shows "yields S (leafC C m b f) s P"
  unfolding leafC_def by (rule yields_bindC [OF assms]) (auto intro: yields_returnC passing_intros)

lemma yields_leafC_method:
  assumes "yields S (m (b, f)) s Q" and "\<And>b' f' t. Q (b', f') t \<Longrightarrow> P (b', C f') t"
  shows "yields S (leafC C m b f) s P"
  by (rule yields_leafC, rule yields_weaken [OF assms(1)]) (auto intro: assms(2) simp: split_paired_all)

lemma yields_run_work:
  assumes "yields S w s (\<lambda>_ _. True)"
  shows "yields S (run_work w b) s (\<lambda>b' t. b' = b)"
  unfolding run_work_def by (rule yields_bindC [OF assms]) (auto intro: yields_returnC passing_intros)

subsection \<open>Files\<close>

lemma yields_GetFileSize:
  assumes "lawful E S"
  shows "yields S (GetFileSize E fd) s (\<lambda>F t. F \<in> se_sizes S)"
  unfolding GetFileSize_def
  by (rule yields_bindC [OF yields_calls(5) [OF assms]]) (auto intro!: yields_returnC passing_intros)

lemma rw_fits_update: "rw_fits S f \<Longrightarrow> rw_fits S (update_sizes F f)"
  by (simp add: rw_fits_def update_sizes_def Let_def cong: if_cong split del: if_split)

lemma rw_fits_cong:
  "rw_fits S f \<Longrightarrow> rw_input_fd_key g = rw_input_fd_key f \<Longrightarrow> rw_size g = rw_size f \<Longrightarrow> rw_block_size g = rw_block_size f \<Longrightarrow>
     rw_update_size g = rw_update_size f \<Longrightarrow> rw_update_block_size g = rw_update_block_size f \<Longrightarrow>
     rw_access_order g = rw_access_order f \<Longrightarrow> rw_fits S g"
  by (simp add: rw_fits_def update_sizes_def Let_def cong: if_cong split del: if_split)

lemma yields_check_block: "bs \<le> F \<Longrightarrow> yields S (check_block E fd bs F) s (\<lambda>_ _. True)"
  by (simp add: check_block_def yields_def)

lemma yields_allocate_buffer:
  assumes "lawful E S" and "0 \<le> n"
  shows "yields S (allocate_buffer E n) s (\<lambda>_ _. True)"
  unfolding allocate_buffer_def using assms(2)
  by (simp only: not_less [symmetric] if_False)
    (rule yields_bindC [OF yields_calls(15) [OF assms(1)]]; auto intro!: yields_returnC passing_intros)

lemma make_units_succeeds:
  assumes "0 < rw_block_size f" and "0 \<le> rw_size f" and "in_i64 (rw_size f)"
    and "rw_access_order f = kRandom \<longrightarrow> 0 \<le> narrow32 (F - rw_block_size f)"
  shows "\<exists>f'. make_units E F f = Inr f'"
  using assms div64_pos [OF assms(2,1,3)]
  by (cases "rw_access_order f") (auto simp: make_units_def Let_def case_prod_beta)

lemma make_units_fits: "make_units E F f = Inr f' \<Longrightarrow> rw_fits S f \<Longrightarrow> rw_fits S f'"
  by (erule rw_fits_cong)
    (auto simp: make_units_def bindR_Inr_iff Let_def case_prod_beta split: order_kind.splits if_splits)

lemma yields_ReadWriteFile_SetUpSingle:
  assumes "lawful E S" and "base_ok b" and "ticks (Suc n) b" and "rw_fits S f"
  shows "yields S (ReadWriteFile_SetUpSingle E (b, f)) s
    (\<lambda>(b', f') t. base_ok b' \<and> started S b' t \<and> ticks n b' \<and> same_params b b' \<and> rw_fits S f')"
proof -
  let ?P = "\<lambda>(b', f' :: 'b rw_file) t. base_ok b' \<and> started S b' t \<and> ticks n b' \<and> same_params b b' \<and> rw_fits S f'"
  let ?seeded = "\<lambda>f. if rw_reseeding f = kEachCycle then f\<lparr>rw_gen := rng_seed E (rw_seed f)\<rparr> else f"
  have units: "yields S (bindC (liftR (make_units E F (?seeded (update_sizes F f\<lparr>rw_buffer := buf\<rparr>)))) (\<lambda>f4.
      bindC (Instruction_SetUpSingle E b) (\<lambda>b'. returnC (b', f4)))) t ?P" if F: "F \<in> se_sizes S" for F buf t
  proof -
    let ?f3 = "?seeded (update_sizes F f\<lparr>rw_buffer := buf\<rparr>)"
    have "rw_block_size ?f3 = rw_block_size (update_sizes F f)" "rw_size ?f3 = rw_size (update_sizes F f)"
        "rw_access_order ?f3 = rw_access_order (update_sizes F f)"
      by simp_all
    moreover have "0 < rw_block_size (update_sizes F f)" "0 \<le> rw_size (update_sizes F f)"
        "in_i64 (rw_size (update_sizes F f))"
        "rw_access_order (update_sizes F f) = kRandom \<longrightarrow> 0 \<le> narrow32 (F - rw_block_size (update_sizes F f))"
      using assms(4) F unfolding rw_fits_def Let_def by blast+
    ultimately obtain f4 where f4: "make_units E F ?f3 = Inr f4"
      using make_units_succeeds [of ?f3 F E] by metis
    have "rw_fits S ?f3" by (rule rw_fits_cong [OF rw_fits_update [OF assms(4), of F]]) simp_all
    then have fits: "rw_fits S f4" by (rule make_units_fits [OF f4])
    show ?thesis
      unfolding f4 by (rule yields_bindC [OF yields_liftR [OF refl, of "\<lambda>x _. x = f4"]])
        (use fits in \<open>auto intro!: yields_bindC [OF yields_SetUpSingle [OF assms(1-3)]] yields_returnC passing_intros assms(1)\<close>)
  qed
  have F: "rw_block_size (update_sizes F f) \<le> F" "0 \<le> rw_block_size (update_sizes F f)" if "F \<in> se_sizes S" for F
    using assms(4) that unfolding rw_fits_def Let_def by fastforce+
  have key: "se_types S (rw_input_fd_key f) = Some Descriptor" using assms(4) by (simp add: rw_fits_def)
  show ?thesis
    unfolding ReadWriteFile_SetUpSingle_def prod.case
  proof (rule yields_bindC [OF yields_int [OF key]], rule yields_bindC [OF yields_GetFileSize [OF assms(1)]])
    fix fd F t assume "F \<in> se_sizes S"
    note F = F [OF this] and units = units [OF this]
    show "yields S (let f1 = update_sizes F f in
        bindC (check_block E fd (rw_block_size f1) F) (\<lambda>_.
        bindC (allocate_buffer E (rw_block_size f1)) (\<lambda>buf.
        let f2 = f1\<lparr>rw_buffer := buf\<rparr>;
            f3 = (if rw_reseeding f2 = kEachCycle then f2\<lparr>rw_gen := rng_seed E (rw_seed f2)\<rparr> else f2) in
        bindC (liftR (make_units E F f3)) (\<lambda>f4.
        bindC (Instruction_SetUpSingle E b) (\<lambda>b'. returnC (b', f4)))))) t ?P"
      unfolding Let_def
      by (rule yields_bindC [OF yields_check_block [OF F(1)]], rule yields_bindC [OF yields_allocate_buffer [OF assms(1) F(2)]])
        (use units in \<open>auto intro!: passing_intros assms(1)\<close>)
  qed (auto simp: Let_def intro!: passing_intros assms(1))
qed

lemma Bandwidth_small: "small_ts d \<Longrightarrow> \<exists>bw. Bandwidth_Measure n d = Inr bw"
  by (simp add: Bandwidth_Measure_def TimespecToNanos_small Let_def)

lemma yields_ReadWriteFile_TearDownSingle:
  assumes "lawful E S" and "base_ok b" and "started S b s" and "rw_fits S f"
  shows "yields S (ReadWriteFile_TearDownSingle E l (b, f)) s
    (\<lambda>(b', f') t. base_ok b' \<and> (\<forall>n. ticks n b \<longrightarrow> ticks n b') \<and> same_params b b' \<and> rw_fits S f')"
  unfolding ReadWriteFile_TearDownSingle_def prod.case
proof (rule yields_bindC [OF yields_TearDownSingle [OF assms(1-3)]], elim exE conjE)
  fix b' t d assume b': "base_ok b'" "\<forall>n. ticks n b \<longrightarrow> ticks n b'" "same_params b b'" "small_ts d"
    "ts_samples (ib_sampler b') = ts_samples (ib_sampler b) @ [d]"
  then obtain bw where "Bandwidth_Measure (to_u64 (rw_size f)) (last (ts_samples (ib_sampler b'))) = Inr bw"
    using Bandwidth_small by fastforce
  moreover have "rw_fits S (f\<lparr>rw_bandwidth := rw_bandwidth f @ [bw]\<rparr>)" by (rule rw_fits_cong [OF assms(4)]) simp_all
  ultimately show "yields S (bindC (liftR (Bandwidth_Measure (to_u64 (rw_size f)) (last (ts_samples (ib_sampler b')))))
      (\<lambda>bw. returnC (b', f\<lparr>rw_bandwidth := rw_bandwidth f @ [bw]\<rparr>))) t
      (\<lambda>(b', f') t. base_ok b' \<and> (\<forall>n. ticks n b \<longrightarrow> ticks n b') \<and> same_params b b' \<and> rw_fits S f')"
    using b' by (simp add: yields_def bindC_app)
qed (auto intro!: passing_intros)

lemma yields_WriteFile_RunSingle:
  assumes "lawful E S" and "rw_fits S f"
  shows "yields S (WriteFile_RunSingle E fsync (b, f)) s (\<lambda>(b', f') t. b' = b \<and> rw_fits S f')"
proof -
  have key: "se_types S (rw_input_fd_key f) = Some Descriptor" using assms(2) by (simp add: rw_fits_def)
  have unit: "yields S (write_unit E fd buf u) s (\<lambda>_ t. True)" for fd buf u s
    unfolding write_unit_def
    by (rule yields_bindC [OF yields_calls(11) [OF assms(1)]]) (auto intro!: yields_fail_ifC passing_intros)
  have loop: "yields S (foldC (\<lambda>_. write_unit E fd (rw_buffer f)) () (rw_units f)) s (\<lambda>_ t. True)" for fd s
    by (rule yields_foldC) (auto intro!: unit passing_intros assms(1))
  have sync: "yields S (if fsync then bindC (sysC (sys_FSync E fd)) (\<lambda>ret.
      fail_ifC (ret \<noteq> 0) (Logf ''Error while calling fsync()'')) else returnC ()) s (\<lambda>_ t. True)" for fd s
    by (intro yields_if yields_bindC [OF yields_calls(6) [OF assms(1)]])
      (auto intro!: yields_returnC yields_fail_ifC passing_intros)
  show ?thesis
    unfolding WriteFile_RunSingle_def prod.case
    by (rule yields_bindC [OF yields_int [OF key]], rule yields_bindC [OF loop], rule yields_bindC [OF sync])
      (auto intro!: yields_returnC passing_intros assms)
qed

lemma yields_ReadFile_SetUpSingle:
  assumes "lawful E S" and "base_ok b" and "ticks (Suc n) b" and "rw_fits S f"
  shows "yields S (ReadFile_SetUpSingle E fadvise (b, f)) s
    (\<lambda>(b', f') t. base_ok b' \<and> started S b' t \<and> ticks n b' \<and> same_params b b' \<and> rw_fits S f')"
proof -
  have key: "se_types S (rw_input_fd_key f) = Some Descriptor" using assms(4) by (simp add: rw_fits_def)
  show ?thesis
    unfolding ReadFile_SetUpSingle_def fst_conv snd_conv
    by (rule yields_bindC [OF yields_int [OF key]], rule yields_bindC [OF yields_GetFileSize [OF assms(1)]],
        rule yields_bindC [OF yields_calls(2) [OF assms(1)]], rule yields_bindC [OF yields_fail_ifC [where P = "\<lambda>_ _. True"]])
      (auto intro!: yields_ReadWriteFile_SetUpSingle passing_intros assms)
qed

lemma yields_ReadFile_RunSingle:
  assumes "lawful E S" and "rw_fits S f"
  shows "yields S (ReadFile_RunSingle E (b, f)) s (\<lambda>(b', f') t. b' = b \<and> rw_fits S f')"
proof -
  have key: "se_types S (rw_input_fd_key f) = Some Descriptor" using assms(2) by (simp add: rw_fits_def)
  have unit: "yields S (read_unit E fd buf u) s (\<lambda>_ t. True)" for fd buf u s
    unfolding read_unit_def
    by (rule yields_bindC [OF yields_calls(8) [OF assms(1)]]) (auto intro!: yields_returnC passing_intros)
  have loop: "yields S (foldC (read_unit E fd) (rw_buffer f) (rw_units f)) s (\<lambda>_ t. True)" for fd s
    by (rule yields_foldC) (auto intro!: unit passing_intros assms(1))
  have fits: "rw_fits S (f\<lparr>rw_buffer := buf\<rparr>)" for buf by (rule rw_fits_cong [OF assms(2)]) simp_all
  show ?thesis
    unfolding ReadFile_RunSingle_def prod.case
    by (rule yields_bindC [OF yields_int [OF key]], rule yields_bindC [OF loop])
      (auto intro!: yields_returnC passing_intros assms(1) fits)
qed

lemma names_loop:
  assumes "holds_string (ps_path_key s) base s" and "\<And>w. fst (sys_Access E (base @ show_int (nth_name E n g)) 0 w) = -1"
  shows "\<exists>q g' w. do_whileC (draw_name E) (p, g, s) = (Inr (), (q, g', s\<lparr>ps_world := w\<rparr>))"
  using assms
proof (induction n arbitrary: p g s)
  case 0
  let ?q = "base @ show_int (nth_name E 0 g)"
  have "draw_name E (p, g, s) = (Inr False, (?q, snd (rng_draw E 100000000 900000000 g),
      s\<lparr>ps_world := snd (sys_Access E ?q 0 (ps_world s))\<rparr>))"
    using shared_string_holds [OF 0(1)] 0(2)
    by (simp add: draw_name_def GetAbsolutePath_def bindC_def FileExists_def sysC_app case_prod_beta Let_def)
  from do_whileC_stop [where body = "draw_name E", OF this] show ?case by blast
next
  case (Suc n)
  let ?q = "base @ show_int (nth_name E 0 g)" and ?g = "snd (rng_draw E 100000000 900000000 g)"
  let ?s = "s\<lparr>ps_world := snd (sys_Access E ?q 0 (ps_world s))\<rparr>"
  have step: "draw_name E (p, g, s) = (Inr (fst (sys_Access E ?q 0 (ps_world s)) \<noteq> -1), (?q, ?g, ?s))"
    using shared_string_holds [OF Suc.prems(1)]
    by (simp add: draw_name_def GetAbsolutePath_def bindC_def FileExists_def sysC_app case_prod_beta Let_def)
  obtain q g' w where rest: "do_whileC (draw_name E) (?q, ?g, ?s) = (Inr (), (q, g', ?s\<lparr>ps_world := w\<rparr>))"
    using Suc.IH [of ?s ?g ?q] Suc.prems by auto
  show ?case
  proof (cases "fst (sys_Access E ?q 0 (ps_world s)) = -1")
    case True
    then have "draw_name E (p, g, s) = (Inr False, (?q, ?g, ?s))" using step by simp
    from do_whileC_stop [where body = "draw_name E", OF this] show ?thesis by blast
  next
    case False
    then have "draw_name E (p, g, s) = (Inr True, (?q, ?g, ?s))" using step by simp
    from do_whileC_again [where body = "draw_name E", OF this rest] show ?thesis
      by (intro exI [of _ q] exI [of _ g'] exI [of _ w]) simp
  qed
qed

lemma yields_random_path:
  assumes "lawful E S" and "se_types S (se_path S) = Some Path"
  shows "yields S (random_path E f) s (\<lambda>f' t. of_input_key f' = of_input_key f \<and> of_random_name f' = of_random_name f \<and>
    of_output_fd_key f' = of_output_fd_key f)"
proof -
  have passes: "passes (se_now S) (random_path E f)" by (intro passing_intros) (rule assms(1))
  have "\<exists>f' w. random_path E f s = (Inr f', s\<lparr>ps_world := w\<rparr>) \<and> of_input_key f' = of_input_key f \<and>
      of_random_name f' = of_random_name f \<and> of_output_fd_key f' = of_output_fd_key f" if t: "typed S s"
  proof -
    obtain base where base: "holds_string (ps_path_key s) base s"
      using t assms(2) by (force simp: typed_def holds_string_def)
    obtain n where n: "base @ show_int (nth_name E n (of_gen f)) \<notin> se_taken S"
      using lawfulD(9) [OF assms(1)] unfolding names_free_def by blast
    have "fst (sys_Access E (base @ show_int (nth_name E n (of_gen f))) 0 w) = -1" for w
      using lawfulD(9) [OF assms(1)] n unfolding names_free_def by blast
    from names_loop [OF base this] obtain q g' w where
      "do_whileC (draw_name E) (of_path_name f, of_gen f, s) = (Inr (), (q, g', s\<lparr>ps_world := w\<rparr>))" by blast
    then show ?thesis by (intro exI [of _ "f\<lparr>of_path_name := q, of_gen := g'\<rparr>"] exI [of _ w]) (simp add: random_path_def)
  qed
  then show ?thesis
    using passing.movesD [OF passes, of s] unfolding yields_def under_way_def by fastforce
qed

lemma yields_OpenFile_SetUpSingle:
  assumes "lawful E S" and "base_ok b" and "ticks (Suc n) b" and "leaf_fine S b (OpenFile f)"
  shows "yields S (OpenFile_SetUpSingle E (b, f)) s
    (\<lambda>(b', f') t. base_ok b' \<and> started S b' t \<and> ticks n b' \<and> same_params b b' \<and> leaf_fine S b' (OpenFile f'))"
proof -
  have "yields S (if of_input_key f \<noteq> -1
      then bindC (shared_string (of_input_key f)) (\<lambda>p. returnC (f\<lparr>of_path_name := p\<rparr>))
      else if of_random_name f then random_path E f else returnC f) s (\<lambda>f' t. leaf_fine S b (OpenFile f'))"
    using assms(4)
    by (intro yields_if yields_bindC [OF yields_string] yields_weaken [OF yields_random_path [OF assms(1)]])
      (auto intro!: yields_returnC passing_intros)
  then show ?thesis
    unfolding OpenFile_SetUpSingle_def prod.case
    by (rule yields_bindC)
      (auto intro!: yields_bindC [OF yields_SetUpSingle [OF assms(1-3)]] yields_returnC passing_intros assms(1)
        dest: leaf_fine_params)
qed

lemma yields_OpenFile_RunSingle:
  assumes "lawful E S" and "leaf_fine S b (OpenFile f)"
  shows "yields S (OpenFile_RunSingle E (b, f)) s (\<lambda>(b', f') t. b' = b \<and> f' = f)"
proof -
  have store: "yields S (if of_output_fd_key f \<noteq> -1 then varsC (SetVar (of_output_fd_key f) (VInt fd)) else returnC ()) s
      (\<lambda>_ _. True)" for fd s
    using assms(2) by (intro yields_if yields_any [OF yields_set [where T = Descriptor]]) (auto intro: yields_returnC)
  show ?thesis
    unfolding OpenFile_RunSingle_def prod.case
    by (rule yields_bindC [OF yields_calls(7) [OF assms(1)]], rule yields_bindC [OF yields_fail_ifC [where P = "\<lambda>_ _. True"]],
        simp, simp, rule yields_bindC [OF store])
      (auto intro!: yields_returnC passing_intros)
qed

lemma yields_CloseFile:
  assumes "lawful E S" and "se_types S key = Some Descriptor"
  shows "yields S (CloseFile_RunSingle E key) s (\<lambda>_ _. True)"
  unfolding CloseFile_RunSingle_def
  by (rule yields_bindC [OF yields_int [OF assms(2)]], rule yields_bindC [OF yields_calls(1) [OF assms(1)]])
    (auto intro!: yields_fail_ifC passing_intros assms(1))

lemma yields_DeleteFile_SetUpSingle:
  assumes "lawful E S" and "base_ok b" and "ticks (Suc n) b" and "leaf_fine S b (DeleteFile f)"
  shows "yields S (DeleteFile_SetUpSingle E (b, f)) s
    (\<lambda>(b', f') t. base_ok b' \<and> started S b' t \<and> ticks n b' \<and> same_params b b' \<and> leaf_fine S b' (DeleteFile f'))"
proof -
  have "yields S (if df_input_key f \<noteq> -1
      then bindC (shared_string (df_input_key f)) (\<lambda>p. returnC (f\<lparr>df_path_name := p\<rparr>)) else returnC f) s
      (\<lambda>f' t. leaf_fine S b (DeleteFile f'))"
    using assms(4) by (intro yields_if yields_bindC [OF yields_string]) (auto intro!: yields_returnC passing_intros)
  then show ?thesis
    unfolding DeleteFile_SetUpSingle_def prod.case
    by (rule yields_bindC)
      (auto intro!: yields_bindC [OF yields_SetUpSingle [OF assms(1-3)]] yields_returnC passing_intros assms(1)
        dest: leaf_fine_params)
qed

lemma yields_DeleteFile_RunSingle:
  assumes "lawful E S"
  shows "yields S (DeleteFile_RunSingle E ob) s (\<lambda>ob' t. ob' = ob)"
  unfolding DeleteFile_RunSingle_def
  by (rule yields_bindC [OF yields_calls(10) [OF assms]], rule yields_bindC [OF yields_fail_ifC [where P = "\<lambda>_ _. True"]])
    (auto intro!: yields_returnC passing_intros)

lemma yields_ResizeFile_RunSingle:
  assumes "lawful E S" and "se_types S (rf_input_fd_key f) = Some Descriptor"
  shows "yields S (ResizeFile_RunSingle E (b, f)) s (\<lambda>ob t. ob = (b, f))"
proof -
  have resize: "yields S (if rf_size f > F then bindC (sysC (sys_FAllocate E fd 0 0 (rf_size f))) (\<lambda>ret.
        fail_ifC (ret \<noteq> 0) (Plogf ''Error while calling fallocate()''))
      else if rf_size f < F then bindC (sysC (sys_FTruncate E fd (rf_size f))) (\<lambda>ret.
        fail_ifC (ret \<noteq> 0) (Plogf ''Error while calling ftruncate()''))
      else returnC ()) s (\<lambda>_ _. True)" for F fd s
    by (intro yields_if yields_bindC [OF yields_calls(3) [OF assms(1)]] yields_bindC [OF yields_calls(4) [OF assms(1)]])
      (auto intro!: yields_returnC yields_fail_ifC passing_intros)
  show ?thesis
    unfolding ResizeFile_RunSingle_def prod.case
    by (rule yields_bindC [OF yields_int [OF assms(2)]], rule yields_bindC [OF yields_GetFileSize [OF assms(1)]],
        rule yields_bindC [OF resize])
      (auto intro!: yields_returnC passing_intros assms(1))
qed

lemma yields_ResizeFileRandom_SetUp:
  assumes "lawful E S" and "base_ok b" and "leaf_fine S b (ResizeFileRandom f)"
  shows "yields S (ResizeFileRandom_SetUp E (b, f)) s
    (\<lambda>(b', f') t. base_ok b' \<and> ticked b' \<and> same_params b b' \<and> leaf_fine S b' (ResizeFileRandom f'))"
  unfolding ResizeFileRandom_SetUp_def prod.case Let_def
  by (rule yields_bindC [OF yields_SetUp [OF assms(1,2)]])
    (use assms(3) in \<open>auto intro!: yields_returnC passing_intros\<close>)

lemma yields_ResizeFileRandom_SetUpSingle:
  assumes "lawful E S" and "base_ok b" and "ticks (Suc n) b" and "leaf_fine S b (ResizeFileRandom f)"
  shows "yields S (ResizeFileRandom_SetUpSingle E (b, f)) s
    (\<lambda>(b', f') t. base_ok b' \<and> started S b' t \<and> ticks n b' \<and> same_params b b' \<and> leaf_fine S b' (ResizeFileRandom f'))"
  using assms(4) unfolding ResizeFileRandom_SetUpSingle_def prod.case Let_def
  by (auto intro!: yields_bindC [OF yields_SetUpSingle [OF assms(1-3)]] yields_returnC passing_intros split: prod.split)

lemma collect_entries_paths:
  assumes "lawful E S"
  shows "\<exists>w. collect_entries E dir h s =
    (Inr (map (\<lambda>e. join_path dir (snd e)) (filter (\<lambda>e. fst e = DT_REG) (se_entries S h (ps_world s)))), s\<lparr>ps_world := w\<rparr>)"
proof -
  have d: "directories_end E S" using assms by (rule lawfulD)
  have "\<exists>w. do_whileC (read_entry E dir h) ([], s) =
      (Inr (), ([] @ map (\<lambda>e. join_path dir (snd e)) (filter (\<lambda>e. fst e = DT_REG) (se_entries S h (ps_world s))), s\<lparr>ps_world := w\<rparr>))"
    by (rule collect_entries_all) (use d in \<open>auto simp: directories_end_def\<close>)
  then show ?thesis by (auto simp: collect_entries_def)
qed

lemma yields_ReadDirectory_RunSingle:
  fixes S :: "'w session"
  assumes "lawful E S" and "leaf_fine S b (ReadDirectory f)"
  shows "yields S (ReadDirectory_RunSingle E (b, f)) s (\<lambda>ob t. ob = (b, f) \<and> typed (learn S (rd_output_key f) Paths) t)"
proof -
  have opens: "yields S (sysC (sys_OpenDir E (rd_directory_name f))) s
      (\<lambda>d t. \<exists>h. d = Some h \<and> (\<exists>e \<in> set (se_entries S h (ps_world t)). fst e = DT_REG) \<and>
         length (se_entries S h (ps_world t)) \<le> 2 ^ 31)" for s
  proof -
    have "passes (se_now S) (sysC (sys_OpenDir E (rd_directory_name f)))" by (intro passing_intros) (rule assms(1))
    then have "clock_of S s \<le> se_now S (snd (sys_OpenDir E (rd_directory_name f) (ps_world s)))"
      by (auto simp: passing.moves_def sysC_app dest: spec [of _ s])
    then show ?thesis
      using lawfulD(3) [OF assms(1)] unfolding directories_end_def
      by (fastforce simp: yields_def sysC_app under_way_def)
  qed
  have collects: "yields S (collect_entries E dir h) s (\<lambda>out t. has_type Paths (VList out))"
    if "\<exists>e \<in> set (se_entries S h (ps_world s)). fst e = DT_REG" "length (se_entries S h (ps_world s)) \<le> 2 ^ 31" for dir h s
  proof -
    have "passes (se_now S) (collect_entries E dir h)" by (intro passing_intros) (rule assms(1))
    from passing.movesD [OF this] obtain w where w: "collect_entries E dir h s = (Inr (map (\<lambda>e. join_path dir (snd e))
        (filter (\<lambda>e. fst e = DT_REG) (se_entries S h (ps_world s)))), s\<lparr>ps_world := w\<rparr>)" "clock_of S s \<le> se_now S w"
      using collect_entries_paths [OF assms(1), of dir h s] by fastforce
    have "length (filter (\<lambda>e. fst e = DT_REG) (se_entries S h (ps_world s))) \<le> 2 ^ 31"
      using that(2) by (rule order_trans [OF length_filter_le])
    then show ?thesis using that(1) w by (auto simp: yields_def under_way_def filter_empty_conv)
  qed
  show ?thesis
    unfolding ReadDirectory_RunSingle_def prod.case
  proof (rule yields_bindC [OF opens], elim exE conjE)
    fix d h and t :: "'w pstate" assume d: "d = Some h" "\<exists>e \<in> set (se_entries S h (ps_world t)). fst e = DT_REG"
      "length (se_entries S h (ps_world t)) \<le> 2 ^ 31"
    let ?S = "learn S (rd_output_key f) Paths"
    let ?P = "\<lambda>ob t. ob = (b, f) \<and> typed ?S t"
    have more: "richer ?S S" using assms(2) by (simp add: richer_learn)
    have "yields ?S (bindC (sysC (sys_CloseDir E h)) (\<lambda>_. returnC (b, f))) t (\<lambda>ob t. ob = (b, f))" for t
      by (rule yields_bindC [OF yields_sysC_any]) (auto intro!: yields_returnC passing_intros assms(1))
    from yields_richer [OF this more]
    have last: "yields S (bindC (sysC (sys_CloseDir E h)) (\<lambda>_. returnC (b, f))) t ?P" if "typed ?S t" for t
      using that by simp
    have "yields S (bindC (collect_entries E (rd_directory_name f) h) (\<lambda>out.
        bindC (varsC (SetVar (rd_output_key f) (VList out))) (\<lambda>_.
        bindC (sysC (sys_CloseDir E h)) (\<lambda>_. returnC (b, f))))) t ?P"
      by (rule yields_bindC [OF collects [OF d(2,3)]],
          rule yields_bindC [OF yields_set [where T = Paths]], use assms(2) in simp, assumption)
        (auto intro!: last passing_intros assms(1))
    then show "yields S (case d of None \<Rightarrow> failC (Plogf (''Cannot open \"'' @ rd_directory_name f @ ''\"''))
        | Some h \<Rightarrow> bindC (collect_entries E (rd_directory_name f) h) (\<lambda>out.
            bindC (varsC (SetVar (rd_output_key f) (VList out))) (\<lambda>_.
            bindC (sysC (sys_CloseDir E h)) (\<lambda>_. returnC (b, f))))) t ?P"
      using d(1) by simp
  qed (auto intro!: passing_intros assms(1) split: option.split)
qed

lemma yields_InvalidateCache:
  assumes "lawful E S"
  shows "yields S (InvalidateCache_RunSingle E) s (\<lambda>_ _. True)"
  unfolding InvalidateCache_RunSingle_def
  by (rule yields_bindC [OF yields_sysC_any], (intro passing_intros, rule assms),
      rule yields_bindC [OF yields_calls(7) [OF assms]],
      rule yields_bindC [OF yields_fail_ifC [where P = "\<lambda>_ _. True"]], simp, simp,
      rule yields_bindC [OF yields_calls(11) [OF assms]],
      rule yields_bindC [OF yields_fail_ifC [where P = "\<lambda>_ _. True"]], simp, simp,
      rule yields_bindC [OF yields_calls(1) [OF assms]])
    (auto intro!: yields_fail_ifC passing_intros assms)

section \<open>Work\<close>

lemma yields_cpu_wait:
  assumes "lawful E S" and "normal_ts work" and "nanos work \<le> se_work S"
  shows "yields S (threadWaitAbsoluteTime E work) s (\<lambda>_ _. True)"
proof -
  let ?m = "threadWaitAbsoluteTime E work"
  have c: "clocks_advance E S" and passes: "passes (se_now S) ?m"
    by (rule lawfulD(1) [OF assms(1)]) (intro passing_intros, rule assms(1))
  have ret: "fst (fst (clock_gettime E CLOCK_THREAD_CPUTIME_ID w)) = 0" for w using c by (simp add: clocks_advance_def)
  have "\<exists>w. ?m s = (Inr (), s\<lparr>ps_world := w\<rparr>)" if now: "clock_of S s < se_end S"
  proof -
    let ?s = "s\<lparr>ps_world := after_readings E 1 (ps_world s)\<rparr>"
    obtain n where r: "normal_ts (reading E (ps_world s))" "nanos (reading E (ps_world s)) < 2 ^ 61 * 1000000000"
        "\<And>t. nanos t \<le> nanos (reading E (ps_world s)) + se_work S \<Longrightarrow> normal_ts t \<Longrightarrow>
           \<not> timespec_less (reading E (after_readings E (Suc n) (ps_world s))) t"
      using c now unfolding clocks_advance_def by blast
    obtain v where v: "timespec_plus (reading E (ps_world s)) work = Inr v"
        "nanos v = nanos (reading E (ps_world s)) + nanos work" "0 \<le> tv_sec v" "0 \<le> tv_nsec v" "tv_nsec v < 1000000000"
      using timespec_plus_normal [OF r(1) assms(2)] by blast
    have "nanos v < 2 ^ 62 * 1000000000" using v(2) r(2) assms(3) lawfulD(8) [OF assms(1)] by simp
    then have "normal_ts v" using v(3-5) by (auto simp: normal_ts_def nanos_def)
    then have "\<not> timespec_less (reading E (after_readings E n (ps_world ?s))) v" using r(3) v(2) assms(3) by simp
    from wait_loop [OF ret this] obtain w where "do_whileC (wait_step E v) ?s = (Inr (), ?s\<lparr>ps_world := w\<rparr>)" by blast
    then show ?thesis
      by (intro exI [of _ w]) (simp add: threadWaitAbsoluteTime_def bindC_app cpu_time_app [OF ret] v(1))
  qed
  moreover have "clock_of S s \<le> clock_of S (snd (?m s))" using passes by (simp add: passing.moves_def)
  ultimately show ?thesis unfolding yields_def under_way_def by fastforce
qed

lemma yields_deallocate:
  assumes "lawful E S"
  shows "yields S (deallocate_memory E as sz) s (\<lambda>_ _. True)"
proof (induction "as" arbitrary: s)
  case (Cons a "as")
  show ?case
    unfolding deallocate_memory.simps
    by (rule yields_bindC [OF yields_calls(14) [OF assms]],
        rule yields_bindC [OF yields_fail_ifC [where P = "\<lambda>_ _. True"]])
      (auto intro!: passing_intros assms Cons.IH)
qed (simp add: yields_returnC)

lemma yields_memory:
  assumes "lawful E S"
  shows "yields S (MemoryAllocation_RunSingle E (b, f)) s (\<lambda>(b', f') t. b' = b)"
    and "yields S (MemoryAllocation_TearDownSingle E l (b, f)) s (\<lambda>(b', f') t. b' = b)"
proof -
  have allocate: "yields S (allocate_memory E as sz) s (\<lambda>_ _. True)" for "as" sz s
    unfolding allocate_memory_def
    by (rule yields_bindC [OF yields_calls(13) [OF assms]]) (auto intro!: yields_returnC passing_intros split: option.split)
  show "yields S (MemoryAllocation_RunSingle E (b, f)) s (\<lambda>(b', f') t. b' = b)"
    unfolding MemoryAllocation_RunSingle_def
    by (rule yields_bindC [OF allocate]) (auto intro!: yields_returnC passing_intros)
  have free: "yields S (case ma_free_policy (snd (b, f)) of
              kKeep \<Rightarrow> returnC (ma_addresses (snd (b, f)))
            | kFreeEveryPeriod \<Rightarrow> deallocate_memory E (ma_addresses (snd (b, f))) (ma_size (snd (b, f)))
            | kFreeLastPeriod \<Rightarrow>
                if l then deallocate_memory E (ma_addresses (snd (b, f))) (ma_size (snd (b, f)))
                else returnC (ma_addresses (snd (b, f)))) s (\<lambda>_ _. True)"
    by (auto intro!: yields_returnC yields_deallocate assms split: free_policy.split)
  show "yields S (MemoryAllocation_TearDownSingle E l (b, f)) s (\<lambda>(b', f') t. b' = b)"
    unfolding MemoryAllocation_TearDownSingle_def
    by (rule yields_bindC [OF free]) (auto intro!: yields_returnC passing_intros)
qed

section \<open>The methods of the leaves\<close>

lemma leaf_SetUp_yields:
  assumes "lawful E S" and "fine S (b, k)"
  shows "yields S (leaf_SetUp E (b, k)) s (\<lambda>ob t. fine S ob \<and> ticked (fst ob))"
proof -
  have b: "base_ok b" and k: "leaf_fine S b k" using assms(2) by (simp_all add: fine_def)
  have inherited: "yields S (inherit (Instruction_SetUp E) (b, k)) s (\<lambda>ob t. fine S ob \<and> ticked (fst ob))"
    by (rule yields_inherit, rule yields_weaken [OF yields_SetUp [OF assms(1) b]])
      (use k in \<open>auto simp: fine_def intro: leaf_fine_params\<close>)
  have rw: "rw_fits S f \<Longrightarrow> rw_fits S (f\<lparr>rw_gen := g\<rparr>)" for f :: "'b rw_file" and g by (erule rw_fits_cong) simp_all
  show ?thesis
  proof (cases k)
    case (WriteFile fsync f)
    then show ?thesis
      using b k rw by (auto simp: leaf_SetUp_def ReadWriteFile_SetUp_def fine_def ticks_untimed intro!: yields_leafC yields_returnC)
  next
    case (ReadFile fadvise f)
    then show ?thesis
      using b k rw by (auto simp: leaf_SetUp_def ReadWriteFile_SetUp_def fine_def ticks_untimed intro!: yields_leafC yields_returnC)
  next
    case (ResizeFileRandom f)
    then show ?thesis
      using yields_ResizeFileRandom_SetUp [OF assms(1) b, of f s] k
      by (auto simp: leaf_SetUp_def fine_def intro!: yields_leafC elim!: yields_weaken)
  qed (use inherited in \<open>simp_all add: leaf_SetUp_def\<close>)
qed

lemma leaf_SetUpSingle_yields:
  assumes "lawful E S" and "fine S (b, k)" and "ticks (Suc n) b"
  shows "yields S (leaf_SetUpSingle E (b, k)) s (\<lambda>ob t. fine S ob \<and> started S (fst ob) t \<and> ticks n (fst ob))"
proof -
  have b: "base_ok b" and k: "leaf_fine S b k" using assms(2) by (simp_all add: fine_def)
  have inherited: "yields S (inherit (Instruction_SetUpSingle E) (b, k)) s (\<lambda>ob t. fine S ob \<and> started S (fst ob) t \<and> ticks n (fst ob))"
    by (rule yields_inherit, rule yields_weaken [OF yields_SetUpSingle [OF assms(1) b assms(3)]])
      (use k in \<open>auto simp: fine_def intro: leaf_fine_params\<close>)
  note base = assms(1) b assms(3)
  show ?thesis
  proof (cases k)
    case (WriteFile fsync f)
    show ?thesis
      unfolding WriteFile leaf_SetUpSingle_def prod.case leaf.case
      by (rule yields_leafC_method, rule yields_ReadWriteFile_SetUpSingle [OF base]) (use k WriteFile in \<open>auto simp: fine_def same_params_timed\<close>)
  next
    case (ReadFile fadvise f)
    show ?thesis
      unfolding ReadFile leaf_SetUpSingle_def prod.case leaf.case
      by (rule yields_leafC_method, rule yields_ReadFile_SetUpSingle [OF base]) (use k ReadFile in \<open>auto simp: fine_def same_params_timed\<close>)
  next
    case (OpenFile f)
    show ?thesis
      unfolding OpenFile leaf_SetUpSingle_def prod.case leaf.case
      by (rule yields_leafC_method, rule yields_OpenFile_SetUpSingle [OF base]) (use k OpenFile in \<open>auto simp: fine_def\<close>)
  next
    case (DeleteFile f)
    show ?thesis
      unfolding DeleteFile leaf_SetUpSingle_def prod.case leaf.case
      by (rule yields_leafC_method, rule yields_DeleteFile_SetUpSingle [OF base]) (use k DeleteFile in \<open>auto simp: fine_def\<close>)
  next
    case (ResizeFileRandom f)
    show ?thesis
      unfolding ResizeFileRandom leaf_SetUpSingle_def prod.case leaf.case
      by (rule yields_leafC_method, rule yields_ResizeFileRandom_SetUpSingle [OF base]) (use k ResizeFileRandom in \<open>auto simp: fine_def\<close>)
  qed (use inherited in \<open>simp_all add: leaf_SetUpSingle_def\<close>)
qed

lemma leaf_RunSingle_yields:
  assumes "lawful E S" and "fine S (b, k)"
  shows "yields S (leaf_RunSingle E (b, k)) s (\<lambda>ob t. fst ob = b \<and> fine S ob)"
proof -
  have b: "base_ok b" and k: "leaf_fine S b k" using assms(2) by (simp_all add: fine_def)
  have worked: "yields S (inherit (run_work w) (b, k)) s (\<lambda>ob t. fst ob = b \<and> fine S ob)"
    if "yields S w s (\<lambda>_ _. True)" for w
    by (rule yields_inherit, rule yields_weaken [OF yields_run_work [OF that]]) (use b k in \<open>simp add: fine_def\<close>)
  note work = worked [OF yields_CloseFile [OF assms(1)]] worked [OF yields_InvalidateCache [OF assms(1)]]
    worked [OF yields_cpu_wait [OF assms(1)]] worked [OF yields_returnC(1)]
  show ?thesis
  proof (cases k)
    case (OpenFile f)
    show ?thesis
      unfolding OpenFile leaf_RunSingle_def prod.case leaf.case
      by (rule yields_leafC_method, rule yields_OpenFile_RunSingle [OF assms(1)]) (use b k OpenFile in \<open>auto simp: fine_def\<close>)
  next
    case (DeleteFile f)
    show ?thesis
      unfolding DeleteFile leaf_RunSingle_def prod.case leaf.case
      by (rule yields_leafC_method, rule yields_DeleteFile_RunSingle [OF assms(1)]) (use b k DeleteFile in \<open>auto simp: fine_def\<close>)
  next
    case (ResizeFile f)
    show ?thesis
      unfolding ResizeFile leaf_RunSingle_def prod.case leaf.case
      by (rule yields_leafC_method, rule yields_ResizeFile_RunSingle [OF assms(1)]) (use b k ResizeFile in \<open>auto simp: fine_def\<close>)
  next
    case (ResizeFileRandom f)
    show ?thesis
      unfolding ResizeFileRandom leaf_RunSingle_def prod.case leaf.case
      by (rule yields_leafC_method, rule yields_ResizeFile_RunSingle [OF assms(1)]) (use b k ResizeFileRandom in \<open>auto simp: fine_def\<close>)
  next
    case (WriteFile fsync f)
    show ?thesis
      unfolding WriteFile leaf_RunSingle_def prod.case leaf.case
      by (rule yields_leafC_method, rule yields_WriteFile_RunSingle [OF assms(1)]) (use b k WriteFile in \<open>auto simp: fine_def\<close>)
  next
    case (ReadFile fadvise f)
    show ?thesis
      unfolding ReadFile leaf_RunSingle_def prod.case leaf.case
      by (rule yields_leafC_method, rule yields_ReadFile_RunSingle [OF assms(1)]) (use b k ReadFile in \<open>auto simp: fine_def\<close>)
  next
    case (ReadDirectory f)
    show ?thesis
      unfolding ReadDirectory leaf_RunSingle_def prod.case leaf.case
      by (rule yields_leafC_method, rule yields_ReadDirectory_RunSingle [OF assms(1)]) (use b k ReadDirectory in \<open>auto simp: fine_def\<close>)
  next
    case (MemoryAllocation f)
    show ?thesis
      unfolding MemoryAllocation leaf_RunSingle_def prod.case leaf.case
      by (rule yields_leafC_method, rule yields_memory(1) [OF assms(1)]) (use b k MemoryAllocation in \<open>auto simp: fine_def\<close>)
  qed (use k work in \<open>auto simp: leaf_RunSingle_def CpuWorkCycles_RunSingle_def\<close>)
qed

lemma leaf_TearDownSingle_yields:
  assumes "lawful E S" and "fine S (b, k)" and "started S b s"
  shows "yields S (leaf_TearDownSingle E l (b, k)) s
    (\<lambda>ob t. fine S ob \<and> (\<forall>n. ticks n b \<longrightarrow> ticks n (fst ob)) \<and> same_params b (fst ob))"
proof -
  have b: "base_ok b" and k: "leaf_fine S b k" using assms(2) by (simp_all add: fine_def)
  have inherited: "yields S (inherit (Instruction_TearDownSingle E l) (b, k)) s
      (\<lambda>ob t. fine S ob \<and> (\<forall>n. ticks n b \<longrightarrow> ticks n (fst ob)) \<and> same_params b (fst ob))"
    by (rule yields_inherit, rule yields_weaken [OF yields_TearDownSingle [OF assms(1) b assms(3)]])
      (use k in \<open>auto simp: fine_def intro: leaf_fine_params\<close>)
  show ?thesis
  proof (cases k)
    case (WriteFile fsync f)
    show ?thesis
      unfolding WriteFile leaf_TearDownSingle_def prod.case leaf.case
      by (rule yields_leafC_method, rule yields_ReadWriteFile_TearDownSingle [OF assms(1) b assms(3)]) (use k WriteFile in \<open>auto simp: fine_def same_params_timed\<close>)
  next
    case (ReadFile fadvise f)
    show ?thesis
      unfolding ReadFile leaf_TearDownSingle_def prod.case leaf.case
      by (rule yields_leafC_method, rule yields_ReadWriteFile_TearDownSingle [OF assms(1) b assms(3)]) (use k ReadFile in \<open>auto simp: fine_def same_params_timed\<close>)
  next
    case (MemoryAllocation f)
    show ?thesis
      unfolding MemoryAllocation leaf_TearDownSingle_def prod.case leaf.case
      by (rule yields_leafC_method, rule yields_memory(2) [OF assms(1)]) (use b MemoryAllocation in \<open>auto simp: fine_def\<close>)
  qed (use inherited in \<open>simp_all add: leaf_TearDownSingle_def\<close>)
qed

subsection \<open>What the leaves leave behind\<close>

text \<open>A directory that has been read leaves its list behind; the key of the list is kept.\<close>

fun list_key :: "'g leaf \<Rightarrow> int option" where
  "list_key (ReadDirectory f) = Some (rd_output_key f)"
| "list_key k = None"

definition teaches :: "'w session \<Rightarrow> 'g leaf \<Rightarrow> 'w session" where
  "teaches S k = (case list_key k of None \<Rightarrow> S | Some key \<Rightarrow> learn S key Paths)"

lemma leaf_keeps_list:
  "leaf_SetUp E (b, k) s = (Inr (b', k'), t) \<Longrightarrow> list_key k' = list_key k"
  "leaf_SetUpSingle E (b, k) s = (Inr (b', k'), t) \<Longrightarrow> list_key k' = list_key k"
  "leaf_RunSingle E (b, k) s = (Inr (b', k'), t) \<Longrightarrow> list_key k' = list_key k"
  "leaf_TearDownSingle E l (b, k) s = (Inr (b', k'), t) \<Longrightarrow> list_key k' = list_key k"
     apply (cases k; auto simp: leaf_SetUp_def leafC_Inr_iff inherit_Inr_iff)
    apply (cases k; auto simp: leaf_SetUpSingle_def leafC_Inr_iff inherit_Inr_iff)
   apply (cases k; auto simp: leaf_RunSingle_def leafC_Inr_iff inherit_Inr_iff ReadDirectory_RunSingle_def bindC_Inr_iff split: option.splits)
  apply (cases k; auto simp: leaf_TearDownSingle_def leafC_Inr_iff inherit_Inr_iff)
  done

lemma leaf_keeps_repeat:
  "leaf_SetUp E (b, k) s = (Inr (b', k'), t) \<Longrightarrow> ib_repeat b' = ib_repeat b"
  "leaf_SetUpSingle E (b, k) s = (Inr (b', k'), t) \<Longrightarrow> ib_repeat b' = ib_repeat b"
  "leaf_RunSingle E (b, k) s = (Inr (b', k'), t) \<Longrightarrow> ib_repeat b' = ib_repeat b"
  using leaf_SetUp_effect leaf_set_up(1) leaf_run(1) set_up_base_effect(1) same_params_repeat by metis+

lemma leaf_RunSingle_teaches:
  assumes "lawful E S" and "fine S (b, k)"
  shows "yields S (leaf_RunSingle E (b, k)) s (\<lambda>ob t. fst ob = b \<and> fine S ob \<and> typed (teaches S k) t)"
proof (cases k)
  case (ReadDirectory f)
  have *: "base_ok b" "leaf_fine S b (ReadDirectory f)" using assms(2) ReadDirectory by (simp_all add: fine_def)
  show ?thesis
    unfolding ReadDirectory leaf_RunSingle_def prod.case leaf.case
    by (rule yields_leafC_method, rule yields_ReadDirectory_RunSingle [OF assms(1) *(2)]) (use * in \<open>auto simp: fine_def teaches_def\<close>)
qed (use yields_typed [OF leaf_RunSingle_yields [OF assms]] in \<open>auto simp: teaches_def elim: yields_weaken\<close>)

lemma fine_teaches: "fine S (b, k) \<Longrightarrow> fine (teaches S k) (b, k) \<and> richer (teaches S k) S"
  by (cases k) (auto simp: fine_def teaches_def writable_def intro: richer_learn)

end
