(* ===== verification/Completion.thy ===== *)
theory Completion
  imports Leaf_Contracts Iteration
begin

text \<open>
  Runs that come to their end: total correctness of the engine. In a session, a well typed tree runs to its
  end whatever the scheduler does: with sets that iterate over a list, with threads, with periods and
  offsets. \<open>dependable\<close> is the typing of a tree, which every method keeps: a variable is read only when it is
  known to be assigned, and \<open>after\<close> is what is known once an instruction has run. \<open>thread_ok\<close> is what holds
  of a thread between two of its steps.
\<close>

section \<open>Dependable trees\<close>

text \<open>What is known after one repetition of an instruction, and after all of them.\<close>

abbreviation iterates_over :: "'g iset \<Rightarrow> bool" where
  "iterates_over f \<equiv> is_list_key f \<noteq> -1 \<and> is_item_key f \<noteq> -1"

fun taught :: "'w session \<Rightarrow> 'g instr \<Rightarrow> 'w session" where
  "taught S (Leaf b k) = teaches S k"
| "taught S (InstructionSet b f cs) =
     (if iterates_over f then S else foldl (\<lambda>S c. if 0 < ib_repeat (in_base c) then taught S c else S) S cs)"
| "taught S (Multithreading b m cs) = S"

definition after :: "'w session \<Rightarrow> 'g instr \<Rightarrow> 'w session" where
  "after S i = (if 0 < ib_repeat (in_base i) then taught S i else S)"

lemma taught_set: "taught S (InstructionSet b f cs) = (if iterates_over f then S else foldl after S cs)"
  by (simp add: after_def [abs_def])

declare taught.simps(2) [simp del]

text \<open>
  Typing with definite assignment: an instruction may read the variables that are known when it starts; the
  instructions of a set know what those before them leave behind, and the item when the set iterates.
\<close>

fun dependable :: "'w session \<Rightarrow> 'g instr \<Rightarrow> bool"
  and dependable_all :: "'w session \<Rightarrow> 'g instr list \<Rightarrow> bool" where
  "dependable S (Leaf b k) \<longleftrightarrow> fine S (b, k)"
| "dependable S (InstructionSet b f cs) \<longleftrightarrow> base_ok b \<and>
     (if iterates_over f
      then se_types S (is_list_key f) = Some Paths \<and> writable S (is_item_key f) Path \<and>
        dependable_all (learn S (is_item_key f) Path) cs
      else dependable_all S cs)"
| "dependable S (Multithreading b m cs) \<longleftrightarrow> base_ok b \<and> length cs \<le> length (mt_params m) \<and>
     (\<forall>p \<in> set (mt_params m). length (tp_name p) \<le> 15) \<and> (\<forall>c \<in> set cs. dependable S c)"
| "dependable_all S [] \<longleftrightarrow> True"
| "dependable_all S (c # cs) \<longleftrightarrow> dependable S c \<and> dependable_all (after S c) cs"

lemma dependable_richer:
  fixes i :: "'g instr" and cs :: "'g instr list" and S Q :: "'w session"
  shows "dependable S i \<Longrightarrow> richer (taught S i) S"
    and "dependable_all Q cs \<Longrightarrow> richer (foldl after Q cs) Q"
proof (induction S i and Q cs rule: dependable_dependable_all.induct)
  case (1 S b k)
  then show ?case using fine_teaches [of S b k] by simp
next
  case (5 S c cs)
  then have "richer (foldl after (after S c) cs) (after S c)" by simp
  moreover have "richer (after S c) S" using 5 by (simp add: after_def)
  ultimately show ?case by (auto intro: richer_trans)
qed (auto simp: taught_set)

lemma after_richer: "dependable S i \<Longrightarrow> richer (after S i) S"
  by (simp add: after_def dependable_richer(1))

text \<open>
  The threads of an object: none before \<^verbatim>\<open>RunSingle\<close>, all of them before \<^verbatim>\<open>TearDownSingle\<close>, and their
  instructions have been set up.
\<close>

fun prepared :: "'g instr \<Rightarrow> bool" where
  "prepared (Multithreading b m cs) \<longleftrightarrow> mt_threads m = [] \<and> (\<forall>c \<in> set cs. ticked (in_base c))"
| "prepared i \<longleftrightarrow> True"

fun spawned_all :: "'g instr \<Rightarrow> bool" where
  "spawned_all (Multithreading b m cs) \<longleftrightarrow> mt_threads m = map SpawnThread cs \<and> (\<forall>c \<in> set cs. ticked (in_base c))"
| "spawned_all i \<longleftrightarrow> True"

lemma dependable_base: "dependable S i \<Longrightarrow> base_ok (in_base i)"
  by (cases i) (simp_all add: fine_def)

text \<open>What the methods keep: a dependable object of the same depth that leaves the same behind.\<close>

definition stays :: "'w session \<Rightarrow> 'g instr \<Rightarrow> 'g instr \<Rightarrow> bool" where
  "stays S i i' \<longleftrightarrow> dependable S i' \<and> depth i' = depth i \<and> ib_repeat (in_base i') = ib_repeat (in_base i) \<and>
     (\<forall>R :: 'w session. taught R i' = taught R i)"

fun all_stay :: "'w session \<Rightarrow> 'g instr list \<Rightarrow> 'g instr list \<Rightarrow> bool" where
  "all_stay S [] cs' \<longleftrightarrow> cs' = []"
| "all_stay S (c # cs) cs' \<longleftrightarrow> (\<exists>d ds. cs' = d # ds \<and> stays S c d \<and> all_stay (after S c) cs ds)"

lemma stays_after:
  fixes R S :: "'w session"
  shows "stays S i i' \<Longrightarrow> after R i' = after R i"
  by (simp add: stays_def after_def)

lemma stays_refl: "dependable S i \<Longrightarrow> stays S i i"
  by (simp add: stays_def)

lemma stays_trans: "stays S i i1 \<Longrightarrow> stays S i1 i2 \<Longrightarrow> stays S i i2"
  by (simp add: stays_def)

lemma all_stay_refl: "dependable_all S cs \<Longrightarrow> all_stay S cs cs"
  by (induction cs arbitrary: S) (auto intro: stays_refl)

lemma all_stay_trans: "all_stay S cs cs1 \<Longrightarrow> all_stay S cs1 cs2 \<Longrightarrow> all_stay S cs cs2"
proof (induction cs arbitrary: S cs1 cs2)
  case (Cons c cs)
  then obtain d ds where d: "cs1 = d # ds" "stays S c d" "all_stay (after S c) cs ds" by auto
  then obtain e es where "cs2 = e # es" "stays S d e" "all_stay (after S c) ds es"
    using Cons.prems(2) by (auto simp: stays_after)
  then show ?case using d Cons.IH by (auto intro: stays_trans)
qed simp

lemma all_stay_effect:
  fixes S :: "'w session"
  shows "all_stay S cs cs' \<Longrightarrow> dependable_all S cs' \<and> map depth cs' = map depth cs \<and>
    (\<forall>R :: 'w session. foldl after R cs' = foldl after R cs)"
proof (induction cs arbitrary: S cs')
  case (Cons c cs)
  then obtain d ds where d: "cs' = d # ds" "stays S c d" "all_stay (after S c) cs ds" by auto
  have "after R d = after R c" for R :: "'w session" using d(2) by (rule stays_after)
  then show ?case using Cons.IH [OF d(3)] d by (auto simp: stays_def)
qed simp

text \<open>The session of the instructions of a set.\<close>

definition inside :: "'w session \<Rightarrow> 'g iset \<Rightarrow> 'w session" where
  "inside S f = (if iterates_over f then learn S (is_item_key f) Path else S)"

lemma dependable_inside: "dependable S (InstructionSet b f cs) \<Longrightarrow> dependable_all (inside S f) cs \<and> richer (inside S f) S"
  by (auto simp: inside_def richer_learn)

lemma stays_set:
  assumes "dependable S (InstructionSet b f cs)" and "all_stay (inside S f) cs cs'" and "base_ok b'"
    and "ib_repeat b' = ib_repeat b" and "is_list_key f' = is_list_key f" and "is_item_key f' = is_item_key f"
  shows "stays S (InstructionSet b f cs) (InstructionSet b' f' cs')"
  using assms(1,3-) all_stay_effect [OF assms(2)] level_cong [of cs' cs]
  by (auto simp: stays_def taught_set inside_def split: if_splits)

lemma stays_threads:
  assumes "dependable S (Multithreading b m cs)" and "list_all2 (stays S) cs cs'" and "base_ok b'"
    and "ib_repeat b' = ib_repeat b" and "mt_params m' = mt_params m"
  shows "stays S (Multithreading b m cs) (Multithreading b' m' cs')"
proof -
  have "map depth cs' = map depth cs" "\<forall>c \<in> set cs'. dependable S c"
    using assms(2) by (induction rule: list_all2_induct) (auto simp: stays_def)
  then show ?thesis
    using assms(1,3-) list_all2_lengthD [OF assms(2)] level_cong [of cs' cs] by (auto simp: stays_def)
qed

lemma stays_kids: "\<forall>c \<in> set cs. dependable S c \<Longrightarrow> list_all2 (stays S) cs cs"
  by (auto simp: stays_refl list_all2_same)

lemma stays_leaf:
  assumes "fine S (b', k')" and "ib_repeat b' = ib_repeat b" and "list_key k' = list_key k"
  shows "stays S (Leaf b k) (Leaf b' k')"
  using assms by (simp add: stays_def teaches_def)

lemma vSetUp_yields:
  assumes "lawful E S" and "dependable S i"
  shows "yields S (vSetUp E i) s (\<lambda>i' t. stays S i i' \<and> ticked (in_base i'))"
proof (cases i)
  case (Leaf b k)
  then have "fine S (b, k)" using assms(2) by simp
  have "yields S (leaf_SetUp E (b, k)) s (\<lambda>ob t. (fine S ob \<and> ticked (fst ob)) \<and>
      ib_repeat (fst ob) = ib_repeat b \<and> list_key (snd ob) = list_key k)"
    by (rule yields_also [OF leaf_SetUp_yields [OF assms(1) \<open>fine S (b, k)\<close>]])
      (auto dest: leaf_keeps_list(1) leaf_keeps_repeat(1))
  then show ?thesis
    unfolding Leaf vSetUp.simps
    by (intro yields_mapC_result, elim yields_weaken) (auto simp: to_leaf_def intro!: stays_leaf)
next
  case (InstructionSet b f cs)
  then have b: "base_ok b" using assms(2) by simp
  have "yields S (InstructionSet_SetUp E (b, f)) s (\<lambda>(b', f') t. base_ok b' \<and> ticked b' \<and> ib_repeat b' = ib_repeat b \<and>
      is_list_key f' = is_list_key f \<and> is_item_key f' = is_item_key f)"
    unfolding InstructionSet_SetUp_def prod.case Let_def
    by (rule yields_bindC [OF yields_SetUp [OF assms(1) b]])
      (auto intro!: yields_returnC passing_intros dest: same_params_repeat)
  then show ?thesis
    unfolding InstructionSet vSetUp.simps
    by (intro yields_mapC_result, elim yields_weaken)
      (use assms(2) InstructionSet dependable_inside in \<open>auto intro!: stays_set all_stay_refl\<close>)
next
  case (Multithreading b m cs)
  then have "base_ok b" using assms(2) by simp
  from yields_SetUp [OF assms(1) this, of s] show ?thesis
    unfolding Multithreading vSetUp.simps
    by (intro yields_mapC_result, elim yields_weaken)
      (use assms(2) Multithreading in \<open>auto intro!: stays_threads stays_kids dest: same_params_repeat\<close>)
qed

lemma vSetUpSingle_yields:
  assumes "lawful E S" and "dependable S i" and "ticks (Suc n) (in_base i)"
  shows "yields S (vSetUpSingle E i) s
    (\<lambda>i' t. stays S i i' \<and> started S (in_base i') t \<and> ticks n (in_base i') \<and> prepared i')"
proof (cases i)
  case (Leaf b k)
  then have "fine S (b, k)" "ticks (Suc n) b" using assms(2,3) by simp_all
  then have "yields S (leaf_SetUpSingle E (b, k)) s (\<lambda>ob t. (fine S ob \<and> started S (fst ob) t \<and> ticks n (fst ob)) \<and>
      ib_repeat (fst ob) = ib_repeat b \<and> list_key (snd ob) = list_key k)"
    by (intro yields_also [OF leaf_SetUpSingle_yields [OF assms(1)]])
      (auto dest: leaf_keeps_list(2) leaf_keeps_repeat(2))
  then show ?thesis
    unfolding Leaf vSetUpSingle.simps
    by (intro yields_mapC_result, elim yields_weaken) (auto simp: to_leaf_def intro!: stays_leaf)
next
  case (InstructionSet b f cs)
  then have b: "base_ok b" "ticks (Suc n) b" using assms(2,3) by simp_all
  have "yields S (InstructionSet_SetUpSingle E (b, f)) s (\<lambda>(b', f') t. base_ok b' \<and> started S b' t \<and> ticks n b' \<and>
      ib_repeat b' = ib_repeat b \<and> is_list_key f' = is_list_key f \<and> is_item_key f' = is_item_key f)"
    unfolding InstructionSet_SetUpSingle_def prod.case Let_def
    by (rule yields_bindC [OF yields_SetUpSingle [OF assms(1) b]])
      (auto intro!: yields_returnC passing_intros dest: same_params_repeat)
  then show ?thesis
    unfolding InstructionSet vSetUpSingle.simps
    by (intro yields_mapC_result, elim yields_weaken)
      (use assms(2) InstructionSet dependable_inside in \<open>auto intro!: stays_set all_stay_refl\<close>)
next
  case (Multithreading b m cs)
  then have b: "base_ok b" "ticks (Suc n) b" using assms(2,3) by simp_all
  have kids: "yields S (mapC (vSetUp E) cs) s (\<lambda>cs' t. list_all2 (\<lambda>c c'. stays S c c' \<and> ticked (in_base c')) cs cs')"
    by (rule yields_mapC) (use assms(2) Multithreading in \<open>auto intro!: vSetUp_yields passing_intros assms(1)\<close>)
  show ?thesis
    unfolding Multithreading vSetUpSingle.simps Multithreading_SetUpSingle_def
  proof (rule yields_bindC [OF kids], rule yields_bindC [OF yields_SetUpSingle [OF assms(1) b]])
    fix cs' b' and t :: "'a pstate"
    assume cs': "list_all2 (\<lambda>c c'. stays S c c' \<and> ticked (in_base c')) cs cs'"
      and b': "base_ok b' \<and> started S b' t \<and> ticks n b' \<and> same_params b b' \<and>
        ts_samples (ib_sampler b') = ts_samples (ib_sampler b)"
    have "list_all2 (stays S) cs cs'" using cs' by (rule list_all2_mono) blast
    moreover have "\<forall>c \<in> set cs'. ticked (in_base c)" using cs' by (auto simp: list_all2_conv_all_nth in_set_conv_nth)
    moreover have "ib_repeat b' = ib_repeat b" using b' same_params_repeat by blast
    ultimately show "yields S (returnC (Multithreading b' (m\<lparr>mt_threads := []\<rparr>) cs')) t
        (\<lambda>i' t. stays S (Multithreading b m cs) i' \<and> started S (in_base i') t \<and> ticks n (in_base i') \<and> prepared i')"
      using b' assms(2) Multithreading by (auto intro!: yields_returnC stays_threads)
  qed (auto intro!: passing_intros assms(1))
qed

section \<open>Threads\<close>

text \<open>The order of the phases of a thread, and what has been done for the next one.\<close>

fun valid_phases :: "phase list \<Rightarrow> bool" where
  "valid_phases [] \<longleftrightarrow> True"
| "valid_phases (Enter # ps) \<longleftrightarrow> (ps = [] \<or> hd ps = SetUpPhase) \<and> valid_phases ps"
| "valid_phases (SetUpPhase # ps) \<longleftrightarrow> ps \<noteq> [] \<and> hd ps = RunPhase \<and> valid_phases ps"
| "valid_phases (RunPhase # ps) \<longleftrightarrow> ps \<noteq> [] \<and> (\<exists>l. hd ps = TearDownPhase l) \<and> valid_phases ps"
| "valid_phases (TearDownPhase l # ps) \<longleftrightarrow> (ps = [] \<or> hd ps = SetUpPhase) \<and> valid_phases ps"

definition at_phase :: "'w session \<Rightarrow> phase list \<Rightarrow> 'g instr \<Rightarrow> 'w pstate \<Rightarrow> bool" where
  "at_phase S ps c s \<longleftrightarrow> ticks (count_list ps SetUpPhase) (in_base c) \<and> (case ps of
       RunPhase # _ \<Rightarrow> started S (in_base c) s \<and> prepared c
     | TearDownPhase l # _ \<Rightarrow> started S (in_base c) s \<and> spawned_all c
     | _ \<Rightarrow> True)"

definition thread_ok :: "'w session \<Rightarrow> nat \<Rightarrow> phase list \<Rightarrow> 'g instr \<Rightarrow> 'w pstate \<Rightarrow> bool" where
  "thread_ok S n ps c s \<longleftrightarrow> dependable S c \<and> depth c \<le> n \<and> valid_phases ps \<and> at_phase S ps c s"

lemma valid_run_phases: "valid_phases (run_phases n) \<and> (run_phases n = [] \<or> hd (run_phases n) = SetUpPhase)"
  by (induction n) auto

lemma run_phases_set_ups: "count_list (run_phases n) SetUpPhase = n"
  by (induction n) auto

lemma thread_ok_spawn:
  "dependable S c \<Longrightarrow> depth c \<le> n \<Longrightarrow> ticked (in_base c) \<Longrightarrow> thread_ok S n (SpawnThread c) c s"
  using valid_run_phases by (auto simp: thread_ok_def SpawnThread_def at_phase_def run_phases_set_ups)

lemma thread_ok_later:
  "thread_ok S n ps c s \<Longrightarrow> clock_of S s \<le> clock_of S t \<Longrightarrow> thread_ok S n ps c t"
  by (auto simp: thread_ok_def at_phase_def started_def split: list.splits phase.splits)

lemma yields_pick:
  assumes "lawful E S" and "runnable todo \<noteq> []"
  shows "yields S (pick E todo) s (\<lambda>j t. j < length todo \<and> todo ! j \<noteq> [])"
  unfolding pick_def
proof (rule yields_bindC [OF yields_sysC_any])
  fix k and t :: "'a pstate"
  have "runnable todo ! (k mod length (runnable todo)) \<in> set (runnable todo)" using assms(2) by simp
  then show "yields S (returnC (runnable todo ! (k mod length (runnable todo)))) t (\<lambda>j t. j < length todo \<and> todo ! j \<noteq> [])"
    by (intro yields_returnC) (auto simp: runnable_def can_run_def)
qed (auto intro!: passing_intros assms(1))

lemma join_threads_yields:
  fixes E :: "('w, 'g) env" and cs :: "'g instr list" and s :: "'w pstate"
  assumes law: "lawful E S"
    and step: "\<And>p ps j c (s :: 'w pstate). j < N \<Longrightarrow> thread_ok S n (p # ps) c s \<Longrightarrow>
      yields S (step p j c) s (\<lambda>c' t. stays S c c' \<and> at_phase S ps c' t)"
    and passes: "\<And>p j c. passes (se_now S) (step p j c)"
  shows "length todo = length cs \<Longrightarrow> length cs \<le> N \<Longrightarrow> \<forall>j < length cs. thread_ok S n (todo ! j) (cs ! j) s \<Longrightarrow>
    yields S (join_threads E step k (todo, cs)) s (\<lambda>x t. list_all2 (stays S) cs (snd x))"
proof (induction k arbitrary: todo cs s)
  case 0
  then show ?case by (auto simp: thread_ok_def stays_def list_all2_conv_all_nth yields_def)
next
  case (Suc k)
  let ?P = "\<lambda>x (t :: 'w pstate). list_all2 (stays S) cs (snd x)"
  have same: "list_all2 (stays S) cs cs"
    using Suc.prems(3) by (auto simp: thread_ok_def stays_def list_all2_conv_all_nth)
  show ?case
  proof (cases "runnable todo = []")
    case False
    have one: "yields S (bindC (step (hd (todo ! j)) j (cs ! j)) (\<lambda>c.
        join_threads E step k (todo[j := tl (todo ! j)], cs[j := c]))) t ?P"
      if j: "j < length todo" "todo ! j \<noteq> []" "clock_of S s \<le> clock_of S t" for j t
    proof -
      have jc: "j < length cs" using j(1) Suc.prems(1) by simp
      have ok: "thread_ok S n (todo ! i) (cs ! i) t" if "i < length cs" for i
        using thread_ok_later [OF _ j(3)] Suc.prems(3) that by blast
      have phases: "thread_ok S n (hd (todo ! j) # tl (todo ! j)) (cs ! j) t" using ok [OF jc] j(2) by simp
      show ?thesis
      proof (rule yields_bindC [OF yields_time [OF step [OF _ phases]]], use jc Suc.prems(2) in simp, elim conjE)
        fix c and u :: "'w pstate"
        assume c: "stays S (cs ! j) c" "at_phase S (tl (todo ! j)) c u" "clock_of S t \<le> clock_of S u"
        have "valid_phases (tl (todo ! j))"
          using phases by (cases "hd (todo ! j)") (auto simp: thread_ok_def)
        then have "thread_ok S n (tl (todo ! j)) c u" using c phases by (simp add: thread_ok_def stays_def)
        moreover have "list_all2 (stays S) cs (cs[j := c])"
          using same c(1) jc by (auto simp: list_all2_conv_all_nth nth_list_update)
        moreover have "yields S (join_threads E step k (todo[j := tl (todo ! j)], cs[j := c])) u
            (\<lambda>x t. list_all2 (stays S) (cs[j := c]) (snd x))"
          using calculation(1) thread_ok_later [OF ok c(3)] Suc.prems(1,2) jc
          by (intro Suc.IH) (auto simp: nth_list_update)
        ultimately show "yields S (join_threads E step k (todo[j := tl (todo ! j)], cs[j := c])) u ?P"
          by (elim yields_weaken) (erule (1) list_all2_trans [rotated], simp add: stays_def)
      qed (auto intro!: passing_intros law passes)
    qed
    have "yields S (bindC (pick E todo) (\<lambda>j. if length cs \<le> j then failC (Undefined OutOfBounds)
        else bindC (step (hd (todo ! j)) j (cs ! j)) (\<lambda>c. join_threads E step k (todo[j := tl (todo ! j)], cs[j := c])))) s ?P"
      by (rule yields_bindC [OF yields_time [OF yields_pick [OF law False]]])
        (use one Suc.prems(1) in \<open>auto intro!: passing_intros law passes\<close>)
    then show ?thesis using False by (simp only: join_threads.simps fst_conv snd_conv if_False)
  qed (use same in \<open>simp add: yields_def\<close>)
qed


section \<open>Runs\<close>

text \<open>
  In every lawful session, \<^verbatim>\<open>RunSingle\<close> and \<^verbatim>\<open>TearDownSingle\<close> of the trees up to a depth end well; what the
  first leaves behind the second keeps.
\<close>

definition completes :: "('w, 'g) env \<Rightarrow> nat \<Rightarrow> bool" where
  "completes E n \<longleftrightarrow> (\<forall>S i s. lawful E S \<longrightarrow> dependable S i \<longrightarrow> depth i \<le> n \<longrightarrow>
     (prepared i \<longrightarrow> yields S (vRunSingle E n i) s
        (\<lambda>i' t. stays S i i' \<and> in_base i' = in_base i \<and> spawned_all i' \<and> typed (taught S i) t)) \<and>
     (started S (in_base i) s \<longrightarrow> spawned_all i \<longrightarrow>
        (\<forall>l. yields S (vTearDownSingle E n l i) s
           (\<lambda>i' t. stays S i i' \<and> (\<forall>n. ticks n (in_base i) \<longrightarrow> ticks n (in_base i')) \<and>
              (typed (taught S i) s \<longrightarrow> typed (taught S i) t)))))"

lemma completesD:
  assumes "completes E n" and "lawful E S" and "dependable S i" and "depth i \<le> n"
  shows "prepared i \<Longrightarrow> yields S (vRunSingle E n i) s
      (\<lambda>i' t. stays S i i' \<and> in_base i' = in_base i \<and> spawned_all i' \<and> typed (taught S i) t)"
    and "started S (in_base i) s \<Longrightarrow> spawned_all i \<Longrightarrow> yields S (vTearDownSingle E n l i) s
      (\<lambda>i' t. stays S i i' \<and> (\<forall>n. ticks n (in_base i) \<longrightarrow> ticks n (in_base i')) \<and>
         (typed (taught S i) s \<longrightarrow> typed (taught S i) t))"
  using assms unfolding completes_def by blast+

lemma single_yields:
  fixes E :: "('w, 'g) env"
  assumes "lawful E S" and n: "completes E n" and "dependable S i" and "depth i \<le> n" and "ticks (Suc k) (in_base i)"
  shows "yields S (Instruction_single (vSetUpSingle E) (vRunSingle E n) (vTearDownSingle E n) l i) s
    (\<lambda>i' t. stays S i i' \<and> ticks k (in_base i') \<and> typed (taught S i) t)"
  unfolding Instruction_single_def
proof (rule yields_bindC [OF vSetUpSingle_yields [OF assms(1,3,5)]], elim conjE)
  fix i1 and s1 :: "'w pstate"
  assume i1: "stays S i i1" "started S (in_base i1) s1" "ticks k (in_base i1)" "prepared i1"
  then have d: "dependable S i1" "depth i1 \<le> n" and taught1: "taught S i1 = taught S i"
    using assms(4) by (simp_all add: stays_def)
  show "yields S (bindC (vRunSingle E n i1) (vTearDownSingle E n l)) s1
      (\<lambda>i' t. stays S i i' \<and> ticks k (in_base i') \<and> typed (taught S i) t)"
  proof (rule yields_bindC [OF yields_time [OF completesD(1) [OF n assms(1) d i1(4)]]], elim conjE)
    fix i2 and t :: "'w pstate"
    assume i2: "stays S i1 i2" "in_base i2 = in_base i1" "spawned_all i2" "typed (taught S i1) t" "clock_of S s1 \<le> clock_of S t"
    then have d2: "dependable S i2" "depth i2 \<le> n" "started S (in_base i2) t" and taught2: "taught S i2 = taught S i"
      using d(2) i1(2) taught1 by (simp_all add: stays_def started_def)
    show "yields S (vTearDownSingle E n l i2) t (\<lambda>i' t. stays S i i' \<and> ticks k (in_base i') \<and> typed (taught S i) t)"
      by (rule yields_weaken [OF completesD(2) [OF n assms(1) d2 i2(3)]])
        (use i1 i2 taught1 taught2 in \<open>auto intro: stays_trans\<close>)
  qed (auto intro!: passing_intros assms(1))
qed (auto intro!: passing_intros assms(1))

lemma vRun_yields:
  fixes E :: "('w, 'g) env"
  assumes "lawful E S" and "completes E n" and "dependable S i" and "depth i \<le> n" and "ticked (in_base i)"
  shows "yields S (vRun E n i) s (\<lambda>i' t. stays S i i' \<and> typed (after S i) t)"
proof -
  let ?single = "Instruction_single (vSetUpSingle E) (vRunSingle E n) (vTearDownSingle E n)"
  have "yields S (run_times ?single r j) s
      (\<lambda>i' t. stays S j i' \<and> (0 < r \<or> typed (taught S j) s \<longrightarrow> typed (taught S j) t))"
    if "dependable S j" "depth j \<le> n" "ticks r (in_base j)" for r j s
    using that
  proof (induction r arbitrary: j s)
    case (Suc r)
    show ?case
      unfolding run_times.simps
    proof (rule yields_bindC [OF single_yields [OF assms(1,2) Suc.prems]], elim conjE)
      fix i1 and t :: "'w pstate" assume i1: "stays S j i1" "ticks r (in_base i1)" "typed (taught S j) t"
      then have same: "taught S i1 = taught S j" by (simp add: stays_def)
      have "yields S (run_times ?single r i1) t
          (\<lambda>i' u. stays S i1 i' \<and> (0 < r \<or> typed (taught S i1) t \<longrightarrow> typed (taught S i1) u))"
        using Suc.prems(2) i1(1,2) by (intro Suc.IH) (simp_all add: stays_def)
      then show "yields S (run_times ?single r i1) t
          (\<lambda>i' u. stays S j i' \<and> (0 < Suc r \<or> typed (taught S j) s \<longrightarrow> typed (taught S j) u))"
        by (rule yields_weaken) (use i1(3) same in \<open>auto intro: stays_trans [OF i1(1)]\<close>)
    qed (auto simp: Instruction_single_def intro!: passing_intros assms(1))
  qed (auto simp: yields_def stays_def)
  from yields_typed [OF this [OF assms(3-5)], of s] show ?thesis
    unfolding vRun_def Instruction_Run_def by (elim yields_weaken) (auto simp: after_def)
qed

lemma RunInstructions_yields:
  fixes E :: "('w, 'g) env"
  assumes "completes E n"
  shows "lawful E S \<Longrightarrow> dependable_all S cs \<Longrightarrow> level cs \<le> n \<Longrightarrow>
    yields S (RunInstructions E (vRun E n) cs) s (\<lambda>cs' t. all_stay S cs cs' \<and> typed (foldl after S cs) t)"
  unfolding RunInstructions_def
proof (induction cs arbitrary: S s)
  case Nil
  then show ?case by (auto simp: yields_def under_way_def)
next
  case (Cons c cs)
  let ?run = "\<lambda>c. bindC (vSetUp E c) (\<lambda>c1. bindC (vRun E n c1) vTearDown)"
  have d: "dependable S c" "depth c \<le> n" "dependable_all (after S c) cs" "level cs \<le> n"
    using Cons.prems(2,3) level_leD [of _ "c # cs" n] by (auto simp: level_def)
  note richer = after_richer [OF d(1)]
  have first: "yields S (?run c) s (\<lambda>c' t. stays S c c' \<and> typed (after S c) t)"
  proof (rule yields_bindC [OF vSetUp_yields [OF Cons.prems(1) d(1)]], elim conjE)
    fix c1 and t :: "'w pstate" assume c1: "stays S c c1" "ticked (in_base c1)"
    then have "yields S (vRun E n c1) t (\<lambda>c' t. stays S c1 c' \<and> typed (after S c1) t)"
      using d(2) by (intro vRun_yields Cons.prems(1) assms) (simp_all add: stays_def)
    then show "yields S (bindC (vRun E n c1) vTearDown) t (\<lambda>c' t. stays S c c' \<and> typed (after S c) t)"
      by (simp, elim yields_weaken) (auto simp: stays_after [OF c1(1)] intro: stays_trans [OF c1(1)])
  qed (auto intro!: passing_intros Cons.prems(1))
  show ?case
    unfolding mapC.simps
  proof (rule yields_bindC [OF first], elim conjE)
    fix c' and t :: "'w pstate" assume c': "stays S c c'" "typed (after S c) t"
    from yields_richer [OF Cons.IH [OF lawful_richer [OF Cons.prems(1) richer] d(3,4)] richer c'(2)]
    show "yields S (bindC (mapC ?run cs) (\<lambda>ys. returnC (c' # ys))) t
        (\<lambda>cs' t. all_stay S (c # cs) cs' \<and> typed (foldl after S (c # cs)) t)"
      by (rule yields_bindC) (use c' in \<open>auto intro!: yields_returnC passing_intros\<close>)
  qed (auto intro!: passing_intros Cons.prems(1))
qed

lemma iterate_step_yields:
  assumes "lawful E S" and "completes E n" and "dependable S (InstructionSet b f cs)" and "level cs \<le> n"
    and "iterates_over f" and "i < length xs" and "length xs \<le> 2 ^ 31"
  shows "yields S (iterate_step E (vRun E n) xs (f, cs) i) s (\<lambda>(f', cs') t.
    is_list_key f' = is_list_key f \<and> is_item_key f' = is_item_key f \<and> all_stay (inside S f) cs cs')"
proof -
  let ?R = "learn S (is_item_key f) Path"
  have item: "writable S (is_item_key f) Path" and kids: "dependable_all ?R cs" using assms(3,5) by simp_all
  note richer = richer_learn [OF item]
  note law = lawful_richer [OF assms(1) richer]
  have list: "is_list_key f' = is_list_key f" if "set_item E xs i f s = (Inr f', t)" for f' s t
    using that by (auto simp: set_item_def comp_Inr_iffs Let_def split: order_kind.splits prod.splits if_splits)
  obtain x f' where x: "is_item_key f' = is_item_key f"
      "set_item E xs i f = bindC (varsC (SetVar (is_item_key f) (VString x))) (\<lambda>_. returnC f')"
    using set_item_visit [OF lawfulD(4) [OF assms(1)] assms(6,7), of f] by blast
  have "yields S (set_item E xs i f) s (\<lambda>f' t. (is_item_key f' = is_item_key f \<and> typed ?R t) \<and> is_list_key f' = is_list_key f)" for s
  proof (rule yields_also)
    show "yields S (set_item E xs i f) s (\<lambda>f' t. is_item_key f' = is_item_key f \<and> typed ?R t)"
      unfolding x(2) by (rule yields_bindC [OF yields_set [OF item]]) (auto intro!: yields_returnC passing_intros x(1))
  qed (rule list)
  then show ?thesis
    unfolding iterate_step_def fst_conv snd_conv
  proof (rule yields_bindC, elim conjE)
    fix f' and t :: "'a pstate"
    assume f': "is_item_key f' = is_item_key f" "typed ?R t" "is_list_key f' = is_list_key f"
    show "yields S (bindC (RunInstructions E (vRun E n) cs) (\<lambda>cs'. returnC (f', cs'))) t (\<lambda>(f', cs') t.
        is_list_key f' = is_list_key f \<and> is_item_key f' = is_item_key f \<and> all_stay (inside S f) cs cs')"
      by (rule yields_bindC [OF yields_richer [OF RunInstructions_yields [OF assms(2) law kids assms(4)] richer f'(2)]])
        (use f' assms(5) in \<open>auto simp: inside_def intro!: yields_returnC passing_intros\<close>)
  qed (auto intro!: passing_intros assms(1))
qed

lemma set_RunSingle_yields:
  fixes E :: "('w, 'g) env"
  assumes "lawful E S" and "completes E n" and "dependable S (InstructionSet b f cs)" and "level cs \<le> n"
  shows "yields S (InstructionSet_RunSingle E (vRun E n) (f, cs)) s (\<lambda>(f', cs') t. is_list_key f' = is_list_key f \<and>
    is_item_key f' = is_item_key f \<and> all_stay (inside S f) cs cs' \<and> typed (taught S (InstructionSet b f cs)) t)"
proof (cases "iterates_over f")
  case True
  define I where "I ob \<longleftrightarrow> is_list_key (fst ob) = is_list_key f \<and> is_item_key (fst ob) = is_item_key f \<and>
    all_stay (inside S f) cs (snd ob)" for ob :: "'g iset \<times> 'g instr list"
  have types: "se_types S (is_list_key f) = Some Paths" using assms(3) True by simp
  have loop: "yields S (foldC (iterate_step E (vRun E n) xs) (f, cs) [0..<length xs]) t (\<lambda>ob t. I ob)"
    if xs: "length xs \<le> 2 ^ 31" for xs t
  proof (rule yields_foldC)
    show "I (f, cs)" using dependable_inside [OF assms(3)] by (simp add: I_def all_stay_refl)
    fix ob i s assume "i \<in> set [0..<length xs]" and ob: "I ob"
    then have i: "i < length xs" by simp
    have f': "is_list_key (fst ob) = is_list_key f" "is_item_key (fst ob) = is_item_key f"
      and cs': "all_stay (inside S f) cs (snd ob)" using ob by (simp_all add: I_def)
    have "base_ok b" using assms(3) by simp
    from stays_set [OF assms(3) cs' this refl f'] have d: "dependable S (InstructionSet b (fst ob) (snd ob))"
      by (simp add: stays_def)
    have "level (snd ob) \<le> n" using assms(4) all_stay_effect [OF cs'] level_cong [of "snd ob" cs] by simp
    from iterate_step_yields [OF assms(1,2) d this _ i xs, of s]
    have "yields S (iterate_step E (vRun E n) xs ob i) s (\<lambda>(f', cs') t. is_list_key f' = is_list_key (fst ob) \<and>
        is_item_key f' = is_item_key (fst ob) \<and> all_stay (inside S (fst ob)) (snd ob) cs')"
      using True f' by simp
    moreover have "inside S (fst ob) = inside S f" using f' by (simp add: inside_def)
    ultimately show "yields S (iterate_step E (vRun E n) xs ob i) s (\<lambda>ob t. I ob)"
      using f' by (elim yields_weaken) (auto simp: I_def intro: all_stay_trans [OF cs'])
  qed (auto simp: iterate_step_def intro!: passing_intros assms(1))
  have "yields S (InstructionSet_RunSingle E (vRun E n) (f, cs)) s (\<lambda>ob t. I ob)"
    unfolding InstructionSet_RunSingle_def fst_conv snd_conv if_P [OF True]
  proof (rule yields_bindC [OF yields_list [OF types]], elim exE conjE)
    fix v t xs assume v: "v = VList xs" "xs \<noteq> []" "length xs \<le> 2 ^ 31"
    then have "\<not> narrow32 (int (length xs) - 1) < 0"
      by (subst narrow32_in) (auto simp: in_i32_def Suc_le_eq not_less)
    then show "yields S (case v of VList xs \<Rightarrow> if narrow32 (int (length xs) - 1) < 0 then failC (Undefined EmptyRange)
        else foldC (iterate_step E (vRun E n) xs) (f, cs) [0..<length xs] | _ \<Rightarrow> failC not_iterable) t (\<lambda>ob t. I ob)"
      using loop v by simp
  qed (auto simp: iterate_step_def intro!: passing_intros assms(1) split: variant.split)
  from yields_typed [OF this] show ?thesis by (elim yields_weaken) (use True in \<open>auto simp: I_def taught_set\<close>)
next
  case False
  then have kids: "dependable_all S cs" and set: "inside S f = S" "taught S (InstructionSet b f cs) = foldl after S cs"
    using assms(3) by (simp_all only: inside_def taught_set dependable.simps False if_False)
  show ?thesis
    unfolding InstructionSet_RunSingle_def fst_conv snd_conv if_not_P [OF False] set
    by (rule yields_bindC [OF RunInstructions_yields [OF assms(2,1) kids assms(4)]])
      (auto intro!: yields_returnC passing_intros)
qed

lemma vRunSingle_yields:
  assumes "lawful E S" and "completes E n" and "dependable S i" and "depth i \<le> Suc n" and "prepared i"
  shows "yields S (vRunSingle E (Suc n) i) s
    (\<lambda>i' t. stays S i i' \<and> in_base i' = in_base i \<and> spawned_all i' \<and> typed (taught S i) t)"
proof (cases i)
  case (Leaf b k)
  then have "fine S (b, k)" using assms(3) by simp
  then have "yields S (leaf_RunSingle E (b, k)) s
      (\<lambda>ob t. (fst ob = b \<and> fine S ob \<and> typed (teaches S k) t) \<and> list_key (snd ob) = list_key k)"
    by (intro yields_also [OF leaf_RunSingle_teaches [OF assms(1)]]) (auto dest: leaf_keeps_list(3))
  then show ?thesis
    unfolding Leaf vRunSingle.simps
    by (intro yields_mapC_result, elim yields_weaken) (auto simp: to_leaf_def intro!: stays_leaf)
next
  case (InstructionSet b f cs)
  then have d: "dependable S (InstructionSet b f cs)" "level cs \<le> n" using assms(3,4) by simp_all
  from set_RunSingle_yields [OF assms(1,2) this, of s] show ?thesis
    unfolding InstructionSet vRunSingle.simps vRun_def [symmetric]
    by (intro yields_mapC_result, elim yields_weaken) (use d in \<open>auto intro!: stays_set\<close>)
next
  case (Multithreading b m cs)
  then have "yields S (vRunSingle E (Suc n) i) s (\<lambda>i' t. stays S i i' \<and> in_base i' = in_base i \<and> spawned_all i')"
    using assms(3,5) by (auto simp: Multithreading_RunSingle_def intro!: yields_mapC_result yields_returnC stays_threads stays_kids)
  from yields_typed [OF this] show ?thesis by (elim yields_weaken) (use Multithreading in simp)
qed

lemma enter_thread_yields:
  assumes "lawful E S" and "length (tp_name p) \<le> 15"
  shows "yields S (enter_thread E p) s (\<lambda>_ t. True)"
proof -
  have attr: "yields S (if SchedAttr_IsSet a then SchedAttr_Set E a else returnC ()) s (\<lambda>_ _. True)" for a s
    unfolding SchedAttr_IsSet_def SchedAttr_Set_def Syscall_SchedSetattr_def bindC_assoc
    by (rule yields_if, rule yields_bindC [OF yields_fail_ifC [where P = "\<lambda>_ _. True"]], simp, simp,
        rule yields_bindC [OF yields_calls(9) [OF assms(1)]])
      (auto intro!: yields_returnC yields_fail_ifC passing_intros assms(1) simp: fail_ifC_def)
  have cpus: "yields S (if SchedAffinity_IsSet a then SchedAffinity_Set E a else returnC ()) s (\<lambda>_ _. True)" for a s
    unfolding SchedAffinity_IsSet_def SchedAffinity_Set_def
    by (rule yields_if, rule yields_bindC [OF yields_fail_ifC [where P = "\<lambda>_ _. True"]], simp, simp,
        rule yields_bindC [OF yields_calls(16) [OF assms(1)]])
      (auto intro!: yields_returnC yields_fail_ifC passing_intros assms(1))
  have parts: "passes (se_now S) (SchedAttr_Set E a)" "passes (se_now S) (SchedAffinity_Set E c)" for a c
    unfolding SchedAttr_Set_def SchedAffinity_Set_def Syscall_SchedSetattr_def by (auto intro!: passing_intros assms(1))
  show ?thesis
    unfolding enter_thread_def
    by (rule yields_bindC [OF yields_calls(17) [OF assms]], simp only: not_True_eq_False if_False simp_thms bindC_return_left,
        rule yields_bindC [OF attr], rule cpus)
      (auto intro!: passing_intros assms(1) parts)
qed

lemma thread_phase_yields:
  assumes "lawful E S" and n: "completes E n" and "\<forall>p \<in> set params. length (tp_name p) \<le> 15"
    and "j < length params" and ok: "thread_ok S n (p # ps) c s"
  shows "yields S (thread_phase E (vRunSingle E n) (vTearDownSingle E n) params p j c) s
    (\<lambda>c' t. stays S c c' \<and> at_phase S ps c' t)"
proof -
  have c: "dependable S c" "depth c \<le> n" "valid_phases (p # ps)" using ok by (simp_all add: thread_ok_def)
  show ?thesis
  proof (cases p)
    case Enter
    have "yields S (enter_thread E (params ! j)) s (\<lambda>_ t. True)"
      using assms(3,4) by (intro enter_thread_yields assms(1)) simp
    then show ?thesis
      unfolding Enter thread_phase_def phase.case
      by (rule yields_bindC) (use ok Enter in \<open>auto simp: thread_ok_def stays_def at_phase_def
        intro!: yields_returnC passing_intros split: list.splits phase.splits\<close>)
  next
    case SetUpPhase
    then have "ticks (Suc (count_list ps SetUpPhase)) (in_base c)" using ok by (simp add: thread_ok_def at_phase_def)
    from vSetUpSingle_yields [OF assms(1) c(1) this, of s] show ?thesis
      unfolding SetUpPhase thread_phase_def phase.case
      by (elim yields_weaken) (use c(3) SetUpPhase in \<open>auto simp: at_phase_def split: list.splits phase.splits\<close>)
  next
    case RunPhase
    then have "prepared c" "started S (in_base c) s" "ticks (count_list ps SetUpPhase) (in_base c)"
      using ok by (simp_all add: thread_ok_def at_phase_def)
    note r = this
    show ?thesis
      unfolding RunPhase thread_phase_def phase.case
      by (rule yields_weaken [OF yields_time [OF completesD(1) [OF n assms(1) c(1,2) r(1)]]]) (use r c(3) RunPhase in \<open>auto simp: at_phase_def started_def split: list.splits phase.splits\<close>)
  next
    case (TearDownPhase l)
    then have t: "started S (in_base c) s" "spawned_all c" "ticks (count_list ps SetUpPhase) (in_base c)"
      using ok by (simp_all add: thread_ok_def at_phase_def)
    show ?thesis
      unfolding TearDownPhase thread_phase_def phase.case
      by (rule yields_weaken [OF completesD(2) [OF n assms(1) c(1,2) t(1,2), of l]])
        (use t(3) c(3) TearDownPhase in \<open>auto simp: at_phase_def split: list.splits phase.splits\<close>)
  qed
qed

lemma vTearDownSingle_yields:
  fixes E :: "('w, 'g) env"
  assumes "lawful E S" and "completes E n" and "dependable S i"
    and "depth i \<le> Suc n" and "started S (in_base i) s" and "spawned_all i"
  shows "yields S (vTearDownSingle E (Suc n) l i) s
    (\<lambda>i' t. stays S i i' \<and> (\<forall>n. ticks n (in_base i) \<longrightarrow> ticks n (in_base i')) \<and>
       (typed (taught S i) s \<longrightarrow> typed (taught S i) t))"
proof (cases i)
  case (Leaf b k)
  then have b: "fine S (b, k)" "started S b s" using assms(3,5) by simp_all
  then have R: "fine (teaches S k) (b, k)" "richer (teaches S k) S" using fine_teaches by blast+
  have "started (teaches S k) b s" using b(2) richer_same(2,3) [OF R(2)] by (simp add: started_def)
  note down = yields_keep [OF leaf_TearDownSingle_yields [OF assms(1) b]
      leaf_TearDownSingle_yields [OF lawful_richer [OF assms(1) R(2)] R(1) this] R(2)]
  have "list_key (snd ob) = list_key k" if "leaf_TearDownSingle E l (b, k) s = (Inr ob, t)" for ob t
    using leaf_keeps_list(4) that by (cases ob) auto
  then have "yields S (leaf_TearDownSingle E l (b, k)) s (\<lambda>ob t. ((fine S ob \<and> (\<forall>n. ticks n b \<longrightarrow> ticks n (fst ob)) \<and>
      same_params b (fst ob)) \<and> (typed (teaches S k) s \<longrightarrow> typed (teaches S k) t)) \<and> list_key (snd ob) = list_key k)"
    by (rule yields_also [OF down])
  then show ?thesis
    unfolding Leaf vTearDownSingle.simps
    by (intro yields_mapC_result, elim yields_weaken) (auto simp: to_leaf_def intro!: stays_leaf dest: same_params_repeat)
next
  case (InstructionSet b f cs)
  let ?R = "taught S i"
  have b: "base_ok b" "started S b s" using InstructionSet assms(3,5) by simp_all
  note R = dependable_richer(1) [OF assms(3)]
  have "started ?R b s" using b(2) richer_same(2,3) [OF R] by (simp add: started_def)
  from yields_keep [OF yields_TearDownSingle [OF assms(1) b]
      yields_TearDownSingle [OF lawful_richer [OF assms(1) R] b(1) this] R, of l]
  show ?thesis
    unfolding InstructionSet vTearDownSingle.simps
    by (intro yields_mapC_result, elim yields_weaken)
      (use assms(3) InstructionSet dependable_inside in
        \<open>auto intro!: stays_set all_stay_refl dest: same_params_repeat\<close>)
next
  case (Multithreading b m cs)
  let ?step = "thread_phase E (vRunSingle E n) (vTearDownSingle E n) (mt_params m)"
  have mt: "base_ok b" "length cs \<le> length (mt_params m)" "\<forall>p \<in> set (mt_params m). length (tp_name p) \<le> 15"
      "\<forall>c \<in> set cs. dependable S c \<and> ticked (in_base c)" "started S b s" "mt_threads m = map SpawnThread cs"
    using Multithreading assms(3,5,6) by auto
  have "\<forall>j < length cs. thread_ok S n (map SpawnThread cs ! j) (cs ! j) s"
    using mt(4) level_leD [of _ cs n] assms(4) Multithreading by (auto intro!: thread_ok_spawn)
  then have joins: "yields S (join_threads E ?step k (mt_threads m, cs)) s (\<lambda>x t. list_all2 (stays S) cs (snd x))" for k
    unfolding mt(6) using mt(2)
    by (intro join_threads_yields [OF assms(1) thread_phase_yields [OF assms(1,2) mt(3)]])
      (auto intro!: passing_intros assms(1))
  have "yields S (vTearDownSingle E (Suc n) l i) s
      (\<lambda>i' t. stays S i i' \<and> (\<forall>n. ticks n (in_base i) \<longrightarrow> ticks n (in_base i')))"
    unfolding Multithreading vTearDownSingle.simps Multithreading_TearDownSingle_def
  proof (rule yields_bindC [OF yields_time [OF joins]], clarify)
    fix todo :: "phase list list" and cs' :: "'g instr list" and t :: "'w pstate"
    assume cs': "list_all2 (stays S) cs (snd (todo, cs'))" "clock_of S s \<le> clock_of S t"
    have "started S b t" using mt(5) cs'(2) by (simp add: started_def)
    then show "yields S (bindC (Instruction_TearDownSingle E l b) (\<lambda>b'. bindC (mapC vTearDown cs') (\<lambda>cs''.
        returnC (Multithreading b' (m\<lparr>mt_threads := todo\<rparr>) cs'')))) t
        (\<lambda>i' t. stays S (Multithreading b m cs) i' \<and> (\<forall>n. ticks n (in_base (Multithreading b m cs)) \<longrightarrow> ticks n (in_base i')))"
      using cs'(1) mt assms(3) Multithreading
      by (intro yields_bindC [OF yields_TearDownSingle [OF assms(1)]])
        (auto simp: mapC_vTearDown bindC_return_left intro!: yields_returnC stays_threads passing_intros
          dest: same_params_repeat)
  qed (auto intro!: passing_intros assms(1))
  from yields_typed [OF this] show ?thesis by (elim yields_weaken) (use Multithreading in simp)
qed

lemma all_complete: "completes E n"
proof (induction n)
  case (Suc n)
  show ?case
    unfolding completes_def using vRunSingle_yields [OF _ Suc] vTearDownSingle_yields [OF _ Suc] by blast
next
  case 0
  have "depth i \<noteq> 0" for i :: "'b instr" by (cases i) simp_all
  then show ?case by (simp add: completes_def)
qed

lemma Run_yields:
  assumes "lawful E S" and "dependable S i" and "ticked (in_base i)"
  shows "yields S (Run E i) s (\<lambda>i' t. stays S i i' \<and> typed (after S i) t)"
  unfolding Run_def by (rule vRun_yields [OF assms(1) all_complete assms(2) order_refl assms(3)])

lemma run_instruction_yields:
  assumes "lawful E S" and "dependable S i"
  shows "yields S (run_instruction E i) s (\<lambda>i' t. stays S i i' \<and> typed (after S i) t)"
  unfolding run_instruction_def
proof (rule yields_bindC [OF vSetUp_yields [OF assms]], elim conjE)
  fix i1 u assume i1: "stays S i i1" "ticked (in_base i1)"
  then have "yields S (Run E i1) u (\<lambda>i' t. stays S i1 i' \<and> typed (after S i1) t)"
    by (intro Run_yields [OF assms(1)]) (simp_all add: stays_def)
  then show "yields S (bindC (Run E i1) vTearDown) u (\<lambda>i' t. stays S i i' \<and> typed (after S i) t)"
    by (simp, elim yields_weaken) (auto simp: stays_after [OF i1(1)] intro: stays_trans [OF i1(1)])
qed (auto intro!: passing_intros assms(1))

text \<open>
  C4: well typed benchmarks do not go wrong. In a session in which the clocks advance and no system call
  fails, a tree whose keys have the right types when they are read, whose block sizes fit the files and whose
  wake-ups are in range runs to its end: whatever the scheduler and the generators do, when the run is over
  before the end of the session, no method has failed or looped, no variable had the wrong type, no index left
  its list, every duration that was measured is in range, and the variables are well typed as before, with
  the lists of the directories that were read. The tree may read directories and iterate over their files, and
  have threads, files, busy waits, periods and offsets; locks are left out, whose calls return only when
  another thread lets them.
\<close>

theorem dependable_trees_complete:
  assumes "lawful E S" and "dependable S i" and "under_way S s"
    and "run_instruction E i s = (r, t)" and "clock_of S t < se_end S"
  shows "\<exists>i'. r = Inr i' \<and> dependable S i' \<and> base_ok (in_base i') \<and> depth i' = depth i \<and> typed S t \<and> typed (after S i) t"
  using yieldsD [OF run_instruction_yields [OF assms(1,2)] assms(3)] assms(4,5)
  by (auto simp: stays_def under_way_def dest: dependable_base)

text \<open>
  A day in which every call succeeds, and the clocks stop at its end; two threads in two rounds, one of which
  reads a directory and opens, writes and closes each of its files. Only the path and the descriptor are
  known at the start, not the list and its item.
\<close>

definition day_clock :: "clock_id \<Rightarrow> sample_world \<Rightarrow> (int \<times> timespec) \<times> sample_world" where
  "day_clock c w = ((0, Timespec (int (min (sw_now w) 86400)) 0), w\<lparr>sw_now := Suc (sw_now w)\<rparr>)"

definition day_env :: "(sample_world, nat) env" where
  "day_env = sample_env\<lparr>clock_gettime := day_clock, sys_FStat := \<lambda>fd w. ((0, 4096), w),
     sys_Open := \<lambda>p f m w. (5, log_call ''open'' [f, m] w),
     sys_OpenDir := \<lambda>p w. (Some 6, w\<lparr>sw_entries := [(8, ''a''), (4, ''sub''), (8, ''b'')]\<rparr>)\<rparr>"

definition day_session :: "sample_world session" where
  "day_session = \<lparr>se_now = (\<lambda>w. 1000000000 * int (min (sw_now w) 86400)), se_start = 0, se_end = 86401000000000,
     se_types = [0 \<mapsto> Path, 1 \<mapsto> Descriptor], se_vars = 4, se_path = 0, se_sizes = {4096}, se_work = 0,
     se_entries = (\<lambda>h. sw_entries), se_taken = {}\<rparr>"

lemma day_reading [simp]: "reading day_env w = Timespec (int (min (sw_now w) 86400)) 0"
  by (simp add: reading_def day_env_def day_clock_def)

lemma day_readings: "sw_now (after_readings day_env n w) = sw_now w + n"
  by (induction n arbitrary: w) (simp_all add: day_env_def day_clock_def)

lemma day_lawful: "lawful day_env day_session"
proof -
  have "draws_in_range day_env"
    using sample_env_draws by (simp add: draws_in_range_def day_env_def sample_env_def)
  moreover have "time_passes day_env (se_now day_session)"
    by (auto simp: time_passes_def day_env_def sample_env_def day_session_def day_clock_def log_call_def fresh_def
        sample_mmap_def sample_munmap_def Let_def split: list.splits)
  moreover have "calls_succeed day_env day_session"
    by (simp add: calls_succeed_def promises_def day_env_def sample_env_def day_session_def log_call_def
        sample_mmap_def sample_munmap_def Let_def max_def)
  moreover have "directories_end day_env day_session"
    by (auto simp: directories_end_def day_env_def sample_env_def day_session_def DT_REG_def split: list.splits)
  moreover have "names_free day_env day_session"
    by (simp add: names_free_def day_env_def sample_env_def day_session_def)
  moreover have "clocks_advance day_env day_session"
    unfolding clocks_advance_def
  proof (intro allI conjI impI)
    fix w
    have "nanos (reading day_env w) \<le> nanos (reading day_env (after_readings day_env 1 w))"
      by (simp add: day_readings nanos_def del: after_readings.simps)
    moreover have "normal_ts (reading day_env v)" for v by (simp add: normal_ts_def)
    ultimately show "\<exists>n. \<forall>t. nanos t \<le> nanos (reading day_env w) + se_work day_session \<longrightarrow> normal_ts t \<longrightarrow>
        \<not> timespec_less (reading day_env (after_readings day_env (Suc n) w)) t"
      by (intro exI [of _ 0]) (simp add: timespec_less_nanos day_session_def del: day_reading after_readings.simps)
  qed (auto simp: day_env_def day_clock_def day_session_def normal_ts_def nanos_def reading_def)
  ultimately show ?thesis by (simp add: lawful_def day_session_def)
qed

definition day_params :: params where
  "day_params = \<lparr>pr_repeat = 2, pr_period_us = 0, pr_offset_us = 0\<rparr>"

definition sample_thread :: thread_params where
  "sample_thread = \<lparr>tp_name = ''t'', tp_sched_attr = \<lparr>sc_initialized = False, sc_raw = sample_raw 0\<rparr>,
     tp_sched_affinity = \<lparr>sf_initialized = False, sf_mask = 0\<rparr>\<rparr>"

definition day_tree :: "nat instr" where
  "day_tree = Multithreading_ctor day_params
     [sample_leaf 3 [],
      InstructionSet_plain_ctor day_env kSequential kOnce 0 day_params [
        Leaf (Instruction_ctor ''read_directory'' day_params)
          (ReadDirectory \<lparr>rd_directory_name = ''/data/'', rd_output_key = 2\<rparr>),
        InstructionSet_ctor day_env day_params
         [to_leaf (map_prod id OpenFile (OpenFile_input day_env day_params 3 True False 1 kReadWrite)),
          to_leaf (map_prod id (WriteFile True)
            (ReadWriteFile_ctor day_env ''write_file'' day_params (-1) 512 0 kRandom 7 kOnce 1)),
          Leaf (Instruction_ctor ''close_file'' day_params) (CloseFile 1)] 2 3 kSequential kOnce 0]]
     [sample_thread, sample_thread]"

definition day_state :: "sample_world pstate" where
  "day_state = sample_state\<lparr>ps_vars := (ps_vars sample_state)\<lparr>sv_variables :=
     [VString ''/data/'', VInt 5, VInt 0, VInt 0]\<rparr>\<rparr>"

theorem dependable_trees_complete_witness:
  "\<exists>i' t. run_instruction day_env day_tree day_state = (Inr i', t) \<and> depth i' = 4 \<and> typed day_session t"
proof -
  have d: "dependable day_session day_tree"
    by (simp add: InstructionSet_plain_ctor_def writable_def after_def teaches_def day_tree_def day_params_def Multithreading_ctor_def InstructionSet_ctor_def Instruction_ctor_def to_leaf_def
        OpenFile_input_def ReadWriteFile_ctor_def open_defaults_def sample_leaf_def fine_def base_ok_def is_timed_def
        new_sampler_def rw_fits_def update_sizes_def sample_thread_def day_session_def in_i64_def narrow32_def Let_def)
  obtain r t where r: "run_instruction day_env day_tree day_state = (r, t)" by (rule prod.exhaust)
  have "under_way day_session day_state"
    by (auto simp: under_way_def typed_def day_session_def day_state_def sample_state_def valid_key_def split: if_splits)
  moreover have "clock_of day_session t < se_end day_session" by (simp add: day_session_def)
  ultimately obtain i' where "r = Inr i'" "depth i' = depth day_tree" "typed day_session t"
    using dependable_trees_complete [OF day_lawful d _ r] by blast
  moreover have "depth day_tree = 4"
    by (simp add: InstructionSet_plain_ctor_def day_tree_def Multithreading_ctor_def InstructionSet_ctor_def sample_leaf_def to_leaf_def level_def
        OpenFile_input_def ReadWriteFile_ctor_def)
  ultimately show ?thesis using r by simp
qed

end
