(* ===== verification/Sessions.thy ===== *)
theory Sessions
  imports Completion Dittobench Threads
begin

text \<open>
  \<^verbatim>\<open>main\<close> from the command line to the report, in a session: the composition of the contracts of the parts.
  A node is \<open>measured\<close> when it and the nodes below have samples; a run of a good tree leaves it measured, so
  its results can be collected, and with the runs that end well the whole program ends well.
\<close>

section \<open>A run leaves samples in every node\<close>

fun measured :: "'g instr \<Rightarrow> bool" where
  "measured (Leaf b k) \<longleftrightarrow> ts_samples (ib_sampler b) \<noteq> []"
| "measured (InstructionSet b f cs) \<longleftrightarrow> (\<forall>c \<in> set cs. measured c)"
| "measured (Multithreading b m cs) \<longleftrightarrow> ts_samples (ib_sampler b) \<noteq> [] \<and> (\<forall>c \<in> set cs. measured c)"

text \<open>What has been done when \<^verbatim>\<open>RunSingle\<close> starts, and when it has returned.\<close>

fun cleared :: "'g instr \<Rightarrow> bool" where
  "cleared (Multithreading b m cs) \<longleftrightarrow> mt_threads m = []"
| "cleared i \<longleftrightarrow> True"

fun ran :: "'g instr \<Rightarrow> bool" where
  "ran (Leaf b k) \<longleftrightarrow> True"
| "ran (InstructionSet b f cs) \<longleftrightarrow> (\<forall>c \<in> set cs. measured c)"
| "ran (Multithreading b m cs) \<longleftrightarrow> mt_threads m = map SpawnThread cs"

lemma set_up_cleared: "vSetUpSingle E i s = (Inr i', t) \<Longrightarrow> cleared i'"
  by (cases i) (auto simp: mapC_result_Inr_iff to_leaf_def Multithreading_SetUpSingle_def bindC_Inr_iff)

text \<open>A set whose instructions are left measured by every run.\<close>

definition measures :: "('g instr \<Rightarrow> ('w, 'g instr) act) \<Rightarrow> bool" where
  "measures run \<longleftrightarrow> (\<forall>i s i' t. good i \<longrightarrow> run i s = (Inr i', t) \<longrightarrow> measured i')"

lemma RunInstructions_measured:
  assumes "measures run" and "\<forall>c \<in> set cs. good c" and "RunInstructions E run cs s = (Inr cs', t)"
  shows "\<forall>c \<in> set cs'. measured c"
proof -
  have "list_all2 (\<lambda>c c'. measured c') cs cs'"
  proof (rule mapC_list_all2 [OF _ assms(3) [unfolded RunInstructions_def]])
    fix c s c' t
    assume c: "c \<in> set cs" and run: "bindC (vSetUp E c) (\<lambda>c1. bindC (run c1) vTearDown) s = (Inr c', t)"
    obtain c1 s1 where *: "vSetUp E c s = (Inr c1, s1)" "run c1 s1 = (Inr c', t)"
      using run by (auto simp: bindC_Inr_iff vTearDown_def)
    have "good c1" using vSetUp_alike [OF *(1)] assms(2) c by (simp add: alike_def)
    then show "measured c'" using assms(1) *(2) unfolding measures_def by blast
  qed
  then show ?thesis by (auto simp: list_all2_conv_all_nth in_set_conv_nth)
qed

lemma iterate_measured:
  assumes "measures run" and "child_runs E run"
  shows "kids K (snd ob) \<Longrightarrow> is \<noteq> [] \<Longrightarrow> foldC (iterate_step E run xs) ob is s = (Inr ob', t) \<Longrightarrow>
    \<forall>c \<in> set (snd ob'). measured c"
proof (induction "is" arbitrary: K ob s)
  case (Cons i "is")
  obtain ob1 s1 where *: "iterate_step E run xs ob i s = (Inr ob1, s1)"
      "foldC (iterate_step E run xs) ob1 is s1 = (Inr ob', t)"
    using Cons.prems(3) by (auto simp: bindC_Inr_iff)
  then obtain u where u: "RunInstructions E run (snd ob) u = (Inr (snd ob1), s1)"
    by (auto simp: iterate_step_Inr_iff)
  have "\<forall>c \<in> set (snd ob). good c" using Cons.prems(1) by (simp add: kids_def)
  then have "\<forall>c \<in> set (snd ob1). measured c" by (rule RunInstructions_measured [OF assms(1) _ u])
  then show ?case
    using Cons.IH [OF _ _ *(2)] RunInstructions_kids [OF assms(2) Cons.prems(1) u] *(2) by (cases "is = []") auto
qed simp

lemma set_measured:
  assumes "measures run" and "child_runs E run" and "kids K cs"
    and "InstructionSet_RunSingle E run (f, cs) s = (Inr (f', cs'), t)"
  shows "\<forall>c \<in> set cs'. measured c"
proof (cases "is_list_key f \<noteq> -1 \<and> is_item_key f \<noteq> -1")
  case True
  obtain v s1 where "(case v of
          VList xs \<Rightarrow>
            if narrow32 (int (length xs) - 1) < 0 then failC (Undefined EmptyRange)
            else foldC (iterate_step E run xs) (f, cs) [0..<length xs]
        | _ \<Rightarrow> failC not_iterable) s1 = (Inr (f', cs'), t)"
    using assms(4) True by (auto simp: InstructionSet_RunSingle_def bindC_Inr_iff simp del: varsC_Get)
  then obtain xs where xs: "\<not> narrow32 (int (length xs) - 1) < 0"
      "foldC (iterate_step E run xs) (f, cs) [0..<length xs] s1 = (Inr (f', cs'), t)"
    by (cases v) (auto split: if_splits)
  have "xs \<noteq> []" using xs(1) by (auto simp: narrow32_in in_i32_def)
  then show ?thesis using iterate_measured [OF assms(1,2) _ _ xs(2)] assms(3) by simp
next
  case False
  moreover have "\<forall>c \<in> set cs. good c" using assms(3) by (simp add: kids_def)
  ultimately show ?thesis
    using assms(4) RunInstructions_measured [OF assms(1)] by (auto simp: InstructionSet_RunSingle_def bindC_Inr_iff)
qed

text \<open>What holds of every thread before each of its steps holds at the end.\<close>

lemma join_threads_each:
  assumes step: "\<And>p ps j c s c' t. T (p # ps) c \<Longrightarrow> step p j c s = (Inr c', t) \<Longrightarrow> T ps c'"
  shows "join_threads E step n (todo, cs) s = (Inr (todo', cs'), t) \<Longrightarrow> list_all2 T todo cs \<Longrightarrow> list_all2 T todo' cs'"
proof (induction n arbitrary: todo cs s)
  case (Suc n)
  show ?case
  proof (cases "runnable todo = []")
    case False
    then obtain j u s1 c s2 where *: "pick E todo s = (Inr j, u)" "j < length cs" "step (hd (todo ! j)) j (cs ! j) u = (Inr c, s2)"
        "join_threads E step n (todo[j := tl (todo ! j)], cs[j := c]) s2 = (Inr (todo', cs'), t)"
      using Suc.prems(1) by (auto simp: bindC_Inr_iff split: if_splits)
    have "j \<in> set (runnable todo)"
      using *(1) False by (auto simp: pick_def bindC_Inr_iff)
    then have "todo ! j \<noteq> []" by (simp add: runnable_def can_run_def)
    then have "T (hd (todo ! j) # tl (todo ! j)) (cs ! j)"
      using Suc.prems(2) *(2) by (simp add: list_all2_conv_all_nth)
    from step [OF this *(3)] have "list_all2 T (todo[j := tl (todo ! j)]) (cs[j := c])"
      by (rule list_all2_update_cong [OF Suc.prems(2)])
    then show ?thesis by (rule Suc.IH [OF *(4)])
  qed (use Suc.prems in simp)
qed simp

text \<open>A thread between two of its phases.\<close>

definition thread_goes :: "phase list \<Rightarrow> 'g instr \<Rightarrow> bool" where
  "thread_goes ps c \<longleftrightarrow> good c \<and> valid_phases ps \<and> ps \<noteq> [Enter] \<and> (case ps of
       [] \<Rightarrow> measured c
     | RunPhase # _ \<Rightarrow> cleared c
     | TearDownPhase l # _ \<Rightarrow> ran c
     | _ \<Rightarrow> True)"

definition tree_measures :: "('w, 'g) env \<Rightarrow> nat \<Rightarrow> bool" where
  "tree_measures E n \<longleftrightarrow>
     (\<forall>i s i' t. good i \<longrightarrow> cleared i \<longrightarrow> vRunSingle E n i s = (Inr i', t) \<longrightarrow> ran i') \<and>
     (\<forall>l i s i' t. good i \<longrightarrow> ran i \<longrightarrow> vTearDownSingle E n l i s = (Inr i', t) \<longrightarrow> measured i')"

lemma thread_goes_phase:
  assumes "tree_measures E n" and "thread_goes (p # ps) c"
    and "thread_phase E (vRunSingle E n) (vTearDownSingle E n) params p j c s = (Inr c', t)"
  shows "thread_goes ps c'"
proof -
  have c: "good c" "valid_phases (p # ps)" "p # ps \<noteq> [Enter]" using assms(2) by (simp_all add: thread_goes_def)
  have good: "good c'" using phase_good [OF tree_laws_hold c(1) assms(3)] by blast
  show ?thesis
  proof (cases p)
    case Enter
    then show ?thesis using c good by (auto simp: thread_goes_def split: list.splits phase.splits)
  next
    case SetUpPhase
    then have "cleared c'" using assms(3) by (auto simp: thread_phase_def dest: set_up_cleared)
    then show ?thesis using SetUpPhase c good by (auto simp: thread_goes_def split: list.splits)
  next
    case RunPhase
    then have "cleared c" "vRunSingle E n c s = (Inr c', t)" using assms(2,3) by (auto simp: thread_goes_def thread_phase_def)
    then have "ran c'" using assms(1) c(1) unfolding tree_measures_def by blast
    then show ?thesis using RunPhase c good by (auto simp: thread_goes_def split: list.splits)
  next
    case (TearDownPhase l)
    then have "ran c" "vTearDownSingle E n l c s = (Inr c', t)" using assms(2,3) by (auto simp: thread_goes_def thread_phase_def)
    then have "measured c'" using assms(1) c(1) unfolding tree_measures_def by blast
    then show ?thesis using TearDownPhase c good by (auto simp: thread_goes_def split: list.splits)
  qed
qed

lemma thread_goes_spawn:
  assumes "good c"
  shows "thread_goes (SpawnThread c) c"
proof -
  obtain k where "nat (ib_repeat (in_base c)) = Suc k"
    using good_times [OF assms] by (cases "nat (ib_repeat (in_base c))") (auto simp: repeats_def)
  then show ?thesis
    using assms valid_run_phases [of "Suc k"] by (auto simp: thread_goes_def SpawnThread_def)
qed

lemma vRun_measured:
  assumes "tree_measures E n"
  shows "measures (vRun E n)"
  unfolding measures_def
proof (intro allI impI)
  fix i i' :: "'b instr" and s t :: "'a pstate"
  assume i: "good i" "vRun E n i s = (Inr i', t)"
  let ?single = "Instruction_single (vSetUpSingle E) (vRunSingle E n) (vTearDownSingle E n)"
  have one: "good j' \<and> measured j'" if j: "good j" "?single l j u = (Inr j', v)" for l j u j' v
  proof -
    obtain j1 u1 j2 u2 where *: "vSetUpSingle E j u = (Inr j1, u1)" "vRunSingle E n j1 u1 = (Inr j2, u2)"
        "vTearDownSingle E n l j2 u2 = (Inr j', v)"
      using j(2) by (auto simp: single_Inr_iff)
    have "good j1" using vSetUpSingle_effect(1) [OF *(1)] j(1) by (simp add: alike_def)
    moreover have "cleared j1" by (rule set_up_cleared [OF *(1)])
    moreover have "good j2" using tree.run_law [OF calculation(1) *(2)] by blast
    moreover have "good j'" using tree.tear_down_law [OF calculation(3) *(3)] by blast
    ultimately show ?thesis using assms * unfolding tree_measures_def by blast
  qed
  have run: "run_times ?single k j u = (Inr j', v) \<Longrightarrow> good j \<Longrightarrow> 0 < k \<Longrightarrow> measured j'" for k j u j' v
  proof (induction k arbitrary: j u)
    case (Suc k)
    obtain j1 u1 where *: "?single (k = 0) j u = (Inr j1, u1)" "run_times ?single k j1 u1 = (Inr j', v)"
      using Suc.prems(1) by (auto simp: bindC_Inr_iff)
    then show ?case using one [OF Suc.prems(2) *(1)] Suc.IH [OF *(2)] by (cases "k = 0") auto
  qed simp
  show "measured i'"
    using run [of "repeats i" i s i' t] good_times [OF i(1)] i by (simp add: vRun_def Instruction_Run_def repeats_def)
qed

lemma tree_measures_Suc:
  fixes E :: "('w, 'g) env"
  assumes "tree_measures E n"
  shows "tree_measures E (Suc n)"
  unfolding tree_measures_def
proof (intro conjI allI impI)
  fix i i' :: "'g instr" and s t :: "'w pstate"
  assume i: "good i" "cleared i" and run: "vRunSingle E (Suc n) i s = (Inr i', t)"
  show "ran i'"
  proof (cases i)
    case (InstructionSet b f cs)
    then obtain f' cs' where r: "i' = InstructionSet b f' cs'" "InstructionSet_RunSingle E (vRun E n) (f, cs) s = (Inr (f', cs'), t)"
      using run by (auto simp: mapC_result_Inr_iff vRun_def)
    obtain K where "kids K cs" using i(1) InstructionSet kids_of_good by blast
    moreover have "child_runs E (vRun E n)" using tree_laws_hold [of E n] by (simp add: tree_laws_def)
    ultimately show ?thesis using set_measured [OF vRun_measured [OF assms] _ _ r(2)] r(1) by simp
  qed (use i run in \<open>auto simp: mapC_result_Inr_iff to_leaf_def Multithreading_RunSingle_def split: if_splits\<close>)
next
  fix l and i i' :: "'g instr" and s t :: "'w pstate"
  assume i: "good i" "ran i" and down: "vTearDownSingle E (Suc n) l i s = (Inr i', t)"
  show "measured i'"
  proof (cases i)
    case (Leaf b k)
    then obtain b' k' where *: "leaf_TearDownSingle E l (b, k) s = (Inr (b', k'), t)" "i' = Leaf b' k'"
      using down by (auto simp: mapC_result_Inr_iff to_leaf_def)
    have "leaf_ok (b, k)" using i(1) Leaf by simp
    then show ?thesis using tear_down_base_effect(2) [OF leaf_tear_down(1) [OF *(1)]] *(2) by auto
  next
    case (InstructionSet b f cs)
    then show ?thesis using i(2) down by (auto simp: mapC_result_Inr_iff)
  next
    case (Multithreading b m cs)
    then obtain b' todo cs' u where *: "join_threads E (thread_phase E (vRunSingle E n) (vTearDownSingle E n) (mt_params m))
          (sum_list (map length (map SpawnThread cs))) (map SpawnThread cs, cs) s = (Inr (todo, cs'), u)"
        "i' = Multithreading b' (m\<lparr>mt_threads := todo\<rparr>) cs'" "Instruction_TearDownSingle E l b u = (Inr b', t)"
      using down i(2) by (auto simp: Multithreading_TearDownSingle_def bindC_Inr_iff)
    have "list_all2 thread_goes (map SpawnThread cs) cs"
      using i(1) Multithreading by (auto simp: list_all2_conv_all_nth intro!: thread_goes_spawn)
    moreover have "thread_goes ps c'"
      if "thread_goes (p # ps) c" "thread_phase E (vRunSingle E n) (vTearDownSingle E n) (mt_params m) p j c s = (Inr c', t)"
      for p ps j c s c' t
      using that by (rule thread_goes_phase [OF assms])
    ultimately have "list_all2 thread_goes todo cs'" using join_threads_each [OF _ *(1)] by blast
    moreover have "\<forall>ps \<in> set todo. ps = []"
      using join_threads_executes [OF *(1) waits_first_spawn refl] by blast
    ultimately have "measured (cs' ! j)" if "j < length cs'" for j
      using that by (auto simp: list_all2_conv_all_nth all_set_conv_all_nth thread_goes_def)
    then have "\<forall>c \<in> set cs'. measured c" by (simp add: all_set_conv_all_nth)
    then show ?thesis using *(2) tear_down_base_effect(2) [OF tear_down_baseI [OF *(3)]] by auto
  qed
qed

lemma trees_measure: "tree_measures E n"
proof (induction n)
  case (Suc n)
  then show ?case by (rule tree_measures_Suc)
qed (simp add: tree_measures_def)

lemma run_main_measured:
  assumes "fresh i" and "run_main E i s = (Inr main, t)"
  shows "measured main"
proof -
  obtain i1 s1 s2 s3 where *: "vSetUp E i s = (Inr i1, s1)" "vRun E (depth i1) i1 s2 = (Inr main, s3)"
    using assms(2) by (rule run_main_steps)
  have "good i1" using vSetUp_alike [OF *(1)] fresh_good [OF assms(1)] by (simp add: alike_def)
  then show ?thesis using vRun_measured [OF trees_measure] *(2) unfolding measures_def by blast
qed

section \<open>The whole program\<close>

text \<open>
  The counts of a tree that has run fit the types of the vectors and of the repetitions: no vector has
  \<open>2 ^ 64\<close> elements.
\<close>

fun addressable :: "'g instr \<Rightarrow> bool" where
  "addressable (Leaf b k) \<longleftrightarrow> True"
| "addressable (InstructionSet b f cs) \<longleftrightarrow> (\<forall>c \<in> set cs. in_range c \<and> addressable c)"
| "addressable (Multithreading b m cs) \<longleftrightarrow> (\<forall>c \<in> set cs. addressable c)"

lemma base_readable: "base_ok b \<Longrightarrow> ts_samples (ib_sampler b) \<noteq> [] \<Longrightarrow> readable b"
  by (simp add: base_ok_def readable_def small_readable)

lemma dependable_each:
  fixes S :: "'w session"
  shows "dependable_all S cs \<Longrightarrow> c \<in> set cs \<Longrightarrow> \<exists>R :: 'w session. dependable R c"
  by (induction cs arbitrary: S) auto

lemma dependable_ready:
  fixes S :: "'w session"
  shows "dependable S i \<Longrightarrow> measured i \<Longrightarrow> addressable i \<Longrightarrow> ready i"
proof (induction i arbitrary: S)
  case (InstructionSet b f cs)
  have "ready c" if "c \<in> set cs" for c
    using dependable_each [of _ cs c] dependable_inside [OF InstructionSet.prems(1)] InstructionSet.IH [OF that]
      InstructionSet.prems(2,3) that by auto
  then show ?case using InstructionSet.prems by simp
qed (auto simp: fine_def intro!: base_readable)

text \<open>The sections of a benchmark: each may read what those before it leave behind.\<close>

fun after_section :: "'w session \<Rightarrow> 'g instr option \<Rightarrow> 'w session" where
  "after_section S None = S"
| "after_section S (Some i) = after S i"

definition dependable_trees :: "'w session \<Rightarrow> 'g parsed \<Rightarrow> bool" where
  "dependable_trees S trees \<longleftrightarrow> (let R = after_section S (pd_init trees) in
     (\<forall>i. pd_init trees = Some i \<longrightarrow> dependable S i) \<and> dependable R (pd_main trees) \<and>
     (\<forall>i. pd_clean_up trees = Some i \<longrightarrow> dependable (after R (pd_main trees)) i))"

lemma yields_section:
  assumes "lawful E S" and "\<forall>i. part = Some i \<longrightarrow> dependable S i"
  shows "yields S (run_section E part) s (\<lambda>_ t. typed (after_section S part) t)"
proof (cases part)
  case None
  then show ?thesis by (auto simp: run_section_def yields_def under_way_def)
next
  case (Some i)
  then have "dependable S i" using assms(2) by simp
  then show ?thesis
    unfolding run_section_def Some option.case after_section.simps
    by (intro yields_bindC [OF run_instruction_yields [OF assms(1)]]) (auto intro!: yields_returnC passing_intros)
qed

lemma section_richer: "\<forall>i. part = Some i \<longrightarrow> dependable S i \<Longrightarrow> richer (after_section S part) S"
  by (cases part) (auto intro: after_richer)

lemma yields_main:
  assumes "lawful E S" and "dependable S i"
  shows "yields S (run_main E i) s (\<lambda>main t. dependable S main \<and> typed (after S i) t)"
  unfolding run_main_def
proof (rule yields_bindC [OF vSetUp_yields [OF assms]], elim conjE)
  fix i1 and t :: "'a pstate" assume i1: "stays S i i1" "ticked (in_base i1)"
  let ?P = "\<lambda>main t. dependable S main \<and> typed (after S i) t"
  have "yields S (Run E i1) u (\<lambda>i2 v. stays S i1 i2 \<and> typed (after S i1) v)" for u
    using i1 by (intro Run_yields [OF assms(1)]) (simp_all add: stays_def)
  then have run: "yields S (Run E i1) u ?P" for u
    by (rule yields_weaken) (simp add: stays_after [OF i1(1)], simp add: stays_def)
  have mark: "yields S (Tracer_End E name) u (\<lambda>_ v. typed (after S i) v)" if "typed (after S i) u" for name u
    using that by (simp add: Tracer_End_def yields_def write_mark_app under_way_def)
  have "yields S (bindC (Run E i1) (\<lambda>i2. bindC (Tracer_End E ''Benchmark'') (\<lambda>_. vTearDown i2))) u ?P" for u
    by (rule yields_bindC [OF run], elim conjE, rule yields_bindC [OF mark])
      (auto simp: vTearDown_def Tracer_End_def intro!: yields_returnC passing_intros)
  then show "yields S (bindC (Tracer_Start E ''Benchmark'') (\<lambda>_. bindC (Run E i1) (\<lambda>i2.
      bindC (Tracer_End E ''Benchmark'') (\<lambda>_. vTearDown i2)))) t ?P"
    unfolding Tracer_Start_def
    by (rule yields_bindC [OF yields_mark]) (auto intro!: passing_intros assms(1))
qed (auto intro!: passing_intros assms(1))

lemma yields_random_string:
  assumes "lawful E S"
  shows "yields S (random_string E n) s (\<lambda>_ _. True)"
proof (induction n arbitrary: s)
  case (Suc n)
  have "passes (se_now S) (random_string E k)" for k
    by (induction k) (auto intro!: passing_intros assms)
  then show ?case
    using Suc by (auto intro!: yields_bindC [OF yields_sysC_any] yields_bindC [OF Suc] yields_returnC passing_intros assms)
qed (simp add: yields_def)

text \<open>What \<^verbatim>\<open>main\<close> does once the benchmark is loaded, on the state of the process.\<close>

definition benchmark_session ::
  "('w, 'g) program \<Rightarrow> results_output \<Rightarrow> pb_benchmark \<Rightarrow> 'g parsed \<Rightarrow> ('w, string) act" where
  "benchmark_session X results_output b trees =
     bindC (Tracer_StartSession (ou_env X) (pg_dump X b)) (\<lambda>ident.
     bindC (run_section (ou_env X) (pd_init trees)) (\<lambda>_.
     bindC (run_main (ou_env X) (pd_main trees)) (\<lambda>main.
     bindC (liftR (report X results_output main)) (\<lambda>out.
     bindC (run_section (ou_env X) (pd_clean_up trees)) (\<lambda>_.
     bindC (Tracer_destroy (ou_env X) ident) (\<lambda>_.
     returnC out))))))"

lemma procC_app: "procC m st = (fst (m (fst st)), (snd (m (fst st)), snd st))"
  by (simp add: procC_def case_prod_beta)

lemma procC_bindC: "bindC (procC m) (\<lambda>x. procC (k x)) = procC (bindC m k)"
  by (rule ext) (simp add: procC_app bindC_app split: sum.splits prod.splits)

lemma procC_liftR: "bindC (liftR r) (\<lambda>x. procC (k x)) = procC (bindC (liftR r) k)"
  by (cases r; rule ext) (simp_all add: procC_app bindC_app)

lemma procC_returnC: "returnC x = procC (returnC x)"
  by (rule ext) (simp add: procC_app)

lemma dittobench_session:
  assumes "ParseArguments (pg_workloads X) Logger_ctor name args = Inr (ca, lg)"
    and "load_arguments X ca st = (Inr (b, trees), st1)"
  shows "dittobench X name args st = procC (benchmark_session X (ca_results_output ca) b trees) st1"
proof -
  have "dittobench X name args st =
      bindC (procC (Tracer_StartSession (ou_env X) (pg_dump X b))) (\<lambda>ident.
      bindC (procC (run_section (ou_env X) (pd_init trees))) (\<lambda>_.
      bindC (procC (run_main (ou_env X) (pd_main trees))) (\<lambda>main.
      bindC (liftR (report X (ca_results_output ca) main)) (\<lambda>out.
      bindC (procC (run_section (ou_env X) (pd_clean_up trees))) (\<lambda>_.
      bindC (procC (Tracer_destroy (ou_env X) ident)) (\<lambda>_.
      returnC out)))))) st1"
    using assms by (simp add: dittobench_def bindC_app)
  also have "\<dots> = procC (benchmark_session X (ca_results_output ca) b trees) st1"
    unfolding benchmark_session_def procC_returnC procC_bindC procC_liftR ..
  finally show ?thesis .
qed

lemma report_succeeds:
  assumes "CollectResults (pg_nth_el X) [] main = Inr r" and "results_output \<noteq> kReport"
  shows "\<exists>out. report X results_output main = Inr out"
  using assms by (cases results_output) (simp_all add: report_def Result_Print_def)

lemma yields_main_reports:
  assumes "lawful (ou_env X) S" and "dependable S i" and "fresh i" and "results_output \<noteq> kReport"
    and "\<And>main s t. run_main (ou_env X) i s = (Inr main, t) \<Longrightarrow> addressable main"
  shows "yields S (run_main (ou_env X) i) s
    (\<lambda>main t. (\<exists>out. report X results_output main = Inr out) \<and> typed (after S i) t)"
proof -
  have "yields S (run_main (ou_env X) i) s (\<lambda>main t. (dependable S main \<and> typed (after S i) t) \<and> measured main)"
    by (rule yields_also [OF yields_main [OF assms(1,2)] run_main_measured [OF assms(3)]])
  moreover have "\<exists>out. report X results_output main = Inr out"
    if main: "dependable S main" "measured main" "run_main (ou_env X) i s = (Inr main, t)" for main t
  proof -
    have "ready main" using dependable_ready [OF main(1,2) assms(5) [OF main(3)]] .
    then obtain r where "CollectResults (pg_nth_el X) [] main = Inr r"
      using run_main_collects [OF assms(3) main(3)] by blast
    then show ?thesis by (rule report_succeeds [OF _ assms(4)])
  qed
  ultimately show ?thesis unfolding yields_def by blast
qed

lemma yields_session:
  fixes X :: "('w, 'g) program"
  assumes "lawful (ou_env X) S" and "pg_dump X b \<noteq> None" and trees: "dependable_trees S trees"
    and "fresh (pd_main trees)" and "results_output \<noteq> kReport"
    and "\<And>main s t. run_main (ou_env X) (pd_main trees) s = (Inr main, t) \<Longrightarrow> addressable main"
  shows "yields S (benchmark_session X results_output b trees) s (\<lambda>_ _. True)"
proof -
  note [passing_intros] = lawful_passes [OF assms(1)]
  define R where "R = after_section S (pd_init trees)"
  define Q where "Q = after R (pd_main trees)"
  have init: "\<forall>i. pd_init trees = Some i \<longrightarrow> dependable S i" and main: "dependable R (pd_main trees)"
    and clean_up: "\<forall>i. pd_clean_up trees = Some i \<longrightarrow> dependable Q i"
    using trees by (simp_all add: dependable_trees_def R_def Q_def Let_def)
  have R: "richer R S" unfolding R_def by (rule section_richer [OF init])
  have Q: "richer Q R" unfolding Q_def by (rule after_richer [OF main])
  note law_R = lawful_richer [OF assms(1) R]
  note law_Q = lawful_richer [OF law_R Q]
  have now: "se_now R = se_now S" "se_now Q = se_now S" using richer_same(2) R Q by metis+
  obtain json where json: "pg_dump X b = Some json" using assms(2) by blast
  have strings: "passes (se_now S) (random_string (ou_env X) k)" for k
    by (induction k) (auto intro!: passing_intros)
  have start: "yields S (Tracer_StartSession (ou_env X) (pg_dump X b)) s (\<lambda>_ _. True)"
    unfolding Tracer_StartSession_def json option.case
    by (auto intro!: yields_returnC yields_bindC [OF yields_random_string [OF assms(1)]] yields_bindC [OF yields_mark] passing_intros)
  have main_passes: "passes (se_now S) (run_main (ou_env X) i)" for i
    unfolding run_main_def vTearDown_def by (auto intro!: passing_intros)
  have section_passes: "passes (se_now S) (run_section (ou_env X) part)" for part
    unfolding run_section_def by (cases part) (auto intro!: passing_intros)
  have destroy: "passes (se_now S) (Tracer_destroy (ou_env X) ident)" for ident
    unfolding Tracer_destroy_def by (intro passing_intros)
  note p = passing_intros main_passes section_passes destroy
  have last: "yields Q (bindC (run_section (ou_env X) (pd_clean_up trees)) (\<lambda>_.
      bindC (Tracer_destroy (ou_env X) ident) (\<lambda>_. returnC out))) t (\<lambda>_ _. True)" for ident out t
    by (rule yields_bindC [OF yields_section [OF law_Q clean_up]], unfold Tracer_destroy_def, rule yields_bindC [OF yields_mark])
      (auto simp: now intro!: yields_returnC passing_intros)
  have report: "yields Q (bindC (liftR (report X results_output main)) (\<lambda>out.
      bindC (run_section (ou_env X) (pd_clean_up trees)) (\<lambda>_. bindC (Tracer_destroy (ou_env X) ident) (\<lambda>_. returnC out))))
      t (\<lambda>_ _. True)" if ok: "\<exists>out. report X results_output main = Inr out" for main ident t
  proof -
    obtain out where "report X results_output main = Inr out" using ok by blast
    then show ?thesis
      by (intro yields_bindC [OF yields_liftR [where P = "\<lambda>_ _. True"]]) (auto simp: now intro!: last p)
  qed
  have rest: "yields R (bindC (run_main (ou_env X) (pd_main trees)) (\<lambda>main. bindC (liftR (report X results_output main)) (\<lambda>out.
      bindC (run_section (ou_env X) (pd_clean_up trees)) (\<lambda>_. bindC (Tracer_destroy (ou_env X) ident) (\<lambda>_. returnC out)))))
      t (\<lambda>_ _. True)" for ident t
    by (rule yields_bindC [OF yields_main_reports [OF law_R main assms(4-6)]])
      (auto simp: now Q_def [symmetric] intro!: p yields_any [OF yields_richer [OF report Q]])
  show ?thesis
    unfolding benchmark_session_def
    by (rule yields_bindC [OF start], rule yields_bindC [OF yields_section [OF assms(1) init]], fold R_def)
      (auto intro!: p yields_any [OF yields_richer [OF rest R]])
qed

section \<open>Properties\<close>


section \<open>Examples\<close>

text \<open>
  A benchmark that opens a file and lists its directory, writes to the file at random offsets, closes it and
  deletes the files of the list.
\<close>

definition day_benchmark :: pb_benchmark where
  "day_benchmark =
     \<lparr>pb_init = Some (PbInstruction 1 0 0 (PbInstructionSet
        [PbInstruction 1 0 0 (PbSimple (PbOpenFile \<lparr>po_file = PbPathName ''f'', po_output_fd = Some ''fd'',
           po_create = True, po_direct_io = False, po_access_mode = READ_WRITE\<rparr>)),
         PbInstruction 1 0 0 (PbSimple (PbReadDirectory [] ''files''))] None)),
      pb_main = PbInstruction 2 0 0 (PbSimple (PbWriteFile \<lparr>pw_input_fd = ''fd'', pw_size = -1, pw_block_size = 512,
        pw_starting_offset = 0, pw_access_order = RANDOM, pw_seed = Some 7, pw_reseeding = ONCE\<rparr> True)),
      pb_clean_up = Some (PbInstruction 1 0 0 (PbInstructionSet
        [PbInstruction 1 0 0 (PbSimple (PbCloseFile ''fd'')),
         PbInstruction 1 0 0 (PbInstructionSet [PbInstruction 1 0 0 (PbSimple (PbDeleteFile (PbInput ''file'')))]
           (Some \<lparr>pi_list_name = ''files'', pi_item_name = ''file'', pi_access_order = SEQUENTIAL, pi_reseeding = ONCE,
              pi_seed = Some 0\<rparr>))] None)),
      pb_global = \<lparr>pg_absolute_path = ''/data/'', pg_mutex = None\<rparr>\<rparr>"

definition day_outside :: "(sample_world, nat) outside" where
  "day_outside = sample_outside\<lparr>ou_env := day_env, ou_text_parse := (\<lambda>t. if t = ''main'' then Some day_benchmark else None),
     ou_files := [''/day.ditto'' \<mapsto> ''main'']\<rparr>"

definition day_program :: "(sample_world, nat) program" where
  "day_program = outside.extend day_outside
     \<lparr>pg_dump = (\<lambda>b. Some ''{}''), pg_to_json = (\<lambda>r. Some []), pg_nth_el = nth_element_sorting, pg_workloads = []\<rparr>"

definition once_params :: params where
  "once_params = \<lparr>pr_repeat = 1, pr_period_us = 0, pr_offset_us = 0\<rparr>"

definition day_write :: "nat instr" where
  "day_write = to_leaf (map_prod id (WriteFile True)
     (ReadWriteFile_ctor day_env ''write_file'' day_params (-1) 512 0 kRandom 7 kOnce 1))"

definition day_trees :: "nat parsed" where
  "day_trees =
     \<lparr>pd_init = Some (InstructionSet_plain_ctor day_env kSequential kOnce 0 once_params
        [Leaf (Instruction_ctor ''open_file'' once_params)
           (OpenFile ((open_defaults day_env True False 1 kReadWrite)\<lparr>of_path_name := ''/data/f''\<rparr>)),
         Leaf (Instruction_ctor ''read_directory'' once_params)
           (ReadDirectory \<lparr>rd_directory_name = ''/data/'', rd_output_key = 2\<rparr>)]),
      pd_main = day_write,
      pd_clean_up = Some (InstructionSet_plain_ctor day_env kSequential kOnce 0 once_params
        [Leaf (Instruction_ctor ''close_file'' once_params) (CloseFile 1),
         InstructionSet_ctor day_env once_params
           [Leaf (Instruction_ctor ''delete_file'' once_params) (DeleteFile \<lparr>df_path_name = [], df_input_key = 3\<rparr>)]
           2 3 kSequential kOnce 0])\<rparr>"

lemma day_loads:
  "\<exists>u. load_benchmark day_outside day_benchmark (sample_start, 0) = (Inr day_trees, u) \<and>
     ps_path_key (fst u) = 0 \<and> sv_variables (ps_vars (fst u)) = [VString ''/data/'', VInt 0, VInt 0, VInt 0]"
proof -
  have "case load_benchmark day_outside day_benchmark (sample_start, 0) of
      (Inr trees, u) \<Rightarrow> trees = day_trees \<and> ps_path_key (fst u) = 0 \<and>
        sv_variables (ps_vars (fst u)) = [VString ''/data/'', VInt 0, VInt 0, VInt 0] | _ \<Rightarrow> False"
    by code_simp
  then show ?thesis by (auto split: prod.splits sum.splits)
qed

lemma day_trees_dependable: "dependable_trees day_session day_trees"
  by (simp add: dependable_trees_def after_def taught_set teaches_def writable_def day_trees_def day_write_def once_params_def
        day_params_def Instruction_ctor_def to_leaf_def ReadWriteFile_ctor_def InstructionSet_ctor_def
        open_defaults_def InstructionSet_plain_ctor_def fine_def base_ok_def is_timed_def new_sampler_def rw_fits_def
        update_sizes_def day_session_def in_i64_def narrow32_def Let_def)

text \<open>What comes out of a leaf is a leaf.\<close>

lemma leaf_addressable: "depth i = Suc 0 \<Longrightarrow> addressable i"
proof (cases i)
  case (InstructionSet b f cs)
  assume "depth i = Suc 0"
  moreover have "0 < depth c" for c :: "'a instr" by (cases c) simp_all
  ultimately have "cs = []" using InstructionSet by (cases cs) (auto simp: level_def)
  then show ?thesis using InstructionSet by simp
next
  case (Multithreading b m cs)
  assume "depth i = Suc 0"
  moreover have "0 < depth c" for c :: "'a instr" by (cases c) simp_all
  ultimately have "cs = []" using Multithreading by (cases cs) (auto simp: level_def)
  then show ?thesis using Multithreading by simp
qed simp

lemma run_main_depth:
  assumes "run_main E i s = (Inr main, t)"
  shows "depth main = depth i"
proof -
  obtain i1 s1 s2 s3 where *: "vSetUp E i s = (Inr i1, s1)" "vRun E (depth i1) i1 s2 = (Inr main, s3)"
    using assms by (rule run_main_steps)
  have "keeps_depth (vRun E n)" for n
    unfolding vRun_def using methods_keep_depth by (intro run_keeps_depth) blast+
  from keeps_depthD [OF this *(2)] show ?thesis using vSetUp_alike [OF *(1)] by (simp add: alike_def)
qed


end
