(* ===== verification/Syscalls.thy ===== *)
theory Syscalls
  imports Contract Multithreading_Utils
begin

text \<open>
  \<^verbatim>\<open>src/syscall.cpp\<close>: the class \<^verbatim>\<open>Syscall\<close>, which implements the interface of the operating system that the
  instructions use. \<open>libc\<close> is what it calls; \<open>Syscall\<close> makes an environment of it, so that everything that is
  shown for an environment holds of a run on this class. A path reaches the system as a C string, a number of
  bytes as a \<^verbatim>\<open>size_t\<close>.
\<close>

record 'w libc =
  lc_access :: "string \<Rightarrow> int \<Rightarrow> 'w \<Rightarrow> int \<times> 'w"
  lc_close :: "int \<Rightarrow> 'w \<Rightarrow> int \<times> 'w"
  lc_closedir :: "int \<Rightarrow> 'w \<Rightarrow> int \<times> 'w"
  lc_posix_fadvise64 :: "int \<Rightarrow> int \<Rightarrow> int \<Rightarrow> int \<Rightarrow> 'w \<Rightarrow> int \<times> 'w"
  lc_fallocate64 :: "int \<Rightarrow> int \<Rightarrow> int \<Rightarrow> int \<Rightarrow> 'w \<Rightarrow> int \<times> 'w"
  lc_ftruncate64 :: "int \<Rightarrow> int \<Rightarrow> 'w \<Rightarrow> int \<times> 'w"
  lc_fstat64 :: "int \<Rightarrow> 'w \<Rightarrow> (int \<times> int) \<times> 'w"
  lc_fsync :: "int \<Rightarrow> 'w \<Rightarrow> int \<times> 'w"
  lc_gettid :: "'w \<Rightarrow> int \<times> 'w"
  lc_open :: "string \<Rightarrow> int \<Rightarrow> int \<Rightarrow> 'w \<Rightarrow> int \<times> 'w"
  lc_opendir :: "string \<Rightarrow> 'w \<Rightarrow> int option \<times> 'w"
  lc_pread64 :: "int \<Rightarrow> u64 \<Rightarrow> int \<Rightarrow> 'w \<Rightarrow> (int \<times> byte list) \<times> 'w"
  lc_readdir :: "int \<Rightarrow> 'w \<Rightarrow> (int \<times> string) option \<times> 'w"
  lc_readlink :: "string \<Rightarrow> u64 \<Rightarrow> 'w \<Rightarrow> (int \<times> string) \<times> 'w"
  lc_sched_setattr :: "int \<Rightarrow> sched_attr_raw \<Rightarrow> u32 \<Rightarrow> 'w \<Rightarrow> int \<times> 'w"
  lc_sync :: "'w \<Rightarrow> 'w"
  lc_unlink :: "string \<Rightarrow> 'w \<Rightarrow> int \<times> 'w"
  lc_pwrite64 :: "int \<Rightarrow> byte list \<Rightarrow> u64 \<Rightarrow> int \<Rightarrow> 'w \<Rightarrow> int \<times> 'w"
  lc_pthread_mutex_lock :: "var_ptr \<Rightarrow> mutex_bytes \<Rightarrow> 'w \<Rightarrow> (int \<times> mutex_bytes) \<times> 'w"
  lc_pthread_mutex_unlock :: "var_ptr \<Rightarrow> mutex_bytes \<Rightarrow> 'w \<Rightarrow> (int \<times> mutex_bytes) \<times> 'w"

text \<open>\<^verbatim>\<open>c_str\<close>, as a function of the C library reads it: up to the first NUL.\<close>

definition c_str :: "string \<Rightarrow> string" where
  "c_str s = takeWhile (\<lambda>c. c \<noteq> CHR 0x00) s"

section \<open>The methods\<close>

definition Syscall_Access :: "'w libc \<Rightarrow> string \<Rightarrow> int \<Rightarrow> 'w \<Rightarrow> int \<times> 'w" where
  "Syscall_Access L path_name mode = lc_access L (c_str path_name) mode"

definition Syscall_Close :: "'w libc \<Rightarrow> int \<Rightarrow> 'w \<Rightarrow> int \<times> 'w" where
  "Syscall_Close L fd = lc_close L fd"

definition Syscall_CloseDir :: "'w libc \<Rightarrow> int \<Rightarrow> 'w \<Rightarrow> int \<times> 'w" where
  "Syscall_CloseDir L dirp = lc_closedir L dirp"

definition Syscall_FAdvise :: "'w libc \<Rightarrow> int \<Rightarrow> int \<Rightarrow> int \<Rightarrow> int \<Rightarrow> 'w \<Rightarrow> int \<times> 'w" where
  "Syscall_FAdvise L fd offset len advice = lc_posix_fadvise64 L fd offset len advice"

definition Syscall_FAllocate :: "'w libc \<Rightarrow> int \<Rightarrow> int \<Rightarrow> int \<Rightarrow> int \<Rightarrow> 'w \<Rightarrow> int \<times> 'w" where
  "Syscall_FAllocate L fd mode offset len = lc_fallocate64 L fd mode offset len"

definition Syscall_FTruncate :: "'w libc \<Rightarrow> int \<Rightarrow> int \<Rightarrow> 'w \<Rightarrow> int \<times> 'w" where
  "Syscall_FTruncate L fd len = lc_ftruncate64 L fd len"

definition Syscall_FStat :: "'w libc \<Rightarrow> int \<Rightarrow> 'w \<Rightarrow> (int \<times> int) \<times> 'w" where
  "Syscall_FStat L filedes = lc_fstat64 L filedes"

definition Syscall_FSync :: "'w libc \<Rightarrow> int \<Rightarrow> 'w \<Rightarrow> int \<times> 'w" where
  "Syscall_FSync L fd = lc_fsync L fd"

definition Syscall_GetTid :: "'w libc \<Rightarrow> ('w, int) act" where
  "Syscall_GetTid L =
     bindC (sysC (lc_gettid L)) (\<lambda>ret.
     bindC (fail_ifC (ret = -1) (Plogf ''Error calling syscall(SYS_gettid)'')) (\<lambda>_.
     returnC (narrow32 ret)))"

definition Syscall_Open :: "'w libc \<Rightarrow> string \<Rightarrow> int \<Rightarrow> int \<Rightarrow> 'w \<Rightarrow> int \<times> 'w" where
  "Syscall_Open L path_name flags mode = lc_open L (c_str path_name) flags mode"

definition Syscall_OpenDir :: "'w libc \<Rightarrow> string \<Rightarrow> 'w \<Rightarrow> int option \<times> 'w" where
  "Syscall_OpenDir L name = lc_opendir L (c_str name)"

definition Syscall_Read :: "'w libc \<Rightarrow> int \<Rightarrow> int \<Rightarrow> int \<Rightarrow> 'w \<Rightarrow> (int \<times> byte list) \<times> 'w" where
  "Syscall_Read L fd nbytes offset = lc_pread64 L fd (to_u64 nbytes) offset"

definition Syscall_ReadDir :: "'w libc \<Rightarrow> int \<Rightarrow> 'w \<Rightarrow> (int \<times> string) option \<times> 'w" where
  "Syscall_ReadDir L dirp = lc_readdir L dirp"

definition Syscall_ReadLink :: "'w libc \<Rightarrow> string \<Rightarrow> int \<Rightarrow> 'w \<Rightarrow> (int \<times> string) \<times> 'w" where
  "Syscall_ReadLink L path_name bufsiz = lc_readlink L (c_str path_name) (to_u64 bufsiz)"

definition Syscall_Sync :: "'w libc \<Rightarrow> 'w \<Rightarrow> 'w" where
  "Syscall_Sync L = lc_sync L"

definition Syscall_Unlink :: "'w libc \<Rightarrow> string \<Rightarrow> 'w \<Rightarrow> int \<times> 'w" where
  "Syscall_Unlink L path_name = lc_unlink L (c_str path_name)"

definition Syscall_Write :: "'w libc \<Rightarrow> int \<Rightarrow> byte list \<Rightarrow> int \<Rightarrow> int \<Rightarrow> 'w \<Rightarrow> int \<times> 'w" where
  "Syscall_Write L fd buf nbytes offset = lc_pwrite64 L fd buf (to_u64 nbytes) offset"

definition Syscall_LockMutex :: "'w libc \<Rightarrow> var_ptr \<Rightarrow> mutex_bytes \<Rightarrow> 'w \<Rightarrow> (int \<times> mutex_bytes) \<times> 'w" where
  "Syscall_LockMutex L mutex = lc_pthread_mutex_lock L mutex"

definition Syscall_UnlockMutex :: "'w libc \<Rightarrow> var_ptr \<Rightarrow> mutex_bytes \<Rightarrow> 'w \<Rightarrow> (int \<times> mutex_bytes) \<times> 'w" where
  "Syscall_UnlockMutex L mutex = lc_pthread_mutex_unlock L mutex"

text \<open>
  The class as an implementation of \<^verbatim>\<open>SyscallInterface\<close>; the only caller of \<^verbatim>\<open>ReadLink\<close> gives a buffer of
  \<^verbatim>\<open>PATH_MAX\<close> bytes. The check of \<^verbatim>\<open>SchedSetattr\<close> is in \<open>Syscall_SchedSetattr\<close>.
\<close>

definition PATH_MAX :: int where
  "PATH_MAX = 4096"

definition Syscall :: "'w libc \<Rightarrow> ('w, 'g) env \<Rightarrow> ('w, 'g) env" where
  "Syscall L E = E
     \<lparr>sys_Access := Syscall_Access L, sys_Close := Syscall_Close L, sys_CloseDir := Syscall_CloseDir L,
      sys_FAdvise := Syscall_FAdvise L, sys_FAllocate := Syscall_FAllocate L, sys_FTruncate := Syscall_FTruncate L,
      sys_FStat := Syscall_FStat L, sys_FSync := Syscall_FSync L, sys_Open := Syscall_Open L,
      sys_OpenDir := Syscall_OpenDir L, sys_Read := Syscall_Read L, sys_SchedSetattr := lc_sched_setattr L,
      sys_ReadDir := Syscall_ReadDir L, sys_ReadLink := (\<lambda>path_name. Syscall_ReadLink L path_name PATH_MAX),
      sys_Sync := Syscall_Sync L, sys_Unlink := Syscall_Unlink L, sys_Write := Syscall_Write L,
      sys_LockMutex := Syscall_LockMutex L, sys_UnlockMutex := Syscall_UnlockMutex L\<rparr>"

lemmas Syscall_methods =
  Syscall_Access_def Syscall_Close_def Syscall_CloseDir_def Syscall_FAdvise_def Syscall_FAllocate_def
  Syscall_FTruncate_def Syscall_FStat_def Syscall_FSync_def Syscall_Open_def Syscall_OpenDir_def
  Syscall_Read_def Syscall_ReadDir_def Syscall_ReadLink_def Syscall_Sync_def Syscall_Unlink_def
  Syscall_Write_def Syscall_LockMutex_def Syscall_UnlockMutex_def Syscall_def

section \<open>Properties\<close>

lemma c_str_idem [simp]: "c_str (c_str p) = c_str p"
  by (simp add: c_str_def takeWhile_idem)

lemma c_str_same: "CHR 0x00 \<notin> set p \<Longrightarrow> c_str p = p"
  by (auto simp: c_str_def takeWhile_eq_all_conv)

text \<open>What follows a NUL in a path is lost: a file is looked for, opened and deleted without it.\<close>

lemma Syscall_paths:
  assumes "c_str p = c_str q"
  shows "sys_Open (Syscall L E) p = sys_Open (Syscall L E) q"
    and "sys_Unlink (Syscall L E) p = sys_Unlink (Syscall L E) q"
    and "sys_OpenDir (Syscall L E) p = sys_OpenDir (Syscall L E) q"
    and "FileExists (Syscall L E) p = FileExists (Syscall L E) q"
  using assms by (simp_all add: Syscall_methods FileExists_def fun_eq_iff)

text \<open>A count that is not negative reaches the system as it is; any other one as nearly \<open>2 ^ 64\<close>.\<close>

lemma size_of_count:
  assumes "in_i64 n"
  shows "uint (to_u64 n) = (if 0 \<le> n then n else 2 ^ 64 + n)"
proof (cases "0 \<le> n")
  case True
  then show ?thesis using assms by (simp add: uint_to_u64 in_i64_def)
next
  case False
  then have "n mod 2 ^ 64 = (n + 2 ^ 64) mod 2 ^ 64" by simp
  also have "\<dots> = n + 2 ^ 64" by (rule mod_pos_pos_trivial) (use False assms in \<open>auto simp: in_i64_def\<close>)
  finally show ?thesis using False by (simp add: to_u64_def uint_word_of_int)
qed

text \<open>\<^verbatim>\<open>GetTid\<close> gives the identifier or ends the process.\<close>

lemma GetTid_app:
  "Syscall_GetTid L s = (case lc_gettid L (ps_world s) of (ret, w) \<Rightarrow>
     (if ret = -1 then Inl (Plogf ''Error calling syscall(SYS_gettid)'') else Inr (narrow32 ret), s\<lparr>ps_world := w\<rparr>))"
  by (simp add: Syscall_GetTid_def bindC_app sysC_app fail_ifC_app split: prod.splits)

text \<open>The functions of a system that does not run out of anything, and the environment they make.\<close>

definition functions_succeed :: "'w libc \<Rightarrow> 'w session \<Rightarrow> bool" where
  "functions_succeed L S \<longleftrightarrow>
     (\<forall>fd. promises S (\<lambda>ret. ret = 0) (lc_close L fd)) \<and>
     (\<forall>fd off n adv. promises S (\<lambda>ret. ret = 0) (lc_posix_fadvise64 L fd off n adv)) \<and>
     (\<forall>fd m off n. promises S (\<lambda>ret. ret = 0) (lc_fallocate64 L fd m off n)) \<and>
     (\<forall>fd n. promises S (\<lambda>ret. ret = 0) (lc_ftruncate64 L fd n)) \<and>
     (\<forall>fd. promises S (\<lambda>(ret, sz). ret \<noteq> -1 \<and> sz \<in> se_sizes S) (lc_fstat64 L fd)) \<and>
     (\<forall>fd. promises S (\<lambda>ret. ret = 0) (lc_fsync L fd)) \<and>
     (\<forall>p f m. promises S (\<lambda>fd. fd \<noteq> -1) (lc_open L p f m)) \<and>
     (\<forall>fd c off. promises S (\<lambda>(ret, bytes). ret \<noteq> -1) (lc_pread64 L fd c off)) \<and>
     (\<forall>p a f. promises S (\<lambda>ret. ret = 0) (lc_sched_setattr L p a f)) \<and>
     (\<forall>p. promises S (\<lambda>ret. ret \<noteq> -1) (lc_unlink L p)) \<and>
     (\<forall>fd buf c off. promises S (\<lambda>ret. ret \<noteq> -1) (lc_pwrite64 L fd buf c off))"

lemma Syscall_calls_succeed:
  "functions_succeed L S \<Longrightarrow> calls_succeed E S \<Longrightarrow> calls_succeed (Syscall L E) S"
  unfolding functions_succeed_def calls_succeed_def by (simp add: Syscall_methods)

end
