(* ===== verification/Binder.thy ===== *)
theory Binder
  imports Instruction
begin

text \<open>
  \<^verbatim>\<open>src/binder.cpp\<close>, \<^verbatim>\<open>src/binder_request.cpp\<close>, \<^verbatim>\<open>src/binder_service.cpp\<close> and their headers, which are
  built for Android only: requests to a service of another process through Binder, the service that
  Dittosuite offers for them, and the parcels of generic requests.

  The libraries of Android are a parameter, the record \<open>android\<close>: the calls on files and ashmem
  regions, the service manager, \<^verbatim>\<open>transact\<close>, and the status that a write to a parcel returns. A
  parcel is the sequence of the values written to it. What the service does with a transaction is a
  function of its own state; the life of the service, from the clients that count themselves in to
  the condition variable that ends it, is a step relation.
\<close>

unbundle bit_operations_syntax

section \<open>Parcels and the platform\<close>

datatype parcel_item =
    IToken string
  | IByte "8 word"
  | IInt32 int
  | IInt64 int
  | IString16 string
  | IFloat f64
  | IDouble f64
  | INullBinder
  | IFd int bool

text \<open>
  \<open>IFloat\<close> holds the argument of \<^verbatim>\<open>writeFloat\<close> before the call converts it; the flag of \<open>IFd\<close> is
  \<^verbatim>\<open>takeOwnership\<close>. The functions of \<open>android\<close> that act have the state \<open>'w\<close> of the system; \<open>'b\<close> are
  its binder objects.
\<close>

record ('w, 'b) android =
  an_write :: "parcel_item list \<Rightarrow> parcel_item \<Rightarrow> int"
  an_open :: "string \<Rightarrow> 'w \<Rightarrow> int \<times> 'w"
  an_fstat :: "int \<Rightarrow> 'w \<Rightarrow> (int \<times> int) \<times> 'w"
  an_ashmem_create_region :: "string \<Rightarrow> int \<Rightarrow> 'w \<Rightarrow> int \<times> 'w"
  an_mmap :: "int \<Rightarrow> int \<Rightarrow> 'w \<Rightarrow> int option \<times> 'w"
  an_read :: "int \<Rightarrow> int \<Rightarrow> int \<Rightarrow> 'w \<Rightarrow> int \<times> 'w"
  an_close :: "int \<Rightarrow> 'w \<Rightarrow> int \<times> 'w"
  an_atof :: "string \<Rightarrow> f64"
  an_service_manager :: bool
  an_waitForService :: "string \<Rightarrow> 'w \<Rightarrow> 'b option \<times> 'w"
  an_checkService :: "string \<Rightarrow> 'w \<Rightarrow> 'b option \<times> 'w"
  an_interface_cast :: "string \<Rightarrow> 'b \<Rightarrow> bool"
  an_descriptor :: "'b \<Rightarrow> string"
  an_transact :: "'b \<Rightarrow> int \<Rightarrow> parcel_item list \<Rightarrow> bool \<Rightarrow> 'w \<Rightarrow> (int \<times> parcel_item list) \<times> 'w"
  an_isUsbMassStorageConnected :: "'b \<Rightarrow> 'w \<Rightarrow> bool \<times> 'w"
  an_addService :: "string \<Rightarrow> 'w \<Rightarrow> 'w"
  an_startThreadPool :: "int \<Rightarrow> 'w \<Rightarrow> 'w"
  an_cond_wait :: "'w \<Rightarrow> 'w"
  an_first_call :: int

text \<open>
  A write that returns \<^verbatim>\<open>OK\<close>, which is 0, appends to the parcel. \<open>an_open\<close> and \<open>an_mmap\<close> are the calls with
  the flags of the code, \<open>an_transact\<close> takes the code, the data and whether it is \<^verbatim>\<open>FLAG_ONEWAY\<close>, and
  gives the status and the reply; \<open>an_first_call\<close> is \<^verbatim>\<open>IBinder::FIRST_CALL_TRANSACTION\<close>.
\<close>

definition parcel_write :: "('w, 'b) android \<Rightarrow> parcel_item \<Rightarrow> parcel_item list \<Rightarrow> int \<times> parcel_item list" where
  "parcel_write A item parcel =
     (let status = an_write A parcel item in (status, if status = 0 then parcel @ [item] else parcel))"

definition atoi :: "string \<Rightarrow> int" where
  "atoi s = narrow32 (strtoll s)"

section \<open>Generic requests\<close>

text \<open>The message of an input; its data and its nested parcel are alternatives.\<close>

datatype parcel_type =
    Type_I32 | Type_I64 | Type_STRING_16 | Type_F | Type_D | Type_NULL | Type_FD_PATH
  | Type_ASHMEM_FD_PATH | Type_FD | Type_PARCEL

datatype parcel_input = ParcelInput parcel_type parcel_data
  and parcel_data = NoData | Data string | NestedParcel "parcel_input list"

fun data_of :: "parcel_data \<Rightarrow> string" where
  "data_of (Data s) = s"
| "data_of _ = []"

fun nested_inputs :: "parcel_data \<Rightarrow> parcel_input list" where
  "nested_inputs (NestedParcel ins) = ins"
| "nested_inputs _ = []"

lemma nested_inputs_size: "size_list size (nested_inputs d) < Suc (Suc (size d + n))"
  by (cases d) simp_all

text \<open>
  \<^verbatim>\<open>LOGF\<close> ends the process, so the labels behind it are never reached. On success the mapping of the
  region stays.
\<close>

definition ParseAshmemWithPath ::
  "('w, 'b) android \<Rightarrow> string \<Rightarrow> parcel_item list \<Rightarrow> ('w, int \<times> parcel_item list) act" where
  "ParseAshmemWithPath A path parcel =
     bindC (sysC (an_open A path)) (\<lambda>fd.
     bindC (fail_ifC (fd < 0) (Logf (''Could not open '' @ path))) (\<lambda>_.
     bindC (sysC (an_fstat A fd)) (\<lambda>(ret, st_size).
     bindC (fail_ifC (ret \<noteq> 0) (Logf (''Could not stat '' @ path))) (\<lambda>_.
     bindC (sysC (an_ashmem_create_region A ''ditto'' st_size)) (\<lambda>afd.
     bindC (fail_ifC (afd < 0) (Logf (''ashmem_create_region failed '' @ path))) (\<lambda>_.
     bindC (sysC (an_mmap A afd st_size)) (\<lambda>ptr.
     case ptr of
       None \<Rightarrow> failC (Logf (''mmap failed '' @ path))
     | Some ptr \<Rightarrow>
         bindC (sysC (an_read A fd ptr st_size)) (\<lambda>n.
         bindC (fail_ifC (n < 0) (Logf (''read failed '' @ path))) (\<lambda>_.
         case parcel_write A (IFd afd True) parcel of
           (status, parcel') \<Rightarrow>
             if status = 0 then bindC (sysC (an_close A fd)) (\<lambda>_. returnC (0, parcel'))
             else failC (Logf (''writeFileDescriptor failed '' @ path)))))))))))"

text \<open>The writes whose status the code ignores.\<close>

definition simple_item :: "('w, 'b) android \<Rightarrow> parcel_type \<Rightarrow> string \<Rightarrow> parcel_item" where
  "simple_item A ty data_str =
     (case ty of
        Type_I32 \<Rightarrow> IInt32 (atoi data_str)
      | Type_I64 \<Rightarrow> IInt64 (strtoll data_str)
      | Type_STRING_16 \<Rightarrow> IString16 data_str
      | Type_F \<Rightarrow> IFloat (an_atof A data_str)
      | Type_D \<Rightarrow> IDouble (an_atof A data_str)
      | Type_FD \<Rightarrow> IFd (atoi data_str) True
      | _ \<Rightarrow> INullBinder)"

definition ParseFdPath ::
  "('w, 'b) android \<Rightarrow> string \<Rightarrow> parcel_item list \<Rightarrow> ('w, int \<times> parcel_item list) act" where
  "ParseFdPath A data_str parcel =
     bindC (sysC (an_open A data_str)) (\<lambda>fd.
     bindC (fail_ifC (fd < 0) (Logf (''Could not open '' @ data_str))) (\<lambda>_.
     returnC (0, snd (parcel_write A (IFd fd True) parcel))))"

text \<open>
  The loop over the inputs: an input that gives a negative result ends it. The flag of a nested
  parcel is 0 for an empty one, which writes nothing else.
\<close>

function ParseParcelString ::
  "('w, 'b) android \<Rightarrow> parcel_input list \<Rightarrow> parcel_item list \<Rightarrow> ('w, int \<times> parcel_item list) act" where
  "ParseParcelString A [] parcel = returnC (0, parcel)"
| "ParseParcelString A (ParcelInput ty d # input) parcel =
     bindC
       (case ty of
          Type_FD_PATH \<Rightarrow> ParseFdPath A (data_of d) parcel
        | Type_ASHMEM_FD_PATH \<Rightarrow> ParseAshmemWithPath A (data_of d) parcel
        | Type_PARCEL \<Rightarrow>
            (if nested_inputs d = [] then returnC (parcel_write A (IInt32 0) parcel)
             else case parcel_write A (IInt32 1) parcel of
                    (res, parcel') \<Rightarrow>
                      if res < 0 then returnC (res, parcel')
                      else ParseParcelString A (nested_inputs d) parcel')
        | _ \<Rightarrow> returnC (0, snd (parcel_write A (simple_item A ty (data_of d)) parcel)))
       (\<lambda>(res, parcel'). if res < 0 then returnC (res, parcel') else ParseParcelString A input parcel')"
  by pat_completeness auto
termination
  by (relation "measure (\<lambda>(A, ins, parcel). size_list size ins)") (simp_all add: nested_inputs_size)

section \<open>The service\<close>

text \<open>\<^verbatim>\<open>client_cnt_\<close>, and how often \<^verbatim>\<open>thread_condition_\<close> was signalled.\<close>

record ditto_binder =
  db_client_cnt :: int
  db_signals :: nat

datatype request = START | END | SYNC | ASYNC

fun request_code :: "('w, 'b) android \<Rightarrow> request \<Rightarrow> int" where
  "request_code A START = an_first_call A"
| "request_code A END = an_first_call A + 1"
| "request_code A SYNC = an_first_call A + 2"
| "request_code A ASYNC = an_first_call A + 3"

definition DittoBinder_start :: "ditto_binder \<Rightarrow> ditto_binder" where
  "DittoBinder_start d = d\<lparr>db_client_cnt := narrow32 (db_client_cnt d + 1)\<rparr>"

definition DittoBinder_end :: "ditto_binder \<Rightarrow> ditto_binder" where
  "DittoBinder_end d = d\<lparr>db_client_cnt := narrow32 (db_client_cnt d - 1)\<rparr>"

definition DittoBinder_sync :: "8 word \<Rightarrow> 8 word" where
  "DittoBinder_sync c = NOT c"

definition DittoBinder_async :: "ditto_binder \<Rightarrow> ditto_binder" where
  "DittoBinder_async d = d"

text \<open>
  \<^verbatim>\<open>checkInterface\<close> reads the token, whose check is ignored; \<^verbatim>\<open>readByte\<close> on something else gives 0.
  \<open>other\<close> is \<^verbatim>\<open>BBinder::onTransact\<close>.
\<close>

definition read_byte :: "parcel_item list \<Rightarrow> 8 word" where
  "read_byte items = (case items of token # IByte c # _ \<Rightarrow> c | _ \<Rightarrow> 0)"

definition BnDittoBinder_onTransact ::
  "('w, 'b) android \<Rightarrow> (int \<Rightarrow> int \<times> parcel_item list option) \<Rightarrow> int \<Rightarrow> parcel_item list
     \<Rightarrow> parcel_item list option \<Rightarrow> (ditto_binder, int \<times> parcel_item list option) comp" where
  "BnDittoBinder_onTransact A other code data reply =
     (if code = request_code A START then
        bindC (modifyC DittoBinder_start) (\<lambda>_. returnC (0, reply))
      else if code = request_code A END then
        bindC (modifyC DittoBinder_end) (\<lambda>_.
        bindC (getC db_client_cnt) (\<lambda>cnt.
        bindC (if cnt \<le> 0 then modifyC (\<lambda>d. d\<lparr>db_signals := Suc (db_signals d)\<rparr>) else returnC ()) (\<lambda>_.
        returnC (0, reply))))
      else if code = request_code A ASYNC then
        bindC (modifyC DittoBinder_async) (\<lambda>_. returnC (0, reply))
      else if code = request_code A SYNC then
        (case reply of
           None \<Rightarrow> failC (Logf ''No reply'')
         | Some r \<Rightarrow> returnC (0, Some (snd (parcel_write A (IByte (DittoBinder_sync (read_byte data))) r))))
      else returnC (other code))"

section \<open>The client's proxy\<close>

text \<open>\<^verbatim>\<open>start\<close>, \<^verbatim>\<open>end\<close> and \<^verbatim>\<open>async\<close> differ in the code; nobody looks at the status.\<close>

definition getInterfaceDescriptor :: string where
  "getInterfaceDescriptor = ''DittoBinder''"

definition ditto_token :: parcel_item where
  "ditto_token = IToken getInterfaceDescriptor"

definition BpDittoBinder_oneway :: "('w, 'b) android \<Rightarrow> 'b \<Rightarrow> request \<Rightarrow> ('w, unit) act" where
  "BpDittoBinder_oneway A service rq =
     (let data = snd (parcel_write A (IString16 []) (snd (parcel_write A ditto_token [])))
      in bindC (sysC (an_transact A service (request_code A rq) data True)) (\<lambda>_. returnC ()))"

definition BpDittoBinder_async :: "('w, 'b) android \<Rightarrow> 'b \<Rightarrow> ('w, unit) act" where
  "BpDittoBinder_async A service = BpDittoBinder_oneway A service ASYNC"

definition BpDittoBinder_start :: "('w, 'b) android \<Rightarrow> 'b \<Rightarrow> ('w, unit) act" where
  "BpDittoBinder_start A service = BpDittoBinder_oneway A service START"

definition BpDittoBinder_end :: "('w, 'b) android \<Rightarrow> 'b \<Rightarrow> ('w, unit) act" where
  "BpDittoBinder_end A service = BpDittoBinder_oneway A service END"

lemmas BpDittoBinder_requests = BpDittoBinder_async_def [abs_def] BpDittoBinder_start_def [abs_def] BpDittoBinder_end_def [abs_def]

definition BpDittoBinder_sync :: "('w, 'b) android \<Rightarrow> 'b \<Rightarrow> 8 word \<Rightarrow> ('w, 8 word) act" where
  "BpDittoBinder_sync A service c =
     (let data = snd (parcel_write A (IByte c) (snd (parcel_write A ditto_token [])))
      in bindC (sysC (an_transact A service (request_code A SYNC) data False)) (\<lambda>(status, reply).
         case reply of
           IByte res # _ \<Rightarrow> returnC res
         | _ \<Rightarrow> failC (Undefined Uninitialised)))"

text \<open>
  \<^verbatim>\<open>asInterface\<close>: the object itself when it lives in this process, as \<open>query\<close>, \<^verbatim>\<open>queryLocalInterface\<close>, says;
  otherwise a proxy for it.
\<close>

datatype 'b ditto_interface = Local 'b | Proxy 'b

definition asInterface :: "('b \<Rightarrow> string \<Rightarrow> 'b option) \<Rightarrow> 'b option \<Rightarrow> 'b ditto_interface option" where
  "asInterface query obj =
     (case obj of
        None \<Rightarrow> None
      | Some b \<Rightarrow> (case query b getInterfaceDescriptor of None \<Rightarrow> Some (Proxy b) | Some intr \<Rightarrow> Some (Local intr)))"

lemma asInterface_None: "asInterface query obj = None \<longleftrightarrow> obj = None"
  by (auto simp: asInterface_def split: option.splits)

definition getBinderService :: "('w, 'b) android \<Rightarrow> string \<Rightarrow> string \<Rightarrow> ('w, 'b) act" where
  "getBinderService A interface service_name =
     bindC (fail_ifC (\<not> an_service_manager A) (Logf ''No Binder ServiceManager found'')) (\<lambda>_.
     bindC (sysC (an_waitForService A service_name)) (\<lambda>binder.
     case binder of
       None \<Rightarrow> failC (Logf ''Unable to fetch Binder Interface'')
     | Some service \<Rightarrow>
         if an_interface_cast A interface service then returnC service
         else failC (Logf ''Unable to cast Binder Service'')))"

section \<open>The instructions\<close>

record 'b binder_request =
  br_service_name :: string
  br_service :: "'b option"

record 'b generic_request = "'b binder_request" +
  gr_code :: int
  gr_parcel_input :: "parcel_input list"

definition the_service :: "('b, 'z) binder_request_scheme \<Rightarrow> ('w, 'b) act" where
  "the_service f = (case br_service f of None \<Rightarrow> failC (Undefined NullPointer) | Some service \<Rightarrow> returnC service)"

definition BinderRequest_ctor :: "string \<Rightarrow> params \<Rightarrow> string \<Rightarrow> ibase \<times> 'b binder_request" where
  "BinderRequest_ctor name p service_name =
     (Instruction_ctor name p, \<lparr>br_service_name = service_name, br_service = None\<rparr>)"

definition BinderRequestDitto_ctor :: "params \<Rightarrow> string \<Rightarrow> ibase \<times> 'b binder_request" where
  "BinderRequestDitto_ctor p service_name = BinderRequest_ctor ''binder_request_ditto'' p service_name"

definition BinderRequestDitto_RunSingle ::
  "('w, 'b) android \<Rightarrow> ibase \<times> 'b binder_request \<Rightarrow> ('w, ibase \<times> 'b binder_request) act" where
  "BinderRequestDitto_RunSingle A ob =
     bindC (the_service (snd ob)) (\<lambda>service.
     bindC (BpDittoBinder_sync A service 1) (\<lambda>ret.
     bindC (fail_ifC (sint ret \<noteq> NOT 1)
              (Logf (''Wrong result, expected: '' @ show_int (NOT 1) @ '', but got: '' @ show_int (sint ret))))
       (\<lambda>_. returnC ob)))"

definition BinderRequestDitto_SetUp ::
  "('w, 'g) env \<Rightarrow> ('w, 'b) android \<Rightarrow> ibase \<times> 'b binder_request \<Rightarrow> ('w, ibase \<times> 'b binder_request) act" where
  "BinderRequestDitto_SetUp E A ob =
     bindC (getBinderService A ''DittoBinder'' (br_service_name (snd ob))) (\<lambda>service.
     bindC (BpDittoBinder_start A service) (\<lambda>_.
     bindC (Instruction_SetUp E (fst ob)) (\<lambda>b.
     returnC (b, (snd ob)\<lparr>br_service := Some service\<rparr>))))"

definition BinderRequestDitto_TearDownSingle ::
  "('w, 'g) env \<Rightarrow> ('w, 'b) android \<Rightarrow> bool \<Rightarrow> ibase \<times> 'b binder_request
     \<Rightarrow> ('w, ibase \<times> 'b binder_request) act" where
  "BinderRequestDitto_TearDownSingle E A is_last ob =
     bindC (Instruction_TearDownSingle E is_last (fst ob)) (\<lambda>b.
     bindC (if is_last then bindC (the_service (snd ob)) (BpDittoBinder_end A)
            else returnC ()) (\<lambda>_.
     returnC (b, snd ob)))"

definition BinderRequestMountService_ctor :: "params \<Rightarrow> ibase \<times> 'b binder_request" where
  "BinderRequestMountService_ctor p = BinderRequest_ctor ''binder_request_ms'' p ''mount''"

definition BinderRequestMountService_RunSingle ::
  "('w, 'b) android \<Rightarrow> ibase \<times> 'b binder_request \<Rightarrow> ('w, ibase \<times> 'b binder_request) act" where
  "BinderRequestMountService_RunSingle A ob =
     bindC (the_service (snd ob)) (\<lambda>service.
     bindC (sysC (an_isUsbMassStorageConnected A service)) (\<lambda>_. returnC ob))"

definition BinderRequestMountService_SetUp ::
  "('w, 'g) env \<Rightarrow> ('w, 'b) android \<Rightarrow> ibase \<times> 'b binder_request \<Rightarrow> ('w, ibase \<times> 'b binder_request) act" where
  "BinderRequestMountService_SetUp E A ob =
     bindC (getBinderService A ''IMountService'' (br_service_name (snd ob))) (\<lambda>service.
     bindC (Instruction_SetUp E (fst ob)) (\<lambda>b.
     returnC (b, (snd ob)\<lparr>br_service := Some service\<rparr>)))"

definition GenericBinderRequest_ctor ::
  "params \<Rightarrow> string \<Rightarrow> int \<Rightarrow> parcel_input list \<Rightarrow> ibase \<times> 'b generic_request" where
  "GenericBinderRequest_ctor p service_name code parcel_input =
     (Instruction_ctor ''binder_request_generic'' p,
      \<lparr>br_service_name = service_name, br_service = None, gr_code = code, gr_parcel_input = parcel_input\<rparr>)"

text \<open>Its \<^verbatim>\<open>SetUp\<close> leaves out the base class, and keeps a null pointer when the service is not there.\<close>

definition GenericBinderRequest_SetUp ::
  "('w, 'b) android \<Rightarrow> ibase \<times> 'b generic_request \<Rightarrow> ('w, ibase \<times> 'b generic_request) act" where
  "GenericBinderRequest_SetUp A ob =
     (if \<not> an_service_manager A then failC (Undefined NullPointer)
      else bindC (sysC (an_checkService A (br_service_name (snd ob)))) (\<lambda>service.
           returnC (fst ob, (snd ob)\<lparr>br_service := service\<rparr>)))"

definition GenericBinderRequest_RunSingle ::
  "('w, 'b) android \<Rightarrow> ibase \<times> 'b generic_request \<Rightarrow> ('w, ibase \<times> 'b generic_request) act" where
  "GenericBinderRequest_RunSingle A ob =
     (let token = IToken (case br_service (snd ob) of None \<Rightarrow> [] | Some service \<Rightarrow> an_descriptor A service)
      in bindC (ParseParcelString A (gr_parcel_input (snd ob)) (snd (parcel_write A token []))) (\<lambda>(res, data).
         bindC (fail_ifC (res \<noteq> 0) (Logf (''Error parsing parcel string'' @ [CHR 0x0A]))) (\<lambda>_.
         bindC (the_service (snd ob)) (\<lambda>service.
         bindC (sysC (an_transact A service (gr_code (snd ob)) data False)) (\<lambda>_. returnC ob)))))"

record binder_service =
  bs_name :: string
  bs_threads :: int

definition BinderService_ctor :: "params \<Rightarrow> string \<Rightarrow> int \<Rightarrow> ibase \<times> binder_service" where
  "BinderService_ctor p name threads =
     (Instruction_ctor ''binder_service'' p, \<lparr>bs_name = name, bs_threads = threads\<rparr>)"

definition BinderService_SetUp ::
  "('w, 'g) env \<Rightarrow> ('w, 'b) android \<Rightarrow> ibase \<times> binder_service \<Rightarrow> ('w, ibase \<times> binder_service) act" where
  "BinderService_SetUp E A ob =
     bindC (Instruction_SetUp E (fst ob)) (\<lambda>b.
     bindC (sysC (\<lambda>w. ((), an_addService A (bs_name (snd ob)) w))) (\<lambda>_.
     bindC (sysC (\<lambda>w. ((), an_startThreadPool A (bs_threads (snd ob)) w))) (\<lambda>_.
     returnC (b, snd ob))))"

definition BinderService_RunSingle ::
  "('w, 'b) android \<Rightarrow> ibase \<times> binder_service \<Rightarrow> ('w, ibase \<times> binder_service) act" where
  "BinderService_RunSingle A ob = bindC (sysC (\<lambda>w. ((), an_cond_wait A w))) (\<lambda>_. returnC ob)"

text \<open>The factory's part for Android.\<close>

datatype pb_binder_request =
    SERVICE_ONEOF_NOT_SET
  | ServiceName string
  | RunningService
  | GenericService string int "parcel_input list"

datatype 'b binder_instruction =
    RequestDitto "ibase \<times> 'b binder_request"
  | RequestMountService "ibase \<times> 'b binder_request"
  | RequestGeneric "ibase \<times> 'b generic_request"
  | Service "ibase \<times> binder_service"

definition CreateBinderRequest :: "params \<Rightarrow> pb_binder_request \<Rightarrow> 'b binder_instruction res" where
  "CreateBinderRequest p request =
     (case request of
        ServiceName name \<Rightarrow> Inr (RequestDitto (BinderRequestDitto_ctor p name))
      | RunningService \<Rightarrow> Inr (RequestMountService (BinderRequestMountService_ctor p))
      | GenericService name code inputs \<Rightarrow> Inr (RequestGeneric (GenericBinderRequest_ctor p name code inputs))
      | SERVICE_ONEOF_NOT_SET \<Rightarrow> Inl (Logf ''No service specified for BinderRequest''))"

definition CreateBinderService :: "params \<Rightarrow> string \<Rightarrow> u32 \<Rightarrow> 'b binder_instruction" where
  "CreateBinderService p name threads = Service (BinderService_ctor p name (uint threads))"

section \<open>The life of the service\<close>

text \<open>
  The process of the service and its clients. One-way calls on an object are delivered one at a time,
  in the order in which they were made; a client waits for the answer of \<^verbatim>\<open>sync\<close>. The thread that
  runs \<^verbatim>\<open>BinderService::RunSingle\<close> waits for the condition variable, once. A client is a
  \<^verbatim>\<open>BinderRequestDitto\<close> with the number of requests it still has to make, its \<^verbatim>\<open>repeat_\<close>: \<^verbatim>\<open>SetUp\<close>
  counts it in, the \<^verbatim>\<open>TearDownSingle\<close> of its last request counts it out.
\<close>

datatype client_pc = NotStarted nat | Requesting nat | Ending | Finished

datatype wait_pc = BeforeWait | Waiting | Released

record service_run =
  sr_binder :: ditto_binder
  sr_queue :: "request list"
  sr_wait :: wait_pc
  sr_clients :: "client_pc list"

definition service_start :: "nat list \<Rightarrow> service_run" where
  "service_start requests =
     \<lparr>sr_binder = \<lparr>db_client_cnt = 0, db_signals = 0\<rparr>, sr_queue = [], sr_wait = BeforeWait,
      sr_clients = map NotStarted requests\<rparr>"

text \<open>The server handles a transaction; \<^verbatim>\<open>pthread_cond_signal\<close> wakes the thread if it waits.\<close>

definition oneway_data :: "parcel_item list" where
  "oneway_data = [ditto_token, IString16 []]"

definition wake :: "ditto_binder \<Rightarrow> ditto_binder \<Rightarrow> wait_pc \<Rightarrow> wait_pc" where
  "wake d d' pc = (if pc = Waiting \<and> db_signals d < db_signals d' then Released else pc)"

inductive service_step ::
  "('w, 'b) android \<Rightarrow> (int \<Rightarrow> int \<times> parcel_item list option) \<Rightarrow> service_run \<Rightarrow> service_run \<Rightarrow> bool"
  for A :: "('w, 'b) android" and other :: "int \<Rightarrow> int \<times> parcel_item list option" where
  starts: "i < length (sr_clients s) \<Longrightarrow> sr_clients s ! i = NotStarted r \<Longrightarrow>
    service_step A other s
      (s\<lparr>sr_clients := (sr_clients s)[i := Requesting r], sr_queue := sr_queue s @ [START]\<rparr>)"
| requests: "i < length (sr_clients s) \<Longrightarrow> sr_clients s ! i = Requesting (Suc r) \<Longrightarrow>
    BnDittoBinder_onTransact A other (request_code A SYNC) [ditto_token, IByte 1] (Some []) (sr_binder s) = (Inr y, d) \<Longrightarrow>
    service_step A other s
      (s\<lparr>sr_clients := (sr_clients s)[i := (if r = 0 then Ending else Requesting r)], sr_binder := d\<rparr>)"
| ends: "i < length (sr_clients s) \<Longrightarrow> sr_clients s ! i = Ending \<Longrightarrow>
    service_step A other s
      (s\<lparr>sr_clients := (sr_clients s)[i := Finished], sr_queue := sr_queue s @ [END]\<rparr>)"
| delivers: "sr_queue s = q # queue \<Longrightarrow>
    BnDittoBinder_onTransact A other (request_code A q) oneway_data None (sr_binder s) = (Inr y, d) \<Longrightarrow>
    service_step A other s
      (s\<lparr>sr_queue := queue, sr_binder := d, sr_wait := wake (sr_binder s) d (sr_wait s)\<rparr>)"
| waits: "sr_wait s = BeforeWait \<Longrightarrow> service_step A other s (s\<lparr>sr_wait := Waiting\<rparr>)"

inductive_cases service_stepE: "service_step A other s t"

end
