(* ===== verification/Binder_Properties.thy ===== *)
theory Binder_Properties
  imports Binder
begin

text \<open>
  What the Binder instructions do: the parcel of a generic request and the descriptors it owns, the
  requests of a client in order, and when the service that waits for its clients is released.
\<close>

section \<open>Parcels\<close>

definition writes_ok :: "('w, 'b) android \<Rightarrow> bool" where
  "writes_ok A \<longleftrightarrow> (\<forall>parcel item. an_write A parcel item = 0)"

lemma parcel_write_ok: "writes_ok A \<Longrightarrow> parcel_write A item parcel = (0, parcel @ [item])"
  by (simp add: writes_ok_def parcel_write_def)

text \<open>The items that belong to a list of inputs; the descriptors of opened files are left open.\<close>

inductive written :: "('w, 'b) android \<Rightarrow> parcel_input list \<Rightarrow> parcel_item list \<Rightarrow> bool"
  for A :: "('w, 'b) android" where
  written_Nil: "written A [] []"
| written_fd: "ty = Type_FD_PATH \<or> ty = Type_ASHMEM_FD_PATH \<Longrightarrow> written A ins js \<Longrightarrow>
    written A (ParcelInput ty d # ins) (IFd fd True # js)"
| written_null: "nested_inputs d = [] \<Longrightarrow> written A ins js \<Longrightarrow>
    written A (ParcelInput Type_PARCEL d # ins) (IInt32 0 # js)"
| written_parcel: "nested_inputs d \<noteq> [] \<Longrightarrow> written A (nested_inputs d) ks \<Longrightarrow> written A ins js \<Longrightarrow>
    written A (ParcelInput Type_PARCEL d # ins) (IInt32 1 # ks @ js)"
| written_simple: "ty \<notin> {Type_FD_PATH, Type_ASHMEM_FD_PATH, Type_PARCEL} \<Longrightarrow> written A ins js \<Longrightarrow>
    written A (ParcelInput ty d # ins) (simple_item A ty (data_of d) # js)"

text \<open>The inputs that map a region.\<close>

function ashmem_count :: "parcel_input list \<Rightarrow> nat" where
  "ashmem_count [] = 0"
| "ashmem_count (ParcelInput ty d # ins) =
     (if ty = Type_ASHMEM_FD_PATH then 1 else if ty = Type_PARCEL then ashmem_count (nested_inputs d) else 0) +
     ashmem_count ins"
  by pat_completeness auto
termination
  by (relation "measure (size_list size)") (simp_all add: nested_inputs_size)

text \<open>
  What the calls document, for the descriptors \<open>fds\<close> that are open in a system and the regions \<open>maps\<close>
  that are mapped.
\<close>

definition fd_spec :: "('w, 'b) android \<Rightarrow> ('w \<Rightarrow> int set) \<Rightarrow> ('w \<Rightarrow> int set) \<Rightarrow> bool" where
  "fd_spec A fds maps \<longleftrightarrow>
     (\<forall>path w fd w'. an_open A path w = (fd, w') \<longrightarrow> 0 \<le> fd \<longrightarrow>
        fd \<notin> fds w \<and> fds w' = insert fd (fds w) \<and> maps w' = maps w) \<and>
     (\<forall>fd w. fds (snd (an_fstat A fd w)) = fds w \<and> maps (snd (an_fstat A fd w)) = maps w) \<and>
     (\<forall>name n w fd w'. an_ashmem_create_region A name n w = (fd, w') \<longrightarrow> 0 \<le> fd \<longrightarrow>
        fd \<notin> fds w \<and> fds w' = insert fd (fds w) \<and> maps w' = maps w) \<and>
     (\<forall>fd n w a w'. an_mmap A fd n w = (Some a, w') \<longrightarrow>
        a \<notin> maps w \<and> maps w' = insert a (maps w) \<and> fds w' = fds w) \<and>
     (\<forall>fd a n w. fds (snd (an_read A fd a n w)) = fds w \<and> maps (snd (an_read A fd a n w)) = maps w) \<and>
     (\<forall>fd w. fd \<in> fds w \<longrightarrow> fds (snd (an_close A fd w)) = fds w - {fd} \<and> maps (snd (an_close A fd w)) = maps w)"

lemma fd_spec_open:
  assumes "fd_spec A fds maps" and "an_open A path w = (fd, w')" and "0 \<le> fd"
  shows "fd \<notin> fds w" and "fds w' = insert fd (fds w)" and "maps w' = maps w"
proof -
  have "\<forall>path w fd w'. an_open A path w = (fd, w') \<longrightarrow> 0 \<le> fd \<longrightarrow>
      fd \<notin> fds w \<and> fds w' = insert fd (fds w) \<and> maps w' = maps w"
    using assms(1) by (simp add: fd_spec_def)
  then show "fd \<notin> fds w" "fds w' = insert fd (fds w)" "maps w' = maps w" using assms(2,3) by blast+
qed

lemma fd_spec_ashmem:
  assumes "fd_spec A fds maps" and "an_ashmem_create_region A name n w = (fd, w')" and "0 \<le> fd"
  shows "fd \<notin> fds w" and "fds w' = insert fd (fds w)" and "maps w' = maps w"
proof -
  have "\<forall>name n w fd w'. an_ashmem_create_region A name n w = (fd, w') \<longrightarrow> 0 \<le> fd \<longrightarrow>
      fd \<notin> fds w \<and> fds w' = insert fd (fds w) \<and> maps w' = maps w"
    using assms(1) by (simp add: fd_spec_def)
  then show "fd \<notin> fds w" "fds w' = insert fd (fds w)" "maps w' = maps w" using assms(2,3) by blast+
qed

lemma fd_spec_mmap:
  assumes "fd_spec A fds maps" and "an_mmap A fd n w = (Some a, w')"
  shows "a \<notin> maps w" and "maps w' = insert a (maps w)" and "fds w' = fds w"
proof -
  have "\<forall>fd n w a w'. an_mmap A fd n w = (Some a, w') \<longrightarrow>
      a \<notin> maps w \<and> maps w' = insert a (maps w) \<and> fds w' = fds w"
    using assms(1) by (simp add: fd_spec_def)
  then show "a \<notin> maps w" "maps w' = insert a (maps w)" "fds w' = fds w" using assms(2) by blast+
qed

lemma fd_spec_quiet:
  assumes "fd_spec A fds maps"
  shows "an_fstat A fd w = (x, w') \<Longrightarrow> fds w' = fds w \<and> maps w' = maps w"
    and "an_read A fd a n w = (y, w') \<Longrightarrow> fds w' = fds w \<and> maps w' = maps w"
    and "an_close A fd w = (r, w') \<Longrightarrow> fd \<in> fds w \<Longrightarrow> fds w' = fds w - {fd} \<and> maps w' = maps w"
proof -
  have "fds (snd (an_fstat A fd w)) = fds w \<and> maps (snd (an_fstat A fd w)) = maps w"
      "fds (snd (an_read A fd a n w)) = fds w \<and> maps (snd (an_read A fd a n w)) = maps w"
      "fd \<in> fds w \<longrightarrow> fds (snd (an_close A fd w)) = fds w - {fd} \<and> maps (snd (an_close A fd w)) = maps w"
    using assms by (simp_all add: fd_spec_def)
  then show "an_fstat A fd w = (x, w') \<Longrightarrow> fds w' = fds w \<and> maps w' = maps w"
      "an_read A fd a n w = (y, w') \<Longrightarrow> fds w' = fds w \<and> maps w' = maps w"
      "an_close A fd w = (r, w') \<Longrightarrow> fd \<in> fds w \<Longrightarrow> fds w' = fds w - {fd} \<and> maps w' = maps w"
    by simp_all
qed

text \<open>
  From \<open>w\<close> to \<open>w'\<close> the descriptors that were opened and not closed belong to the items \<open>js\<close>, and \<open>n\<close>
  regions were mapped and stay so.
\<close>

definition accounted ::
  "('w \<Rightarrow> int set) \<Rightarrow> ('w \<Rightarrow> int set) \<Rightarrow> parcel_item list \<Rightarrow> nat \<Rightarrow> 'w \<Rightarrow> 'w \<Rightarrow> bool" where
  "accounted fds maps js n w w' \<longleftrightarrow>
     fds w \<subseteq> fds w' \<and> (\<forall>fd \<in> fds w' - fds w. IFd fd True \<in> set js) \<and>
     maps w \<subseteq> maps w' \<and> finite (maps w' - maps w) \<and> card (maps w' - maps w) = n"

lemma accounted_refl [simp]: "accounted fds maps [] 0 w w"
  by (simp add: accounted_def)

lemma accounted_item: "accounted fds maps js n w w' \<Longrightarrow> accounted fds maps (j # js) n w w'"
  by (auto simp: accounted_def)

lemma accounted_trans:
  assumes "accounted fds maps js n w w1" and "accounted fds maps ks m w1 w2"
  shows "accounted fds maps (js @ ks) (n + m) w w2"
proof -
  have d: "maps w2 - maps w = (maps w1 - maps w) \<union> (maps w2 - maps w1)"
    using assms by (auto simp: accounted_def)
  have "card (maps w2 - maps w) = n + m"
    unfolding d using assms by (subst card_Un_disjoint) (auto simp: accounted_def)
  then show ?thesis using assms d by (auto simp: accounted_def)
qed

lemma ParseFdPath_Inr:
  assumes "writes_ok A" and "ParseFdPath A path parcel s = (Inr (res, parcel'), t)"
  shows "res = 0 \<and> (\<exists>fd. parcel' = parcel @ [IFd fd True] \<and>
    (fd_spec A fds maps \<longrightarrow> accounted fds maps [IFd fd True] 0 (ps_world s) (ps_world t)))"
proof -
  obtain fd w where o: "an_open A path (ps_world s) = (fd, w)" "0 \<le> fd" "res = 0"
      "parcel' = parcel @ [IFd fd True]" "t = s\<lparr>ps_world := w\<rparr>"
    using assms(2) by (auto simp: ParseFdPath_def bindC_Inr_iff sysC_Inr_iff fail_ifC_Inr_iff parcel_write_ok [OF assms(1)])
  have "accounted fds maps [IFd fd True] 0 (ps_world s) (ps_world t)" if "fd_spec A fds maps"
  proof -
    note fd_spec_open [OF that o(1,2)]
    then show ?thesis using o(5) by (auto simp: accounted_def)
  qed
  then show ?thesis using o(3,4) by blast
qed

lemma ParseAshmemWithPath_Inr:
  assumes "writes_ok A" and "ParseAshmemWithPath A path parcel s = (Inr (res, parcel'), t)"
  shows "res = 0 \<and> (\<exists>fd. parcel' = parcel @ [IFd fd True] \<and>
    (fd_spec A fds maps \<longrightarrow> accounted fds maps [IFd fd True] 1 (ps_world s) (ps_world t)))"
proof -
  obtain fd w1 ret st_size w2 afd w3 a w4 n w5 r w6 where c:
      "an_open A path (ps_world s) = (fd, w1)" "0 \<le> fd" "an_fstat A fd w1 = ((ret, st_size), w2)"
      "an_ashmem_create_region A ''ditto'' st_size w2 = (afd, w3)" "0 \<le> afd"
      "an_mmap A afd st_size w3 = (Some a, w4)" "an_read A fd a st_size w4 = (n, w5)"
      "an_close A fd w5 = (r, w6)" "t = s\<lparr>ps_world := w6\<rparr>" "res = 0" "parcel' = parcel @ [IFd afd True]"
    using assms(2)
    by (auto simp: ParseAshmemWithPath_def bindC_Inr_iff sysC_Inr_iff fail_ifC_Inr_iff
        parcel_write_ok [OF assms(1)] split: option.splits)
  have "accounted fds maps [IFd afd True] 1 (ps_world s) (ps_world t)" if spec: "fd_spec A fds maps"
  proof -
    note 1 = fd_spec_open [OF spec c(1,2)] and 2 = fd_spec_quiet(1) [OF spec c(3)]
      and 3 = fd_spec_ashmem [OF spec c(4,5)] and 4 = fd_spec_mmap [OF spec c(6)]
      and 5 = fd_spec_quiet(2) [OF spec c(7)]
    have "fd \<in> fds w5" using 1 2 3 4 5 by simp
    note 6 = fd_spec_quiet(3) [OF spec c(8) this]
    have "fds w6 = insert afd (fds (ps_world s))" "maps w6 = insert a (maps (ps_world s))" "a \<notin> maps (ps_world s)"
      using 1 2 3 4 5 6 by auto
    then have "maps w6 - maps (ps_world s) = {a}" by auto
    then show ?thesis
      using c(9) \<open>fds w6 = _\<close> \<open>maps w6 = _\<close> by (auto simp: accounted_def)
  qed
  then show ?thesis using c(10,11) by blast
qed

lemma ParseParcelString_Inr:
  assumes "writes_ok A" and "ParseParcelString A ins parcel s = (Inr (res, parcel'), t)"
  shows "res = 0 \<and> (\<exists>js. parcel' = parcel @ js \<and> written A ins js \<and>
    (fd_spec A fds maps \<longrightarrow> accounted fds maps js (ashmem_count ins) (ps_world s) (ps_world t)))"
  using assms
proof (induction A ins parcel arbitrary: s res parcel' t rule: ParseParcelString.induct)
  case (1 A parcel)
  then show ?case by (auto intro: written_Nil)
next
  case (2 A ty d input parcel)
  note w = parcel_write_ok [OF 2(3)]
  define n where "n = (if ty = Type_ASHMEM_FD_PATH then 1
    else if ty = Type_PARCEL then ashmem_count (nested_inputs d) else 0)"
  obtain res1 parcel1 s1 where first: "(case ty of
          Type_FD_PATH \<Rightarrow> ParseFdPath A (data_of d) parcel
        | Type_ASHMEM_FD_PATH \<Rightarrow> ParseAshmemWithPath A (data_of d) parcel
        | Type_PARCEL \<Rightarrow>
            (if nested_inputs d = [] then returnC (parcel_write A (IInt32 0) parcel)
             else case parcel_write A (IInt32 1) parcel of
                    (res, parcel') \<Rightarrow>
                      if res < 0 then returnC (res, parcel')
                      else ParseParcelString A (nested_inputs d) parcel')
        | _ \<Rightarrow> returnC (0, snd (parcel_write A (simple_item A ty (data_of d)) parcel))) s
      = (Inr (res1, parcel1), s1)"
    and rest: "(if res1 < 0 then returnC (res1, parcel1) else ParseParcelString A input parcel1) s1
      = (Inr (res, parcel'), t)"
    using 2(4) by (auto simp: bindC_Inr_iff)
  have head: "res1 = 0 \<and> (\<exists>js. parcel1 = parcel @ js \<and>
      (\<forall>ks. written A input ks \<longrightarrow> written A (ParcelInput ty d # input) (js @ ks)) \<and>
      (fd_spec A fds maps \<longrightarrow> accounted fds maps js n (ps_world s) (ps_world s1)))"
  proof (cases "ty \<in> {Type_FD_PATH, Type_ASHMEM_FD_PATH, Type_PARCEL}")
    case False
    then have "res1 = 0" "parcel1 = parcel @ [simple_item A ty (data_of d)]" "s1 = s" "n = 0"
      using first by (auto simp: w n_def split: parcel_type.splits)
    then show ?thesis using False by (auto intro: written_simple accounted_item)
  next
    case True
    then consider "ty = Type_FD_PATH" | "ty = Type_ASHMEM_FD_PATH"
      | "ty = Type_PARCEL" "nested_inputs d = []" | "ty = Type_PARCEL" "nested_inputs d \<noteq> []"
      by auto
    then show ?thesis
    proof cases
      case 1
      then show ?thesis
        using first ParseFdPath_Inr [OF 2(3), of "data_of d" parcel s res1 parcel1 s1 fds maps]
        by (auto simp: n_def intro: written_fd)
    next
      case 2
      then show ?thesis
        using first ParseAshmemWithPath_Inr [OF \<open>writes_ok A\<close>, of "data_of d" parcel s res1 parcel1 s1 fds maps]
        by (auto simp: n_def intro: written_fd)
    next
      case 3
      then show ?thesis using first by (auto simp: w n_def intro!: written_null accounted_item)
    next
      case 4
      then have p: "ParseParcelString A (nested_inputs d) (parcel @ [IInt32 1]) s = (Inr (res1, parcel1), s1)"
        using first by (simp add: w)
      from 2(1) [OF 4 w [symmetric] _ 2(3) p] 4 show ?thesis
        by (auto simp: n_def intro: written_parcel accounted_item)
    qed
  qed
  then obtain js where js: "parcel1 = parcel @ js"
      "\<And>ks. written A input ks \<Longrightarrow> written A (ParcelInput ty d # input) (js @ ks)"
      "fd_spec A fds maps \<Longrightarrow> accounted fds maps js n (ps_world s) (ps_world s1)"
    by blast
  have "ParseParcelString A input parcel1 s1 = (Inr (res, parcel'), t)" "\<not> res1 < 0" using rest head by auto
  from 2(2) [OF this(2) 2(3) this(1)] obtain ks where ks: "res = 0" "parcel' = parcel1 @ ks" "written A input ks"
      "fd_spec A fds maps \<Longrightarrow> accounted fds maps ks (ashmem_count input) (ps_world s1) (ps_world t)"
    by blast
  have "ashmem_count (ParcelInput ty d # input) = n + ashmem_count input" by (simp add: n_def)
  then show ?case using js ks accounted_trans by fastforce
qed

text \<open>Calls that succeed.\<close>

definition files_open :: "('w, 'b) android \<Rightarrow> bool" where
  "files_open A \<longleftrightarrow>
     (\<forall>path w. 0 \<le> fst (an_open A path w)) \<and> (\<forall>fd w. fst (fst (an_fstat A fd w)) = 0) \<and>
     (\<forall>name n w. 0 \<le> fst (an_ashmem_create_region A name n w)) \<and> (\<forall>fd n w. fst (an_mmap A fd n w) \<noteq> None) \<and>
     (\<forall>fd a n w. 0 \<le> fst (an_read A fd a n w))"

lemma ParseFiles_succeed:
  assumes "writes_ok A" and "files_open A"
  shows "\<exists>r t. ParseFdPath A path parcel s = (Inr r, t)" and "\<exists>r t. ParseAshmemWithPath A path parcel s = (Inr r, t)"
proof -
  have ok: "\<And>path w. \<not> fst (an_open A path w) < 0" "\<And>fd w. fst (fst (an_fstat A fd w)) = 0"
      "\<And>name n w. \<not> fst (an_ashmem_create_region A name n w) < 0" "\<And>fd n w. fst (an_mmap A fd n w) \<noteq> None"
      "\<And>fd a n w. \<not> fst (an_read A fd a n w) < 0"
    using assms(2) by (simp_all add: files_open_def linorder_not_less)
  show "\<exists>r t. ParseFdPath A path parcel s = (Inr r, t)"
    using ok(1) by (simp add: ParseFdPath_def bindC_app sysC_app fail_ifC_app)
  show "\<exists>r t. ParseAshmemWithPath A path parcel s = (Inr r, t)"
    using ok(4)
    by (auto simp: ParseAshmemWithPath_def bindC_app sysC_app fail_ifC_app ok parcel_write_ok [OF assms(1)]
        split: prod.splits option.splits) (metis fst_conv ok(2))+
qed

lemma ParseParcelString_succeeds:
  assumes "writes_ok A" and "files_open A"
  shows "\<exists>r t. ParseParcelString A ins parcel s = (Inr r, t)"
  using assms
proof (induction A ins parcel arbitrary: s rule: ParseParcelString.induct)
  case (2 A ty d input parcel)
  note w = parcel_write_ok [OF 2(3)]
  let ?first = "case ty of
          Type_FD_PATH \<Rightarrow> ParseFdPath A (data_of d) parcel
        | Type_ASHMEM_FD_PATH \<Rightarrow> ParseAshmemWithPath A (data_of d) parcel
        | Type_PARCEL \<Rightarrow>
            (if nested_inputs d = [] then returnC (parcel_write A (IInt32 0) parcel)
             else case parcel_write A (IInt32 1) parcel of
                    (res, parcel') \<Rightarrow>
                      if res < 0 then returnC (res, parcel')
                      else ParseParcelString A (nested_inputs d) parcel')
        | _ \<Rightarrow> returnC (0, snd (parcel_write A (simple_item A ty (data_of d)) parcel))"
  have "\<exists>r t. ?first s = (Inr r, t)"
  proof (cases "ty = Type_PARCEL \<and> nested_inputs d \<noteq> []")
    case True
    then show ?thesis using 2(1) [OF _ _ w [symmetric] _ 2(3,4)] by (simp add: w)
  next
    case False
    then show ?thesis using ParseFiles_succeed [OF 2(3,4)] by (cases ty) (simp_all add: w)
  qed
  then obtain res parcel1 t where "?first s = (Inr (res, parcel1), t)" by (metis surj_pair)
  moreover have "\<exists>r u. (if res < 0 then returnC (res, parcel1) else ParseParcelString A input parcel1) t = (Inr r, u)"
    using 2(2) [OF _ 2(3,4)] by (cases "res < 0") simp_all
  ultimately show ?case by (auto simp: bindC_app)
qed simp

section \<open>Requests\<close>

text \<open>
  The service \<open>service\<close> is a \<open>DittoBinder\<close> with the state \<open>dbs\<close>, as far as calls with an answer go:
  such a transaction is what its \<^verbatim>\<open>onTransact\<close> makes of it.
\<close>

definition served_by ::
  "('w, 'b) android \<Rightarrow> (int \<Rightarrow> int \<times> parcel_item list option) \<Rightarrow> 'b \<Rightarrow> ('w \<Rightarrow> ditto_binder) \<Rightarrow> bool" where
  "served_by A other service dbs \<longleftrightarrow>
     (\<forall>data w st reply d.
        BnDittoBinder_onTransact A other (request_code A SYNC) data (Some []) (dbs w) = (Inr (st, Some reply), d) \<longrightarrow>
        fst (an_transact A service (request_code A SYNC) data False w) = (st, reply) \<and>
        dbs (snd (an_transact A service (request_code A SYNC) data False w)) = d)"

lemma onTransact_simps:
  "BnDittoBinder_onTransact A other (request_code A START) data reply d = (Inr (0, reply), DittoBinder_start d)"
  "BnDittoBinder_onTransact A other (request_code A END) data reply d =
     (Inr (0, reply), if db_client_cnt (DittoBinder_end d) \<le> 0
                      then (DittoBinder_end d)\<lparr>db_signals := Suc (db_signals (DittoBinder_end d))\<rparr>
                      else DittoBinder_end d)"
  "BnDittoBinder_onTransact A other (request_code A ASYNC) data reply d = (Inr (0, reply), d)"
  "BnDittoBinder_onTransact A other (request_code A SYNC) data (Some r) d =
     (Inr (0, Some (snd (parcel_write A (IByte (DittoBinder_sync (read_byte data))) r))), d)"
  "BnDittoBinder_onTransact A other (request_code A SYNC) data None d = (Inl (Logf ''No reply''), d)"
  by (simp_all add: BnDittoBinder_onTransact_def bindC_app DittoBinder_async_def)

lemma sync_served:
  assumes "writes_ok A" and "served_by A other service dbs"
  shows "\<exists>t. BpDittoBinder_sync A service c s = (Inr (DittoBinder_sync c), t) \<and> dbs (ps_world t) = dbs (ps_world s)"
proof -
  let ?data = "[ditto_token, IByte c]"
  have "BnDittoBinder_onTransact A other (request_code A SYNC) ?data (Some []) (dbs (ps_world s)) =
      (Inr (0, Some [IByte (DittoBinder_sync c)]), dbs (ps_world s))"
    by (simp add: onTransact_simps parcel_write_ok [OF assms(1)] read_byte_def del: request_code.simps)
  then have "fst (an_transact A service (request_code A SYNC) ?data False (ps_world s)) = (0, [IByte (DittoBinder_sync c)]) \<and>
      dbs (snd (an_transact A service (request_code A SYNC) ?data False (ps_world s))) = dbs (ps_world s)"
    using assms(2) unfolding served_by_def by blast
  then show ?thesis
    by (simp add: BpDittoBinder_sync_def parcel_write_ok [OF assms(1)] bindC_app sysC_app del: request_code.simps)
qed

section \<open>The instructions as a class\<close>

lemma the_service_Inr_iff: "the_service f s = (Inr service, t) \<longleftrightarrow> br_service f = Some service \<and> t = s"
  by (auto simp: the_service_def split: option.splits)

lemma BinderRequestDitto_RunSingle_Inr:
  "BinderRequestDitto_RunSingle A ob s = (Inr ob', t) \<Longrightarrow>
     ob' = ob \<and> (\<exists>service x. BpDittoBinder_sync A service 1 s = (Inr x, t))"
  by (auto simp: BinderRequestDitto_RunSingle_def comp_Inr_iffs the_service_def split: option.splits)

interpretation ditto_request: instruction_class E fst "inherit (Instruction_SetUpSingle E)"
  "BinderRequestDitto_RunSingle A" "BinderRequestDitto_TearDownSingle E A" "\<lambda>_. True"
  for E :: "('w, 'g) env" and A :: "('w, 'b) android"
proof
  fix ob ob' :: "ibase \<times> 'b binder_request" and s t :: "'w pstate" and l
  show "inherit (Instruction_SetUpSingle E) ob s = (Inr ob', t) \<Longrightarrow>
      True \<and> set_up_base E (fst ob) (fst ob')"
    by (auto simp: inherit_Inr_iff)
  show "BinderRequestDitto_RunSingle A ob s = (Inr ob', t) \<Longrightarrow> True \<and> fst ob' = fst ob"
    by (auto dest: BinderRequestDitto_RunSingle_Inr)
  show "BinderRequestDitto_TearDownSingle E A l ob s = (Inr ob', t) \<Longrightarrow>
      True \<and> tear_down_base E (fst ob) (fst ob')"
    by (auto simp: BinderRequestDitto_TearDownSingle_def BpDittoBinder_requests bindC_Inr_iff)
qed

interpretation mount_request: instruction_class E fst "inherit (Instruction_SetUpSingle E)"
  "BinderRequestMountService_RunSingle A" "\<lambda>l. inherit (Instruction_TearDownSingle E l)" "\<lambda>_. True"
  for E :: "('w, 'g) env" and A :: "('w, 'b) android"
  by unfold_locales (auto simp: inherit_Inr_iff BinderRequestMountService_RunSingle_def comp_Inr_iffs)

interpretation generic_request: instruction_class E fst "inherit (Instruction_SetUpSingle E)"
  "GenericBinderRequest_RunSingle A" "\<lambda>l. inherit (Instruction_TearDownSingle E l)" "\<lambda>_. True"
  for E :: "('w, 'g) env" and A :: "('w, 'b) android"
  by unfold_locales (auto simp: inherit_Inr_iff GenericBinderRequest_RunSingle_def comp_Inr_iffs Let_def)

interpretation service: instruction_class E fst "inherit (Instruction_SetUpSingle E)"
  "BinderService_RunSingle A" "\<lambda>l. inherit (Instruction_TearDownSingle E l)" "\<lambda>_. True"
  for E :: "('w, 'g) env" and A :: "('w, 'b) android"
  by unfold_locales (auto simp: inherit_Inr_iff BinderService_RunSingle_def comp_Inr_iffs)

section \<open>What a client sends\<close>

text \<open>\<open>seen\<close> are the requests that have reached the services, as a system keeps them.\<close>

definition leaves :: "('w \<Rightarrow> 'x) \<Rightarrow> ('w, 'a) act \<Rightarrow> bool" where
  "leaves seen m \<longleftrightarrow> (\<forall>s. seen (ps_world (snd (m s))) = seen (ps_world s))"

named_theorems leaves_intros \<open>actions that leave a view of the system alone\<close>

lemma leavesD: "leaves seen m \<Longrightarrow> m s = (r, t) \<Longrightarrow> seen (ps_world t) = seen (ps_world s)"
  unfolding leaves_def by (metis snd_conv)

lemma leaves_bindC [leaves_intros]:
  "leaves seen m \<Longrightarrow> (\<And>x. leaves seen (k x)) \<Longrightarrow> leaves seen (bindC m k)"
  unfolding leaves_def bindC_def by (simp split: prod.splits sum.splits) (metis snd_conv)

lemma leaves_if [leaves_intros]:
  "leaves seen m \<Longrightarrow> leaves seen n \<Longrightarrow> leaves seen (if b then m else n)"
  by simp

lemma leaves_basic [leaves_intros]:
  "leaves seen (returnC x)" "leaves seen (failC e)" "leaves seen (liftR r)" "leaves seen (fail_ifC b e)"
  "leaves seen (write_mark E msg)"
  by (simp_all add: leaves_def fail_ifC_def write_mark_app)

lemma leaves_sysC [leaves_intros]: "(\<And>w. seen (snd (f w)) = seen w) \<Longrightarrow> leaves seen (sysC f)"
  by (simp add: leaves_def sysC_app)

definition quiet_clocks :: "('w, 'g) env \<Rightarrow> ('w \<Rightarrow> 'x) \<Rightarrow> bool" where
  "quiet_clocks E seen \<longleftrightarrow> (\<forall>c w. seen (snd (clock_gettime E c w)) = seen w) \<and>
     (\<forall>t w. seen (snd (clock_nanosleep E t w)) = seen w)"

lemma leaves_base [leaves_intros]:
  assumes "quiet_clocks E seen"
  shows "leaves seen (Instruction_SetUp E b)" "leaves seen (Instruction_SetUpSingle E b)"
    "leaves seen (Instruction_TearDownSingle E l b)"
  using assms
  unfolding Instruction_SetUp_def Instruction_SetUpSingle_def Instruction_TearDownSingle_def wait_wakeup_def
    MeasureStart_def MeasureEnd_def read_clock_def Tracer_Start_def Tracer_End_def quiet_clocks_def
  by (auto intro!: leaves_intros split: prod.splits)

definition logs_requests :: "('w, 'b) android \<Rightarrow> ('w \<Rightarrow> request list) \<Rightarrow> bool" where
  "logs_requests A seen \<longleftrightarrow>
     (\<forall>service rq data ow w. seen (snd (an_transact A service (request_code A rq) data ow w)) = seen w @ [rq]) \<and>
     (\<forall>name w. seen (snd (an_waitForService A name w)) = seen w)"

lemma oneway_logged:
  assumes "logs_requests A seen" and "BpDittoBinder_oneway A service rq s = (Inr (), t)"
  shows "seen (ps_world t) = seen (ps_world s) @ [rq]"
  using assms
  by (auto simp: BpDittoBinder_oneway_def bindC_app sysC_app Let_def logs_requests_def simp del: request_code.simps)

lemma sync_logged:
  assumes "logs_requests A seen" and "BpDittoBinder_sync A service c s = (Inr x, t)"
  shows "seen (ps_world t) = seen (ps_world s) @ [SYNC]"
proof -
  obtain data where "ps_world t = snd (an_transact A service (request_code A SYNC) data False (ps_world s))"
    using assms(2)
    by (auto simp: BpDittoBinder_sync_def bindC_app sysC_app Let_def
        simp del: request_code.simps split: prod.splits list.splits parcel_item.splits)
  then show ?thesis using assms(1) by (simp add: logs_requests_def del: request_code.simps)
qed

lemma request_logged:
  assumes "logs_requests A seen" and "quiet_clocks E seen"
    and "Instruction_single (inherit (Instruction_SetUpSingle E)) (BinderRequestDitto_RunSingle A)
           (BinderRequestDitto_TearDownSingle E A) l ob s = (Inr ob', t)"
  shows "seen (ps_world t) = seen (ps_world s) @ SYNC # (if l then [END] else [])"
proof -
  obtain o1 o2 s1 s2 where *: "inherit (Instruction_SetUpSingle E) ob s = (Inr o1, s1)"
      "BinderRequestDitto_RunSingle A o1 s1 = (Inr o2, s2)"
      "BinderRequestDitto_TearDownSingle E A l o2 s2 = (Inr ob', t)"
    using assms(3) by (auto simp: Instruction_single_def bindC_Inr_iff)
  have "seen (ps_world s1) = seen (ps_world s)" using leavesD [OF leaves_base(2) [OF assms(2)]] *(1) by (auto simp: inherit_Inr_iff)
  moreover have "seen (ps_world s2) = seen (ps_world s1) @ [SYNC]"
    using BinderRequestDitto_RunSingle_Inr [OF *(2)] sync_logged [OF assms(1)] by blast
  moreover obtain s3 where "Instruction_TearDownSingle E l (fst o2) s2 = (Inr (fst ob'), s3)"
      "(if l then bindC (the_service (snd o2)) (\<lambda>service. BpDittoBinder_oneway A service END) else returnC ()) s3 = (Inr (), t)"
    using *(3) unfolding BinderRequestDitto_TearDownSingle_def BpDittoBinder_requests by (auto simp: bindC_Inr_iff)
  moreover from this have "seen (ps_world t) = seen (ps_world s2) @ (if l then [END] else [])"
    using leavesD [OF leaves_base(3) [OF assms(2)]] oneway_logged [OF assms(1)]
    by (auto simp: bindC_Inr_iff the_service_Inr_iff split: if_splits)
  ultimately show ?thesis by simp
qed

lemma requests_logged:
  assumes "logs_requests A seen" and "quiet_clocks E seen"
    and "run_times (Instruction_single (inherit (Instruction_SetUpSingle E)) (BinderRequestDitto_RunSingle A)
           (BinderRequestDitto_TearDownSingle E A)) n ob s = (Inr ob', t)"
  shows "seen (ps_world t) = seen (ps_world s) @ replicate n SYNC @ (if n = 0 then [] else [END])"
  using assms(3)
proof (induction n arbitrary: ob s)
  case (Suc n)
  then obtain o1 s1 where *: "Instruction_single (inherit (Instruction_SetUpSingle E)) (BinderRequestDitto_RunSingle A)
           (BinderRequestDitto_TearDownSingle E A) (n = 0) ob s = (Inr o1, s1)"
      "run_times (Instruction_single (inherit (Instruction_SetUpSingle E)) (BinderRequestDitto_RunSingle A)
           (BinderRequestDitto_TearDownSingle E A)) n o1 s1 = (Inr ob', t)"
    by (auto simp: bindC_Inr_iff)
  show ?case using Suc.IH [OF *(2)] request_logged [OF assms(1,2) *(1)] by (auto split: if_splits)
qed simp

text \<open>
  C18: a client of the service counts itself in, makes one request for each of its repetitions, in
  order, and counts itself out after the last one; without a repetition it never counts itself out.
\<close>

theorem client_counts_itself:
  assumes "logs_requests A seen" and "quiet_clocks E seen"
    and "BinderRequestDitto_SetUp E A ob s = (Inr ob1, s1)"
    and "Instruction_Run fst (inherit (Instruction_SetUpSingle E)) (BinderRequestDitto_RunSingle A)
           (BinderRequestDitto_TearDownSingle E A) ob1 s1 = (Inr ob2, t)"
  shows "seen (ps_world t) = seen (ps_world s) @ START # replicate (nat (ib_repeat (fst ob))) SYNC @
     (if nat (ib_repeat (fst ob)) = 0 then [] else [END])"
proof -
  obtain service b u v where *: "getBinderService A ''DittoBinder'' (br_service_name (snd ob)) s = (Inr service, u)"
      "BpDittoBinder_oneway A service START u = (Inr (), v)" "Instruction_SetUp E (fst ob) v = (Inr b, s1)" "fst ob1 = b"
    using assms(3) by (auto simp: BinderRequestDitto_SetUp_def BpDittoBinder_requests bindC_Inr_iff)
  have "leaves seen (getBinderService A ''DittoBinder'' (br_service_name (snd ob)))"
    using assms(1) unfolding getBinderService_def logs_requests_def
    by (auto intro!: leaves_intros split: option.splits)
  then have "seen (ps_world u) = seen (ps_world s)" using *(1) by (rule leavesD)
  moreover have "seen (ps_world v) = seen (ps_world u) @ [START]" by (rule oneway_logged [OF assms(1) *(2)])
  moreover have "seen (ps_world s1) = seen (ps_world v)" by (rule leavesD [OF leaves_base(1) [OF assms(2)] *(3)])
  moreover have "ib_repeat b = ib_repeat (fst ob)"
    using *(3) by (auto simp: Instruction_SetUp_def bindC_Inr_iff split: if_splits)
  ultimately show ?thesis
    using requests_logged [OF assms(1,2) assms(4) [unfolded Instruction_Run_def]] *(4) by simp
qed

text \<open>
  A request to a \<open>DittoBinder\<close> gets the complement of the byte it sends, whatever the byte, so
  that the instruction, which checks it, never fails; the service stays as it is.
\<close>

theorem ditto_request_succeeds:
  assumes "writes_ok A" and "served_by A other service dbs" and "br_service (snd ob) = Some service"
  shows "\<exists>t. BinderRequestDitto_RunSingle A ob s = (Inr ob, t) \<and> dbs (ps_world t) = dbs (ps_world s) \<and>
    fst (BpDittoBinder_sync A service c s) = Inr (NOT c)"
proof -
  obtain t where "BpDittoBinder_sync A service 1 s = (Inr (DittoBinder_sync 1), t)" "dbs (ps_world t) = dbs (ps_world s)"
    using sync_served [OF assms(1,2)] by blast
  moreover have "sint (DittoBinder_sync 1) = NOT 1" by (simp add: DittoBinder_sync_def)
  moreover have "fst (BpDittoBinder_sync A service c s) = Inr (NOT c)"
    using sync_served [OF assms(1,2), of c s] by (auto simp: DittoBinder_sync_def)
  ultimately show ?thesis
    by (auto simp: BinderRequestDitto_RunSingle_def the_service_def bindC_app fail_ifC_app assms(3))
qed


text \<open>
  C30: every descriptor that the inputs of a request open is closed or handed to the parcel, and every
  region of shared memory stays mapped: one for each input of that kind.
\<close>

theorem request_descriptors:
  assumes "writes_ok A" and "fd_spec A fds maps"
    and "ParseParcelString A ins parcel s = (Inr (res, parcel'), t)"
  shows "\<exists>js. parcel' = parcel @ js \<and> fds (ps_world s) \<subseteq> fds (ps_world t) \<and>
    (\<forall>fd \<in> fds (ps_world t) - fds (ps_world s). IFd fd True \<in> set js) \<and>
    maps (ps_world s) \<subseteq> maps (ps_world t) \<and> card (maps (ps_world t) - maps (ps_world s)) = ashmem_count ins"
  using ParseParcelString_Inr [OF assms(1,3), of fds maps] assms(2) unfolding accounted_def by blast

section \<open>The life of the service\<close>

fun weight :: "request \<Rightarrow> int" where
  "weight START = 1"
| "weight END = -1"
| "weight _ = 0"

text \<open>The counter, and what it will be while the queue is delivered.\<close>

definition balance :: "request list \<Rightarrow> int" where
  "balance qs = sum_list (map weight qs)"

fun never_negative :: "int \<Rightarrow> request list \<Rightarrow> bool" where
  "never_negative c [] \<longleftrightarrow> 0 \<le> c"
| "never_negative c (q # qs) \<longleftrightarrow> 0 \<le> c \<and> never_negative (c + weight q) qs"

lemma never_negative_snoc:
  "never_negative c (qs @ [q]) \<longleftrightarrow> never_negative c qs \<and> 0 \<le> c + balance qs + weight q"
  by (induction qs arbitrary: c) (auto simp: balance_def algebra_simps)

lemma never_negativeD: "never_negative c qs \<Longrightarrow> 0 \<le> c"
  by (cases qs) simp_all

fun active :: "client_pc \<Rightarrow> bool" where
  "active (Requesting r) = True"
| "active Ending = True"
| "active _ = False"

definition number :: "('a \<Rightarrow> bool) \<Rightarrow> 'a list \<Rightarrow> nat" where
  "number P xs = length (filter P xs)"

lemma number_simps [simp]:
  "number P [] = 0"
  "number P (x # xs) = (if P x then Suc (number P xs) else number P xs)"
  "number P (xs @ ys) = number P xs + number P ys"
  by (simp_all add: number_def)

lemma number_update:
  "i < length xs \<Longrightarrow>
     number P (xs[i := y]) + (if P (xs ! i) then 1 else 0) = number P xs + (if P y then 1 else 0)"
proof (induction xs arbitrary: i)
  case (Cons x xs)
  then show ?case using Cons.IH [of "i - 1"] by (cases i) auto
qed simp

lemma number_disjoint:
  "(\<And>x. \<not> (P x \<and> Q x)) \<Longrightarrow> number P xs + number Q xs \<le> length xs"
  by (induction xs) (auto intro: le_SucI)

lemma number_0: "number P xs = 0 \<longleftrightarrow> (\<forall>x \<in> set xs. \<not> P x)"
  by (auto simp: number_def filter_empty_conv)

lemma balance_bound: "- int (number (\<lambda>q. q = END) qs) \<le> balance qs"
proof (induction qs)
  case (Cons q qs)
  then show ?case by (cases q) (auto simp: balance_def)
qed (simp add: balance_def)

definition cnt :: "service_run \<Rightarrow> int" where
  "cnt s = db_client_cnt (sr_binder s)"

text \<open>
  The counter and the queue together are the clients that run, and a client that has counted itself
  out is the only reason for an \<^verbatim>\<open>END\<close> in the queue.
\<close>

definition service_inv :: "nat \<Rightarrow> service_run \<Rightarrow> bool" where
  "service_inv n s \<longleftrightarrow>
     length (sr_clients s) = n \<and> set (sr_queue s) \<subseteq> {START, END} \<and> never_negative (cnt s) (sr_queue s) \<and>
     cnt s + balance (sr_queue s) = int (number active (sr_clients s)) \<and>
     number (\<lambda>q. q = END) (sr_queue s) \<le> number (\<lambda>c. c = Finished) (sr_clients s)"

lemma service_inv_bound:
  assumes "service_inv n s"
  shows "cnt s \<le> int n" and "sr_queue s = START # queue \<Longrightarrow> cnt s + 1 \<le> int n"
proof -
  have "number active (sr_clients s) + number (\<lambda>c. c = Finished) (sr_clients s) \<le> length (sr_clients s)"
    by (rule number_disjoint) auto
  then have "int (number active (sr_clients s)) + int (number (\<lambda>q. q = END) (sr_queue s)) \<le> int n"
    using assms by (auto simp: service_inv_def)
  then show "cnt s \<le> int n" "sr_queue s = START # queue \<Longrightarrow> cnt s + 1 \<le> int n"
    using assms balance_bound [of "sr_queue s"] balance_bound [of queue]
    by (auto simp: service_inv_def balance_def)
qed

lemma service_inv_start: "service_inv (length requests) (service_start requests)"
proof -
  have "number active (map NotStarted requests) = 0" by (auto simp: number_0)
  then show ?thesis by (simp add: service_inv_def service_start_def cnt_def balance_def)
qed

text \<open>A delivery changes the counter by the weight of the call.\<close>

lemma delivered:
  assumes "BnDittoBinder_onTransact A other (request_code A q) data None d = (Inr y, d')" and "q \<in> {START, END}"
    and "- (2 ^ 31) \<le> db_client_cnt d + weight q" and "db_client_cnt d + weight q < 2 ^ 31"
  shows "db_client_cnt d' = db_client_cnt d + weight q"
    and "db_signals d < db_signals d' \<longleftrightarrow> q = END \<and> db_client_cnt d' \<le> 0"
  using assms
  by (auto simp: onTransact_simps DittoBinder_start_def DittoBinder_end_def narrow32_in in_i32_def
      simp del: request_code.simps split: if_splits)

lemma sync_delivered:
  "BnDittoBinder_onTransact A other (request_code A SYNC) data (Some r) d = (Inr y, d') \<Longrightarrow> d' = d"
  by (auto simp: onTransact_simps simp del: request_code.simps)

lemma service_inv_step:
  assumes "service_inv n s" and "service_step A other s t" and "n < 2 ^ 31"
  shows "service_inv n t"
  using assms(2)
proof (cases rule: service_step.cases)
  case (starts i r)
  then show ?thesis
    using assms(1) number_update [of i "sr_clients s" active "Requesting r"]
      number_update [of i "sr_clients s" "\<lambda>c. c = Finished" "Requesting r"]
    by (auto simp: service_inv_def cnt_def never_negative_snoc balance_def)
next
  case (requests i r y d)
  then show ?thesis
    using assms(1) sync_delivered [OF requests(4)]
      number_update [of i "sr_clients s" active "if r = 0 then Ending else Requesting r"]
      number_update [of i "sr_clients s" "\<lambda>c. c = Finished" "if r = 0 then Ending else Requesting r"]
    by (auto simp: service_inv_def cnt_def split: if_splits)
next
  case (ends i)
  then show ?thesis
    using assms(1) number_update [of i "sr_clients s" active Finished]
      number_update [of i "sr_clients s" "\<lambda>c. c = Finished" Finished]
    by (auto simp: service_inv_def cnt_def never_negative_snoc balance_def)
next
  case (delivers q queue y d)
  have q: "q \<in> {START, END}" and c: "0 \<le> cnt s" "0 \<le> cnt s + weight q"
    using assms(1) delivers(2) by (auto simp: service_inv_def dest: never_negativeD)
  have "cnt s + weight q < 2 ^ 31" using service_inv_bound [OF assms(1)] q delivers(2) assms(3) by auto
  then have "db_client_cnt d = cnt s + weight q"
    using delivered(1) [OF delivers(3) q] c by (simp add: cnt_def)
  then show ?thesis
    using assms(1) delivers(1,2) by (auto simp: service_inv_def cnt_def balance_def split: if_splits)
next
  case waits
  then show ?thesis using assms(1) by (simp add: service_inv_def cnt_def)
qed

lemma reachable_inv:
  assumes "(service_step A other ^^ k) (service_start requests) s" and "length requests < 2 ^ 31"
  shows "service_inv (length requests) s"
  using assms(1)
proof (induction k arbitrary: s)
  case (Suc k)
  then show ?case using service_inv_step assms(2) by (metis relpowp_Suc_E)
qed (simp add: service_inv_start)

text \<open>Every step is one less.\<close>

fun left_of :: "client_pc \<Rightarrow> nat" where
  "left_of (NotStarted r) = r + 4"
| "left_of (Requesting r) = r + 2"
| "left_of Ending = 2"
| "left_of Finished = 0"

definition left :: "service_run \<Rightarrow> nat" where
  "left s = sum_list (map left_of (sr_clients s)) + length (sr_queue s) + (if sr_wait s = BeforeWait then 1 else 0)"

lemma left_update:
  "i < length xs \<Longrightarrow> sum_list (map left_of (xs[i := y])) + left_of (xs ! i) = sum_list (map left_of xs) + left_of y"
proof (induction xs arbitrary: i)
  case (Cons x xs)
  then show ?case using Cons.IH [of "i - 1"] by (cases i) auto
qed simp

lemma service_left_step: "service_step A other s t \<Longrightarrow> left s = Suc (left t)"
proof (induction rule: service_step.induct)
  case (starts i s r)
  then show ?case using left_update [of i "sr_clients s" "Requesting r"] by (simp add: left_def)
next
  case (requests i s r y d)
  then show ?case
    using left_update [of i "sr_clients s" "if r = 0 then Ending else Requesting r"]
    by (simp add: left_def split: if_splits)
next
  case (ends i s)
  then show ?case using left_update [of i "sr_clients s" Finished] by (simp add: left_def)
qed (auto simp: left_def wake_def)

lemma left_steps: "(service_step A other ^^ k) s t \<Longrightarrow> left s = k + left t"
proof (induction k arbitrary: t)
  case (Suc k)
  then show ?case using service_left_step by (metis add_Suc_shift relpowp_Suc_E)
qed simp

text \<open>Clients that make a request at all, and what the waiting thread waits for.\<close>

definition all_request :: "service_run \<Rightarrow> bool" where
  "all_request s \<longleftrightarrow> NotStarted 0 \<notin> set (sr_clients s) \<and> Requesting 0 \<notin> set (sr_clients s)"

definition awaited :: "service_run \<Rightarrow> bool" where
  "awaited s \<longleftrightarrow> sr_wait s = Waiting \<and> ((\<exists>c \<in> set (sr_clients s). c \<noteq> Finished) \<or> END \<in> set (sr_queue s))"

lemma all_request_step: "service_step A other s t \<Longrightarrow> all_request s \<Longrightarrow> all_request t"
proof (induction rule: service_step.induct)
  case (starts i s r)
  then have "r \<noteq> 0" by (metis all_request_def nth_mem)
  then show ?case using starts by (auto simp: all_request_def dest!: set_update_subset_insert [THEN subsetD])
qed (auto simp: all_request_def dest!: set_update_subset_insert [THEN subsetD] split: if_splits)

lemma all_request_steps: "(service_step A other ^^ k) s t \<Longrightarrow> all_request s \<Longrightarrow> all_request t"
proof (induction k arbitrary: t)
  case (Suc k)
  then show ?case using all_request_step by (metis relpowp_Suc_E)
qed simp

lemma released_step: "service_step A other s t \<Longrightarrow> sr_wait s = Released \<Longrightarrow> sr_wait t = Released"
  by (induction rule: service_step.induct) (auto simp: wake_def)

lemma balance_starts: "set qs \<subseteq> {START, END} \<Longrightarrow> END \<notin> set qs \<Longrightarrow> 0 \<le> balance qs"
  by (induction qs) (auto simp: balance_def)

text \<open>A delivery, in a state that can be reached.\<close>

lemma delivery_effect:
  assumes "service_inv n s" and "n < 2 ^ 31" and "sr_queue s = q # queue"
    and "BnDittoBinder_onTransact A other (request_code A q) oneway_data None (sr_binder s) = (Inr y, d)"
  shows "db_client_cnt d = cnt s + weight q"
    and "wake (sr_binder s) d pc = (if pc = Waiting \<and> q = END \<and> db_client_cnt d \<le> 0 then Released else pc)"
proof -
  have q: "q \<in> {START, END}" and c: "0 \<le> cnt s" "0 \<le> cnt s + weight q"
    using assms(1,3) by (auto simp: service_inv_def dest: never_negativeD)
  have "cnt s + weight q < 2 ^ 31" using service_inv_bound [OF assms(1)] q assms(2,3) by auto
  then show "db_client_cnt d = cnt s + weight q"
      "wake (sr_binder s) d pc = (if pc = Waiting \<and> q = END \<and> db_client_cnt d \<le> 0 then Released else pc)"
    using delivered [OF assms(4) q] c by (auto simp: cnt_def wake_def)
qed

lemma awaited_step:
  assumes "service_inv n s" and "n < 2 ^ 31" and "service_step A other s t" and "awaited s"
  shows "awaited t \<or> sr_wait t = Released"
  using assms(3)
proof (cases rule: service_step.cases)
  case (delivers q queue y d)
  note e = delivery_effect [OF assms(1,2) delivers(2,3)]
  show ?thesis
  proof (cases "q = END \<and> db_client_cnt d \<le> 0")
    case True
    then show ?thesis using assms(4) delivers(1) e(2) by (simp add: awaited_def)
  next
    case False
    have "(\<exists>c \<in> set (sr_clients s). c \<noteq> Finished) \<or> END \<in> set queue"
    proof (rule ccontr)
      assume none: "\<not> ?thesis"
      then have "q = END" using assms(4) delivers(2) by (auto simp: awaited_def)
      moreover have "number active (sr_clients s) = 0" using none by (auto simp: number_0)
      moreover have "0 \<le> balance queue"
        using none assms(1) delivers(2) by (intro balance_starts) (auto simp: service_inv_def)
      ultimately have "db_client_cnt d \<le> 0"
        using assms(1) delivers(2) e(1) by (auto simp: service_inv_def balance_def)
      then show False using False \<open>q = END\<close> by simp
    qed
    then show ?thesis using assms(4) delivers(1) e(2) False by (auto simp: awaited_def)
  qed
next
  case (starts i r)
  then have "Requesting r \<in> set (sr_clients t)" using set_update_memI by fastforce
  then show ?thesis using assms(4) starts(1) by (auto simp: awaited_def)
next
  case (requests i r y d)
  then have "(if r = 0 then Ending else Requesting r) \<in> set (sr_clients t)" using set_update_memI by fastforce
  then show ?thesis using assms(4) requests(1) by (auto simp: awaited_def split: if_splits)
qed (use assms(4) in \<open>auto simp: awaited_def\<close>)

lemma awaited_moves:
  assumes "service_inv n s" and "all_request s" and "awaited s"
  shows "\<exists>t. service_step A other s t"
proof (cases "sr_queue s")
  case (Cons q queue)
  then have "q \<in> {START, END}" using assms(1) by (auto simp: service_inv_def)
  then obtain y d where "BnDittoBinder_onTransact A other (request_code A q) oneway_data None (sr_binder s) = (Inr y, d)"
    by (auto simp: onTransact_simps simp del: request_code.simps)
  then show ?thesis using service_step.delivers [OF Cons] by blast
next
  case Nil
  then obtain i where i: "i < length (sr_clients s)" "sr_clients s ! i \<noteq> Finished"
    using assms(3) by (auto simp: awaited_def in_set_conv_nth)
  show ?thesis
  proof (cases "sr_clients s ! i")
    case (NotStarted r)
    then show ?thesis using service_step.starts [OF i(1)] by blast
  next
    case (Requesting r)
    then obtain m where "sr_clients s ! i = Requesting (Suc m)"
      using assms(2) i(1) by (cases r) (auto simp: all_request_def in_set_conv_nth)
    then show ?thesis
      using service_step.requests [OF i(1)] onTransact_simps(4) by blast
  next
    case Ending
    then show ?thesis using service_step.ends [OF i(1)] by blast
  qed (use i(2) in simp)
qed

lemma awaited_steps:
  assumes "(service_step A other ^^ k) s t" and "service_inv n s" and "n < 2 ^ 31" and "awaited s"
  shows "service_inv n t \<and> (awaited t \<or> sr_wait t = Released)"
  using assms(1)
proof (induction k arbitrary: t)
  case (Suc k)
  then obtain u where u: "(service_step A other ^^ k) s u" "service_step A other u t" by (auto elim: relpowp_Suc_E)
  from Suc.IH [OF u(1)] show ?case
    using service_inv_step [OF _ u(2) assms(3)] awaited_step [OF _ assms(3) u(2)] released_step [OF u(2)] by blast
qed (use assms(2,4) in simp)

section \<open>Properties of the service\<close>


text \<open>
  C16: a thread that waits while some client has still to finish is released: the processes come to an
  end after a number of steps that the requests bound, and then it is. This holds for clients that
  make at least one request each.
\<close>

theorem service_is_released:
  assumes "(service_step A other ^^ k) (service_start requests) s" and "length requests < 2 ^ 31"
    and "0 \<notin> set requests" and "sr_wait s = Waiting" and "\<exists>c \<in> set (sr_clients s). c \<noteq> Finished"
    and "(service_step A other ^^ m) s t"
  shows "k + m \<le> sum_list requests + 4 * length requests + 1 \<and>
    ((\<exists>u. service_step A other t u) \<or> sr_wait t = Released)"
proof -
  have "left (service_start requests) = sum_list requests + 4 * length requests + 1"
    by (induction requests) (simp_all add: left_def service_start_def)
  moreover have "left (service_start requests) = k + (m + left t)" using left_steps [OF assms(1)] left_steps [OF assms(6)] by simp
  ultimately have "k + m \<le> sum_list requests + 4 * length requests + 1" by simp
  moreover have "all_request (service_start requests)" using assms(3) by (auto simp: all_request_def service_start_def)
  then have "all_request t" using all_request_steps assms(1,6) by blast
  moreover have "awaited s" using assms(4,5) by (simp add: awaited_def)
  from awaited_steps [OF assms(6) reachable_inv [OF assms(1,2)] assms(2) this]
  have "service_inv (length requests) t" "awaited t \<or> sr_wait t = Released" by auto
  ultimately show ?thesis using awaited_moves by blast
qed

text \<open>
  The signal is lost when the last client finishes before the thread waits: \<^verbatim>\<open>pthread_cond_wait\<close> is
  called without looking at the counter, and nothing will wake it.
\<close>

theorem early_signal_is_lost:
  assumes "\<forall>c \<in> set (sr_clients s). c = Finished" and "sr_queue s = []" and "sr_wait s = BeforeWait"
  shows "service_step A other s t \<longleftrightarrow> t = s\<lparr>sr_wait := Waiting\<rparr>"
    and "\<not> service_step A other (s\<lparr>sr_wait := Waiting\<rparr>) u"
proof -
  have c: "sr_clients s ! i = Finished" if "i < length (sr_clients s)" for i using assms(1) that by simp
  show "service_step A other s t \<longleftrightarrow> t = s\<lparr>sr_wait := Waiting\<rparr>"
    using assms(2,3) c by (auto simp: service_step.simps)
  show "\<not> service_step A other (s\<lparr>sr_wait := Waiting\<rparr>) u"
    using assms(2) c by (auto simp: service_step.simps)
qed

section \<open>Examples\<close>

text \<open>A platform on which every call succeeds; transactions are logged, open descriptors are entries.\<close>

definition sample_open :: "string \<Rightarrow> sample_world \<Rightarrow> int \<times> sample_world" where
  "sample_open p w =
     (let fd = 1 + foldr max (map fst (sw_entries w)) 0 in (fd, w\<lparr>sw_entries := (fd, p) # sw_entries w\<rparr>))"

definition sample_android :: "(sample_world, unit) android" where
  "sample_android =
     \<lparr>an_write = (\<lambda>p i. 0), an_open = sample_open, an_fstat = (\<lambda>fd w. ((0, 4096), w)),
      an_ashmem_create_region = (\<lambda>name n. sample_open name), an_mmap = (\<lambda>fd n. sample_mmap (word_of_int n)),
      an_read = (\<lambda>fd a n w. (max 0 n, w)),
      an_close = (\<lambda>fd w. (0, w\<lparr>sw_entries := filter (\<lambda>e. fst e \<noteq> fd) (sw_entries w)\<rparr>)),
      an_atof = (\<lambda>s. Fin 0), an_service_manager = True,
      an_waitForService = (\<lambda>name w. (Some (), w)), an_checkService = (\<lambda>name w. (Some (), w)),
      an_interface_cast = (\<lambda>name b. True), an_descriptor = (\<lambda>b. ''DittoBinder''),
      an_transact = (\<lambda>b code data ow w.
        ((0, [IByte (NOT (read_byte data))]), log_call ''transact'' [code] w)),
      an_isUsbMassStorageConnected = (\<lambda>b w. (False, w)),
      an_addService = (\<lambda>name. log_call name []), an_startThreadPool = (\<lambda>n. log_call ''pool'' [n]),
      an_cond_wait = (\<lambda>w. w), an_first_call = 1\<rparr>"

definition sample_requests :: "sample_world \<Rightarrow> request list" where
  "sample_requests w = concat (map (\<lambda>c. case c of Call n args \<Rightarrow>
     if n = ''transact''
     then (if args = [1] then [START] else if args = [2] then [END] else if args = [3] then [SYNC] else [ASYNC])
     else []) (sw_calls w))"

lemma sample_android_ok: "writes_ok sample_android" "served_by sample_android other () (\<lambda>w. d)"
proof -
  show w: "writes_ok sample_android" by (simp add: writes_ok_def sample_android_def)
  have "an_transact sample_android () c data ow v = ((0, [IByte (NOT (read_byte data))]), log_call ''transact'' [c] v)"
    for c data ow v by (simp add: sample_android_def)
  then show "served_by sample_android other () (\<lambda>w. d)"
    by (auto simp: served_by_def onTransact_simps parcel_write_ok [OF w] DittoBinder_sync_def simp del: request_code.simps)
qed

lemma sample_android_logs: "logs_requests sample_android sample_requests" "quiet_clocks sample_env sample_requests"
proof -
  show "logs_requests sample_android sample_requests"
    unfolding logs_requests_def
  proof (intro conjI allI)
    fix service rq data ow w
    show "sample_requests (snd (an_transact sample_android service (request_code sample_android rq) data ow w)) =
        sample_requests w @ [rq]"
      by (cases rq) (simp_all add: sample_android_def sample_requests_def log_call_def)
  qed (simp add: sample_android_def)
  show "quiet_clocks sample_env sample_requests"
    by (simp add: quiet_clocks_def sample_env_def sample_clock_def log_call_def sample_requests_def)
qed

definition ditto_client :: "ibase \<times> unit binder_request" where
  "ditto_client = BinderRequestDitto_ctor \<lparr>pr_repeat = 2, pr_period_us = 0, pr_offset_us = 0\<rparr> ''service''"

theorem client_counts_itself_witness:
  "\<exists>ob1 s1 ob2 t. BinderRequestDitto_SetUp sample_env sample_android ditto_client sample_state = (Inr ob1, s1) \<and>
     Instruction_Run fst (inherit (Instruction_SetUpSingle sample_env)) (BinderRequestDitto_RunSingle sample_android)
       (BinderRequestDitto_TearDownSingle sample_env sample_android) ob1 s1 = (Inr ob2, t) \<and>
     sample_requests (ps_world t) = [START, SYNC, SYNC, END]"
proof -
  let ?run = "Instruction_Run fst (inherit (Instruction_SetUpSingle sample_env)) (BinderRequestDitto_RunSingle sample_android)
       (BinderRequestDitto_TearDownSingle sample_env sample_android)"
  have "case BinderRequestDitto_SetUp sample_env sample_android ditto_client sample_state of
      (Inr ob1, s1) \<Rightarrow> \<not> isl (fst (?run ob1 s1)) | _ \<Rightarrow> False"
    by code_simp
  then obtain ob1 s1 where 1: "BinderRequestDitto_SetUp sample_env sample_android ditto_client sample_state = (Inr ob1, s1)"
      "\<not> isl (fst (?run ob1 s1))"
    by (auto split: prod.splits sum.splits)
  then obtain ob2 t where 2: "?run ob1 s1 = (Inr ob2, t)" using not_isl_Inr by blast
  have "sample_requests (ps_world sample_state) = []" "ib_repeat (fst ditto_client) = 2"
    by (simp_all add: sample_requests_def sample_state_def sample_world0_def ditto_client_def BinderRequestDitto_ctor_def
        BinderRequest_ctor_def Instruction_ctor_def)
  with client_counts_itself [OF sample_android_logs 1(1) 2] 1 2 show ?thesis
    by (intro exI conjI) (auto simp: numeral_2_eq_2)
qed

theorem ditto_request_succeeds_witness:
  "\<exists>t. BinderRequestDitto_RunSingle sample_android (fst ditto_client, \<lparr>br_service_name = [], br_service = Some ()\<rparr>)
      sample_state = (Inr (fst ditto_client, \<lparr>br_service_name = [], br_service = Some ()\<rparr>), t)"
  using ditto_request_succeeds [OF sample_android_ok, of "(fst ditto_client, \<lparr>br_service_name = [], br_service = Some ()\<rparr>)"]
  by auto

definition sample_inputs :: "parcel_input list" where
  "sample_inputs =
     [ParcelInput Type_I32 (Data ''42''), ParcelInput Type_FD_PATH (Data ''/f''),
      ParcelInput Type_PARCEL (NestedParcel [ParcelInput Type_ASHMEM_FD_PATH (Data ''/g''), ParcelInput Type_PARCEL NoData])]"

lemma sample_files_open: "files_open sample_android"
proof -
  have "0 \<le> foldr max (map fst (xs :: (int \<times> string) list)) 0" for xs by (induction xs) auto
  then have "0 \<le> fst (sample_open p w)" for p w by (simp add: sample_open_def Let_def add_nonneg_nonneg)
  then show ?thesis by (auto simp: files_open_def sample_android_def sample_mmap_def Let_def)
qed


lemma sample_open_fresh:
  assumes "sample_open p w = (fd, w')"
  shows "fd \<notin> fst ` set (sw_entries w) \<and> fst ` set (sw_entries w') = insert fd (fst ` set (sw_entries w)) \<and>
    sw_maps w' = sw_maps w"
proof -
  have "\<forall>e \<in> set xs. fst e \<le> foldr max (map fst (xs :: (int \<times> string) list)) 0" for xs by (induction xs) auto
  from this [of "sw_entries w"] show ?thesis using assms by (auto simp: sample_open_def Let_def)
qed

lemma sample_fd_spec: "fd_spec sample_android (\<lambda>w. fst ` set (sw_entries w)) (\<lambda>w. set (sw_maps w))"
proof -
  have "\<forall>a \<in> set xs. a \<le> foldr max (xs :: int list) 0" for xs by (induction xs) auto
  then have mmap: "a \<notin> set (sw_maps w) \<and> set (sw_maps w') = insert a (set (sw_maps w)) \<and> sw_entries w' = sw_entries w"
    if "sample_mmap n w = (Some a, w')" for n a w w'
    using that by (force simp: sample_mmap_def Let_def)
  show ?thesis
    unfolding fd_spec_def using sample_open_fresh mmap by (auto simp: sample_android_def)
qed

lemma sample_inputs_parsed: "\<exists>res data t. ParseParcelString sample_android sample_inputs [] sample_state = (Inr (res, data), t)"
  using ParseParcelString_succeeds [OF sample_android_ok(1) sample_files_open] by (metis surj_pair)

theorem request_descriptors_witness:
  "\<exists>res data t. ParseParcelString sample_android sample_inputs [] sample_state = (Inr (res, data), t) \<and>
     card (set (sw_maps (ps_world t)) - set (sw_maps (ps_world sample_state))) = 1"
proof -
  obtain res data t where p: "ParseParcelString sample_android sample_inputs [] sample_state = (Inr (res, data), t)"
    using sample_inputs_parsed by blast
  moreover have "ashmem_count sample_inputs = 1" by (simp add: sample_inputs_def)
  ultimately show ?thesis
    using request_descriptors [OF sample_android_ok(1) sample_fd_spec p] by auto
qed

text \<open>A service with one client, which makes one request.\<close>

definition one_client :: "wait_pc \<Rightarrow> int \<Rightarrow> nat \<Rightarrow> request list \<Rightarrow> client_pc \<Rightarrow> service_run" where
  "one_client w n signals queue c = \<lparr>sr_binder = \<lparr>db_client_cnt = n, db_signals = signals\<rparr>, sr_queue = queue,
     sr_wait = w, sr_clients = [c]\<rparr>"

lemma one_client_waiting:
  "(service_step sample_android other ^^ 2) (service_start [1]) (one_client Waiting 0 0 [START] (Requesting 1))"
proof -
  have "service_step sample_android other (service_start [1]) (one_client Waiting 0 0 [] (NotStarted 1))"
    using service_step.waits [of "service_start [1]"] by (simp add: service_start_def one_client_def)
  moreover have "service_step sample_android other (one_client Waiting 0 0 [] (NotStarted 1))
      (one_client Waiting 0 0 [START] (Requesting 1))"
    using service_step.starts [of 0 "one_client Waiting 0 0 [] (NotStarted 1)" 1] by (simp add: one_client_def)
  ultimately show ?thesis by (metis One_nat_def Suc_1 relpowp_1 relpowp_Suc_I)
qed

lemma one_client_ends:
  "(service_step sample_android other ^^ 3) (one_client Waiting 0 0 [START] (Requesting 1)) (one_client Waiting 1 0 [END] Finished)"
  "service_step sample_android other (one_client Waiting 1 0 [END] Finished) (one_client Released 0 1 [] Finished)"
proof -
  let ?T = "BnDittoBinder_onTransact sample_android other"
  have t: "?T (request_code sample_android SYNC) [ditto_token, IByte 1] (Some []) d = (Inr (0, Some [IByte (NOT 1)]), d)"
      "?T (request_code sample_android START) data None d = (Inr (0, None), DittoBinder_start d)" for d data
    by (simp_all add: onTransact_simps parcel_write_ok [OF sample_android_ok(1)] DittoBinder_sync_def read_byte_def
        del: request_code.simps)
  have e: "?T (request_code sample_android END) data None \<lparr>db_client_cnt = 1, db_signals = 0\<rparr> =
      (Inr (0, None), \<lparr>db_client_cnt = 0, db_signals = 1\<rparr>)" for data
    by (simp add: onTransact_simps DittoBinder_end_def narrow32_in in_i32_def del: request_code.simps)
  have 1: "service_step sample_android other (one_client Waiting 0 0 [START] (Requesting 1)) (one_client Waiting 0 0 [START] Ending)"
    using service_step.requests [OF _ _ t(1), of 0 "one_client Waiting 0 0 [START] (Requesting 1)" 0]
    by (simp add: one_client_def)
  have 2: "service_step sample_android other (one_client Waiting 0 0 [START] Ending) (one_client Waiting 1 0 [] Ending)"
    using service_step.delivers [OF _ t(2), of "one_client Waiting 0 0 [START] Ending" "[]"]
    by (simp add: one_client_def wake_def DittoBinder_start_def narrow32_in in_i32_def)
  have 3: "service_step sample_android other (one_client Waiting 1 0 [] Ending) (one_client Waiting 1 0 [END] Finished)"
    using service_step.ends [of 0 "one_client Waiting 1 0 [] Ending"] by (simp add: one_client_def)
  show "(service_step sample_android other ^^ 3) (one_client Waiting 0 0 [START] (Requesting 1)) (one_client Waiting 1 0 [END] Finished)"
    unfolding numeral_3_eq_3 using 1 2 3 by (metis relpowp_0_I relpowp_Suc_I)
  show "service_step sample_android other (one_client Waiting 1 0 [END] Finished) (one_client Released 0 1 [] Finished)"
    using service_step.delivers [of "one_client Waiting 1 0 [END] Finished" END "[]" sample_android other] e
    by (simp add: one_client_def wake_def del: request_code.simps)
qed

text \<open>A binder that knows no other request.\<close>

definition unknown_transaction :: "int \<Rightarrow> int \<times> parcel_item list option" where
  "unknown_transaction code = (-74, None)"


theorem service_is_released_witness:
  "\<exists>k m s t. (service_step sample_android unknown_transaction ^^ k) (service_start [1]) s \<and> (service_step sample_android unknown_transaction ^^ m) s t \<and>
     k + m \<le> 6 \<and> sr_wait t = Released"
proof -
  have m: "(service_step sample_android unknown_transaction ^^ Suc 3) (one_client Waiting 0 0 [START] (Requesting 1)) (one_client Released 0 1 [] Finished)"
    using one_client_ends by (rule relpowp_Suc_I)
  have "2 + Suc 3 \<le> sum_list [1] + 4 * length [1 :: nat] + 1"
    using service_is_released [OF one_client_waiting _ _ _ _ m] by (simp add: one_client_def)
  moreover have "sr_wait (one_client Released 0 1 [] Finished) = Released" by (simp add: one_client_def)
  ultimately show ?thesis using one_client_waiting m by (intro exI [of _ 2] exI [of _ "Suc 3"]) auto
qed

end
