(* ===== verification/Multiprocessing.thy ===== *)
theory Multiprocessing
  imports Engine Results_Properties
begin

text \<open>
  \<^verbatim>\<open>src/multiprocessing.cpp\<close> and \<^verbatim>\<open>include/ditto/multiprocessing.h\<close>: instructions run by forked processes.

  An object of this class lives in several processes at once, so the model is at their level.
  The first part is \<^verbatim>\<open>SetUpSingle\<close> up to the forks: which processes there are, and which ends of the
  pipes each of them holds. The second part is the protocol between the processes until the manager
  has the results: the mutex of the initialisation, the two barriers, the pipes, as a step relation
  with one rule for each thing a process does. The third part is what a process computes between these
  steps, in its own memory and by the methods of the engine, the last \<^verbatim>\<open>CollectResults\<close>. What the
  children share besides (files, the trace marker) is the operating system's.

  The protocol is that of one iteration; what the code does with \<^verbatim>\<open>repeat_\<close> above 1 is the subject of
  \<open>repeat_multiplies_processes\<close>.
\<close>

section \<open>Forking\<close>

text \<open>
  A process after \<^verbatim>\<open>SetUpSingle\<close>: \<^verbatim>\<open>is_manager_\<close> (\<open>None\<close> when it was never assigned),
  \<^verbatim>\<open>instruction_id_\<close>, and the pipes whose write end the process holds.
\<close>

record mp_process =
  mp_is_manager :: "bool option"
  mp_instruction_id :: nat
  mp_writes :: "nat set"

text \<open>The calls that make the shared memory and the pipes, by whether they succeed.\<close>

definition create_shared :: "bool list \<Rightarrow> bool list \<Rightarrow> unit res" where
  "create_shared mmaps pipes =
     (if False \<in> set mmaps then Inl (Logf ''mmap() failed'')
      else if False \<in> set pipes then Inl (Logf ''Pipe Failed'')
      else Inr ())"

text \<open>
  The loop over \<^verbatim>\<open>fork\<close>, from the process that enters it to all the processes that leave it, the
  children first. A failed \<^verbatim>\<open>fork\<close> returns -1, which the code takes for the manager's branch.
\<close>

fun fork_loop :: "(nat \<Rightarrow> bool) \<Rightarrow> nat list \<Rightarrow> mp_process \<Rightarrow> mp_process list" where
  "fork_loop forks [] p = [p]"
| "fork_loop forks (i # is) p =
     (if forks i then [p\<lparr>mp_is_manager := Some False, mp_instruction_id := i\<rparr>] else []) @
     fork_loop forks is (p\<lparr>mp_is_manager := Some True\<rparr>)"

definition uninitialised_read :: err where
  "uninitialised_read = Undefined Uninitialised"

definition close_pipes :: "nat \<Rightarrow> mp_process \<Rightarrow> mp_process res" where
  "close_pipes n p =
     (case mp_is_manager p of
        None \<Rightarrow> if n = 0 then Inr p else Inl uninitialised_read
      | Some m \<Rightarrow> Inr (p\<lparr>mp_writes := {q \<in> mp_writes p. \<not> (q < n \<and> (m \<or> q \<noteq> mp_instruction_id p))}\<rparr>))"

text \<open>\<^verbatim>\<open>if (!is_manager_)\<close>: whether a process goes on as a child.\<close>

definition acts_as_child :: "mp_process \<Rightarrow> bool res" where
  "acts_as_child p = (case mp_is_manager p of None \<Rightarrow> Inl uninitialised_read | Some m \<Rightarrow> Inr (\<not> m))"

definition Multiprocessing_fork ::
  "bool list \<Rightarrow> bool list \<Rightarrow> (nat \<Rightarrow> bool) \<Rightarrow> nat \<Rightarrow> mp_process \<Rightarrow> mp_process list res" where
  "Multiprocessing_fork mmaps pipes forks n p =
     bindR (create_shared mmaps pipes) (\<lambda>_.
     bindR (mapR (close_pipes n)
       (fork_loop forks [0..<n] (p\<lparr>mp_instruction_id := 0, mp_writes := {0..<n}\<rparr>))) (\<lambda>ps.
     bindR (mapR acts_as_child ps) (\<lambda>_. Inr ps)))"

definition Multiprocessing_ctor :: mp_process where
  "Multiprocessing_ctor = \<lparr>mp_is_manager = None, mp_instruction_id = 0, mp_writes = {}\<rparr>"

text \<open>\<^verbatim>\<open>Run\<close> with \<open>r\<close> repetitions: every process runs \<^verbatim>\<open>SetUpSingle\<close> again in each of them.\<close>

fun fork_rounds :: "nat \<Rightarrow> nat \<Rightarrow> mp_process \<Rightarrow> mp_process list res" where
  "fork_rounds n 0 p = Inr [p]"
| "fork_rounds n (Suc r) p =
     bindR (Multiprocessing_fork [True, True, True] (replicate n True) (\<lambda>_. True) n p) (\<lambda>ps.
     bindR (mapR (fork_rounds n r) ps) (\<lambda>pss. Inr (concat pss)))"

section \<open>The protocol\<close>

text \<open>Where a child is, in the order of the program; \<open>Dead\<close> is a child that ended in its initialisation.\<close>

datatype child_pc = Dead | Locking | Initializing | AtBarrier | Running | AtEnd | Writing | Exited

fun progress :: "child_pc \<Rightarrow> nat" where
  "progress Dead = 0"
| "progress Locking = 1"
| "progress Initializing = 2"
| "progress AtBarrier = 3"
| "progress Running = 4"
| "progress AtEnd = 5"
| "progress Writing = 6"
| "progress Exited = 7"

text \<open>
  The children with what each has still to send, the contents of the pipes, and the manager: the
  pipe it reads from, what it has read from it, and the messages it has complete.
\<close>

record mp_state =
  mp_children :: "(child_pc \<times> string) list"
  mp_pipes :: "string list"
  mp_reading :: nat
  mp_serialized :: string
  mp_messages :: "string list"

definition mp_start :: "nat \<Rightarrow> mp_state" where
  "mp_start n = \<lparr>mp_children = replicate n (Locking, []), mp_pipes = replicate n [], mp_reading = 0,
     mp_serialized = [], mp_messages = []\<rparr>"

definition pc_of :: "mp_state \<Rightarrow> nat \<Rightarrow> child_pc" where
  "pc_of s i = fst (mp_children s ! i)"

definition todo_of :: "mp_state \<Rightarrow> nat \<Rightarrow> string" where
  "todo_of s i = snd (mp_children s ! i)"

definition set_child :: "nat \<Rightarrow> child_pc \<Rightarrow> string \<Rightarrow> mp_state \<Rightarrow> mp_state" where
  "set_child i pc todo s = s\<lparr>mp_children := (mp_children s)[i := (pc, todo)]\<rparr>"

text \<open>
  The mutex is free when no child is initialising, or died while it did. A barrier lets a child pass
  when all the children have reached it.
\<close>

definition mutex_free :: "mp_state \<Rightarrow> bool" where
  "mutex_free s \<longleftrightarrow> (\<forall>c \<in> set (mp_children s). fst c \<noteq> Initializing \<and> fst c \<noteq> Dead)"

definition all_reached :: "child_pc \<Rightarrow> mp_state \<Rightarrow> bool" where
  "all_reached pc s \<longleftrightarrow> (\<forall>c \<in> set (mp_children s). progress pc \<le> progress (fst c))"

text \<open>
  One step of one process. \<open>payload i\<close> is the message of child \<open>i\<close>; \<^verbatim>\<open>write\<close> sends as many bytes as it
  likes of what fits in a pipe of \<open>capacity\<close> bytes, and blocks on a full one; \<^verbatim>\<open>read\<close> takes at most the
  100 bytes of the buffer, blocks on an empty pipe, and returns 0 when its writer is gone.
\<close>

inductive mp_step :: "nat \<Rightarrow> (nat \<Rightarrow> string) \<Rightarrow> mp_state \<Rightarrow> mp_state \<Rightarrow> bool"
  for capacity :: nat and payload :: "nat \<Rightarrow> string" where
  locks: "i < length (mp_children s) \<Longrightarrow> pc_of s i = Locking \<Longrightarrow> mutex_free s \<Longrightarrow>
    mp_step capacity payload s (set_child i Initializing [] s)"
| unlocks: "i < length (mp_children s) \<Longrightarrow> pc_of s i = Initializing \<Longrightarrow>
    mp_step capacity payload s (set_child i AtBarrier [] s)"
| runs: "i < length (mp_children s) \<Longrightarrow> pc_of s i = AtBarrier \<Longrightarrow> all_reached AtBarrier s \<Longrightarrow>
    mp_step capacity payload s (set_child i Running [] s)"
| finishes: "i < length (mp_children s) \<Longrightarrow> pc_of s i = Running \<Longrightarrow>
    mp_step capacity payload s (set_child i AtEnd [] s)"
| collects: "i < length (mp_children s) \<Longrightarrow> pc_of s i = AtEnd \<Longrightarrow> all_reached AtEnd s \<Longrightarrow>
    mp_step capacity payload s (set_child i Writing (payload i) s)"
| writes: "i < length (mp_children s) \<Longrightarrow> pc_of s i = Writing \<Longrightarrow> 0 < k \<Longrightarrow> k \<le> length (todo_of s i) \<Longrightarrow>
    length (mp_pipes s ! i) + k \<le> capacity \<Longrightarrow>
    mp_step capacity payload s
      ((set_child i Writing (drop k (todo_of s i)) s)
         \<lparr>mp_pipes := (mp_pipes s)[i := mp_pipes s ! i @ take k (todo_of s i)]\<rparr>)"
| exits: "i < length (mp_children s) \<Longrightarrow> pc_of s i = Writing \<Longrightarrow> todo_of s i = [] \<Longrightarrow>
    mp_step capacity payload s (set_child i Exited [] s)"
| reads: "mp_reading s < length (mp_children s) \<Longrightarrow> 0 < k \<Longrightarrow> k \<le> 100 \<Longrightarrow>
    k \<le> length (mp_pipes s ! mp_reading s) \<Longrightarrow>
    mp_step capacity payload s
      (s\<lparr>mp_serialized := mp_serialized s @ take k (mp_pipes s ! mp_reading s),
         mp_pipes := (mp_pipes s)[mp_reading s := drop k (mp_pipes s ! mp_reading s)]\<rparr>)"
| ends: "mp_reading s < length (mp_children s) \<Longrightarrow> mp_pipes s ! mp_reading s = [] \<Longrightarrow>
    pc_of s (mp_reading s) \<in> {Exited, Dead} \<Longrightarrow>
    mp_step capacity payload s
      (s\<lparr>mp_messages := mp_messages s @ [mp_serialized s], mp_serialized := [],
         mp_reading := Suc (mp_reading s)\<rparr>)"

text \<open>A child whose \<^verbatim>\<open>SetUp\<close> ends the process, with the mutex locked.\<close>

inductive mp_crash :: "mp_state \<Rightarrow> mp_state \<Rightarrow> bool" where
  crash: "i < length (mp_children s) \<Longrightarrow> pc_of s i = Initializing \<Longrightarrow> mp_crash s (set_child i Dead [] s)"

inductive_cases mp_stepE: "mp_step capacity payload s t"
inductive_cases mp_crashE: "mp_crash s t"

section \<open>What a process does in its own memory\<close>

text \<open>
  The initialisation of a child, under the mutex: its title, its scheduling, the \<^verbatim>\<open>SetUp\<close> of its
  instruction. \<open>new_address\<close> gives the addresses of the strings that \<^verbatim>\<open>setproctitle\<close> moves.
\<close>

definition initialize_child ::
  "('w, 'g) env \<Rightarrow> (nat \<Rightarrow> int) \<Rightarrow> thread_params \<Rightarrow> process_image \<times> 'g instr
     \<Rightarrow> ('w, process_image \<times> 'g instr) act" where
  "initialize_child E new_address p ob =
     bindC (liftR (setproctitle new_address (fst ob) (tp_name p))) (\<lambda>(title, img).
     bindC (if SchedAttr_IsSet (tp_sched_attr p) then SchedAttr_Set E (tp_sched_attr p) else returnC ()) (\<lambda>_.
     bindC (if SchedAffinity_IsSet (tp_sched_affinity p) then SchedAffinity_Set E (tp_sched_affinity p)
            else returnC ()) (\<lambda>_.
     bindC (vSetUp E (snd ob)) (\<lambda>c. returnC (img, c)))))"

text \<open>\<^verbatim>\<open>SetUpSingle\<close> behind the forks, and the other two methods; the waiting is the protocol's.\<close>

definition Multiprocessing_SetUpSingle ::
  "('w, 'g) env \<Rightarrow> (nat \<Rightarrow> int) \<Rightarrow> bool \<Rightarrow> thread_params \<Rightarrow> ibase \<Rightarrow> process_image \<times> 'g instr
     \<Rightarrow> ('w, ibase \<times> process_image \<times> 'g instr) act" where
  "Multiprocessing_SetUpSingle E new_address is_manager p b ob =
     bindC (if is_manager then returnC ob else initialize_child E new_address p ob) (\<lambda>ob'.
     bindC (Instruction_SetUpSingle E b) (\<lambda>b'. returnC (b', ob')))"

definition Multiprocessing_RunSingle :: "('w, 'g) env \<Rightarrow> bool \<Rightarrow> 'g instr \<Rightarrow> ('w, 'g instr) act" where
  "Multiprocessing_RunSingle E is_manager c = (if is_manager then returnC c else Run E c)"

definition Multiprocessing_TearDownSingle ::
  "('w, 'g) env \<Rightarrow> bool \<Rightarrow> bool \<Rightarrow> ibase \<Rightarrow> 'g instr \<Rightarrow> ('w, ibase \<times> 'g instr) act" where
  "Multiprocessing_TearDownSingle E is_manager is_last b c =
     bindC (Instruction_TearDownSingle E is_last b) (\<lambda>b'.
     bindC (if is_manager then returnC c else vTearDown c) (\<lambda>c'. returnC (b', c')))"

definition process_iteration ::
  "('w, 'g) env \<Rightarrow> (nat \<Rightarrow> int) \<Rightarrow> bool \<Rightarrow> thread_params \<Rightarrow> process_image \<Rightarrow> ibase \<times> 'g instr
     \<Rightarrow> ('w, ibase \<times> 'g instr) act" where
  "process_iteration E new_address is_manager p img ob =
     bindC (Multiprocessing_SetUpSingle E new_address is_manager p (fst ob) (img, snd ob)) (\<lambda>(b1, img', c1).
     bindC (Multiprocessing_RunSingle E is_manager c1) (\<lambda>c2.
     Multiprocessing_TearDownSingle E is_manager True b1 c2))"

section \<open>Collecting the results\<close>

text \<open>
  \<open>ser\<close> and \<open>parse\<close> are \<^verbatim>\<open>SerializeToString\<close> and \<^verbatim>\<open>ParseFromString\<close> of the protobuf library. Only the
  first sub-result, the one of the child's own instruction, is sent.
\<close>

definition child_message ::
  "(nat \<Rightarrow> f64 list \<Rightarrow> f64 list) \<Rightarrow> (pb_result \<Rightarrow> string option) \<Rightarrow> string \<Rightarrow> ibase \<Rightarrow> thread_params list
     \<Rightarrow> 'g instr list \<Rightarrow> nat \<Rightarrow> string res" where
  "child_message nth_el ser prefix b params cs i =
     bindR (Instruction_CollectResults nth_el prefix b) (\<lambda>r.
     if length params \<le> i \<or> length cs \<le> i then Inl (Undefined OutOfBounds)
     else bindR (CollectResults nth_el (tp_name (params ! i) @ ''/'') (cs ! i)) (\<lambda>sub.
          case pb_subs (ToPb (AddSubResult sub r)) of
            [] \<Rightarrow> Inl (Undefined OutOfBounds)
          | pb # _ \<Rightarrow> (case ser pb of None \<Rightarrow> Inl (Logf ''Failed decoding PB from pipe'') | Some m \<Rightarrow> Inr m)))"

definition read_result :: "(string \<Rightarrow> pb_result option) \<Rightarrow> result \<Rightarrow> string \<Rightarrow> result res" where
  "read_result parse r serialized =
     (case parse serialized of
        None \<Rightarrow> Inl (Logf ''Failed decoding PB from pipe'')
      | Some pb \<Rightarrow> Inr (AddSubResult (FromPb pb) r))"

definition manager_CollectResults ::
  "(nat \<Rightarrow> f64 list \<Rightarrow> f64 list) \<Rightarrow> (string \<Rightarrow> pb_result option) \<Rightarrow> string \<Rightarrow> ibase \<Rightarrow> string list
     \<Rightarrow> result res" where
  "manager_CollectResults nth_el parse prefix b messages =
     bindR (Instruction_CollectResults nth_el prefix b) (\<lambda>r. foldR (read_result parse) r messages)"

end
