(* ===== verification/Multiprocessing_Properties.thy ===== *)
theory Multiprocessing_Properties
  imports Multiprocessing Factory_Properties
begin

text \<open>
  What forked processes promise: who holds which pipe, how many processes there are, and that the
  protocol delivers every message, in the order of the children, without a deadlock.
\<close>

section \<open>The processes\<close>

lemma fork_loop_all:
  "fork_loop (\<lambda>_. True) is p =
     map (\<lambda>i. p\<lparr>mp_is_manager := Some False, mp_instruction_id := i\<rparr>) is @
     [if is = [] then p else p\<lparr>mp_is_manager := Some True\<rparr>]"
  by (induction "is" arbitrary: p) auto

definition child_process :: "nat \<Rightarrow> mp_process" where
  "child_process i = \<lparr>mp_is_manager = Some False, mp_instruction_id = i, mp_writes = {i}\<rparr>"

definition manager_process :: mp_process where
  "manager_process = \<lparr>mp_is_manager = Some True, mp_instruction_id = 0, mp_writes = {}\<rparr>"

lemma mapR_append: "mapR f (xs @ ys) = bindR (mapR f xs) (\<lambda>us. bindR (mapR f ys) (\<lambda>vs. Inr (us @ vs)))"
  by (induction xs) (auto simp: bindR_def split: sum.splits)

lemma mapR_map: "mapR f (map g xs) = mapR (\<lambda>x. f (g x)) xs"
  by (induction xs) simp_all

lemma Multiprocessing_fork_all:
  assumes "0 < n"
  shows "Multiprocessing_fork [True, True, True] (replicate n True) (\<lambda>_. True) n p =
    Inr (map child_process [0..<n] @ [manager_process])"
proof -
  let ?p = "p\<lparr>mp_instruction_id := 0, mp_writes := {0..<n}\<rparr>"
  have "close_pipes n (?p\<lparr>mp_is_manager := Some False, mp_instruction_id := i\<rparr>) = Inr (child_process i)"
    if "i \<in> set [0..<n]" for i
    using that by (auto simp: close_pipes_def child_process_def intro!: mp_process.equality)
  then have 1: "mapR (close_pipes n) (map (\<lambda>i. ?p\<lparr>mp_is_manager := Some False, mp_instruction_id := i\<rparr>) [0..<n])
      = Inr (map child_process [0..<n])"
    unfolding mapR_map by (rule mapR_Inr_map)
  have 2: "close_pipes n (?p\<lparr>mp_is_manager := Some True\<rparr>) = Inr manager_process"
    by (auto simp: close_pipes_def manager_process_def intro!: mp_process.equality)
  have "mapR acts_as_child (map child_process [0..<n] @ [manager_process]) = Inr (replicate n True @ [False])"
    by (simp add: mapR_append mapR_map acts_as_child_def child_process_def manager_process_def
        mapR_Inr_map [where g = "\<lambda>_. True"] map_replicate_const)
  then show ?thesis
    using assms 1 2 by (simp add: Multiprocessing_fork_def create_shared_def fork_loop_all mapR_append)
qed

lemma fork_rounds_all:
  assumes "0 < n"
  shows "\<exists>ps. fork_rounds n r p = Inr ps \<and> length ps = Suc n ^ r \<and>
    (0 < r \<longrightarrow> length (filter (\<lambda>q. mp_is_manager q = Some True) ps) = Suc n ^ (r - 1))"
proof (induction r arbitrary: p)
  case (Suc r)
  let ?ps = "map child_process [0..<n] @ [manager_process]"
  define f where "f q = (SOME ps. fork_rounds n r q = Inr ps)" for q
  have f: "fork_rounds n r q = Inr (f q)" "length (f q) = Suc n ^ r"
    "0 < r \<Longrightarrow> length (filter (\<lambda>q. mp_is_manager q = Some True) (f q)) = Suc n ^ (r - 1)" for q
    using Suc [of q] by (auto simp: f_def)
  then have r: "fork_rounds n (Suc r) p = Inr (concat (map f ?ps))"
    using Multiprocessing_fork_all [OF assms, of p] by (simp add: mapR_Inr_map [where g = f])
  have "length (concat (map f ?ps)) = Suc n ^ Suc r"
    by (simp add: length_concat comp_def f(2) sum_list_triv)
  moreover have "length (filter (\<lambda>q. mp_is_manager q = Some True) (concat (map f ?ps))) = Suc n ^ r"
  proof (cases "r = 0")
    case True
    then have "f q = [q]" for q using f(1) [of q] by simp
    then show ?thesis using True by (simp add: filter_concat comp_def child_process_def manager_process_def)
  next
    case False
    then have "Suc n * Suc n ^ (r - 1) = Suc n ^ r" by (simp flip: power_Suc)
    then show ?thesis
      using False by (simp add: filter_concat length_concat comp_def f(3) sum_list_triv)
  qed
  ultimately show ?case using r by auto
qed simp

text \<open>
  After the forks there is one process for each instruction and one manager, and the write end of
  a pipe is held by the child it belongs to and by nobody else: its closing is the end of the pipe.
\<close>

theorem one_writer_per_pipe:
  assumes "0 < n"
  shows "\<exists>ps. Multiprocessing_fork [True, True, True] (replicate n True) (\<lambda>_. True) n p = Inr ps \<and>
    length ps = Suc n \<and> mp_is_manager (ps ! n) = Some True \<and>
    (\<forall>i < n. mp_is_manager (ps ! i) = Some False \<and> mp_instruction_id (ps ! i) = i) \<and>
    (\<forall>i \<le> n. \<forall>q < n. q \<in> mp_writes (ps ! i) \<longleftrightarrow> q = i)"
  unfolding Multiprocessing_fork_all [OF assms]
  by (auto simp: nth_append child_process_def manager_process_def)

text \<open>
  A \<^verbatim>\<open>repeat\<close> above 1 does not repeat the instructions: the children fork again, too, so that \<open>r\<close>
  repetitions make \<open>(n + 1) ^ r\<close> processes, of which \<open>(n + 1) ^ (r - 1)\<close> go on as managers.
\<close>

theorem repeat_multiplies_processes:
  assumes "0 < n" and "0 < r"
  shows "\<exists>ps. fork_rounds n r p = Inr ps \<and> length ps = (n + 1) ^ r \<and>
    length (filter (\<lambda>q. mp_is_manager q = Some True) ps) = (n + 1) ^ (r - 1)"
  using fork_rounds_all [OF assms(1), of r p] assms(2) by auto

text \<open>Without instructions nothing assigns \<^verbatim>\<open>is_manager_\<close>, which the code then reads.\<close>

theorem no_instructions_reads_uninitialised:
  "Multiprocessing_fork [True, True, True] [] forks 0 Multiprocessing_ctor = Inl (Undefined Uninitialised)"
  by (simp add: Multiprocessing_fork_def create_shared_def Multiprocessing_ctor_def close_pipes_def acts_as_child_def
      uninitialised_read_def)

section \<open>Invariants of the protocol\<close>

definition faulty_step :: "nat \<Rightarrow> (nat \<Rightarrow> string) \<Rightarrow> mp_state \<Rightarrow> mp_state \<Rightarrow> bool" where
  "faulty_step capacity payload s t \<longleftrightarrow> mp_step capacity payload s t \<or> mp_crash s t"

text \<open>The invariants that hold whether or not a child dies.\<close>

definition shape :: "nat \<Rightarrow> mp_state \<Rightarrow> bool" where
  "shape n s \<longleftrightarrow> length (mp_children s) = n \<and> length (mp_pipes s) = n \<and> mp_reading s \<le> n"

definition one_holder :: "mp_state \<Rightarrow> bool" where
  "one_holder s \<longleftrightarrow> (\<forall>i < length (mp_children s). \<forall>j < length (mp_children s).
     pc_of s i \<in> {Initializing, Dead} \<longrightarrow> pc_of s j \<in> {Initializing, Dead} \<longrightarrow> i = j)"

definition barriers :: "mp_state \<Rightarrow> bool" where
  "barriers s \<longleftrightarrow> (\<forall>i < length (mp_children s). \<forall>j < length (mp_children s).
     (progress AtBarrier < progress (pc_of s i) \<longrightarrow> progress AtBarrier \<le> progress (pc_of s j)) \<and>
     (progress AtEnd < progress (pc_of s i) \<longrightarrow> progress AtEnd \<le> progress (pc_of s j)))"

definition read_in_order :: "mp_state \<Rightarrow> bool" where
  "read_in_order s \<longleftrightarrow> (\<forall>i < mp_reading s. i < length (mp_children s) \<longrightarrow> pc_of s i \<in> {Exited, Dead})"

lemma set_child_simps [simp]:
  "length (mp_children (set_child i pc todo s)) = length (mp_children s)"
  "mp_pipes (set_child i pc todo s) = mp_pipes s"
  "mp_reading (set_child i pc todo s) = mp_reading s"
  "mp_serialized (set_child i pc todo s) = mp_serialized s"
  "mp_messages (set_child i pc todo s) = mp_messages s"
  "i < length (mp_children s) \<Longrightarrow> pc_of (set_child i pc todo s) j = (if j = i then pc else pc_of s j)"
  "i < length (mp_children s) \<Longrightarrow> todo_of (set_child i pc todo s) j = (if j = i then todo else todo_of s j)"
  by (auto simp: set_child_def pc_of_def todo_of_def)

lemma pc_of_update [simp]:
  "pc_of (s\<lparr>mp_pipes := ps\<rparr>) j = pc_of s j" "todo_of (s\<lparr>mp_pipes := ps\<rparr>) j = todo_of s j"
  "pc_of (s\<lparr>mp_serialized := x\<rparr>) j = pc_of s j" "todo_of (s\<lparr>mp_serialized := x\<rparr>) j = todo_of s j"
  "pc_of (s\<lparr>mp_messages := ms\<rparr>) j = pc_of s j" "todo_of (s\<lparr>mp_messages := ms\<rparr>) j = todo_of s j"
  "pc_of (s\<lparr>mp_reading := r\<rparr>) j = pc_of s j" "todo_of (s\<lparr>mp_reading := r\<rparr>) j = todo_of s j"
  by (simp_all add: pc_of_def todo_of_def)

lemma mutex_free_iff:
  "mutex_free s \<longleftrightarrow> (\<forall>i < length (mp_children s). pc_of s i \<notin> {Initializing, Dead})"
  by (force simp: mutex_free_def pc_of_def all_set_conv_all_nth)

lemma all_reached_iff:
  "all_reached pc s \<longleftrightarrow> (\<forall>i < length (mp_children s). progress pc \<le> progress (pc_of s i))"
  by (simp add: all_reached_def pc_of_def all_set_conv_all_nth)

lemma start_simps [simp]:
  "length (mp_children (mp_start n)) = n" "mp_reading (mp_start n) = 0" "mp_pipes (mp_start n) = replicate n []"
  "mp_serialized (mp_start n) = []" "mp_messages (mp_start n) = []"
  "i < n \<Longrightarrow> pc_of (mp_start n) i = Locking" "i < n \<Longrightarrow> todo_of (mp_start n) i = []"
  by (simp_all add: mp_start_def pc_of_def todo_of_def)

lemma shape_step: "faulty_step capacity payload s t \<Longrightarrow> shape n s \<Longrightarrow> shape n t"
  by (auto simp: faulty_step_def shape_def elim!: mp_stepE mp_crashE)

text \<open>What a step can do to the places of the children.\<close>

definition allowed :: "mp_state \<Rightarrow> child_pc \<Rightarrow> child_pc \<Rightarrow> bool" where
  "allowed s pc pc' \<longleftrightarrow>
     (pc, pc') \<in> {(Initializing, AtBarrier), (Initializing, Dead), (Running, AtEnd), (Writing, Writing), (Writing, Exited)} \<or>
     (pc, pc') = (Locking, Initializing) \<and> mutex_free s \<or>
     (pc, pc') = (AtBarrier, Running) \<and> all_reached AtBarrier s \<or>
     (pc, pc') = (AtEnd, Writing) \<and> all_reached AtEnd s"

lemma faulty_step_pc:
  assumes "faulty_step capacity payload s t"
  obtains (same) "\<And>j. pc_of t j = pc_of s j" and "length (mp_children t) = length (mp_children s)"
  | (move) i pc where "i < length (mp_children s)" and "allowed s (pc_of s i) pc"
      and "\<And>j. pc_of t j = (if j = i then pc else pc_of s j)" and "length (mp_children t) = length (mp_children s)"
proof -
  consider "mp_step capacity payload s t" | "mp_crash s t" using assms by (auto simp: faulty_step_def)
  then show thesis
  proof cases
    case 1
    then show thesis
    proof (cases rule: mp_step.cases)
      case (locks i) then show thesis using move [of i Initializing] by (simp add: allowed_def)
    next
      case (unlocks i) then show thesis using move [of i AtBarrier] by (simp add: allowed_def)
    next
      case (runs i) then show thesis using move [of i Running] by (simp add: allowed_def)
    next
      case (finishes i) then show thesis using move [of i AtEnd] by (simp add: allowed_def)
    next
      case (collects i) then show thesis using move [of i Writing] by (simp add: allowed_def)
    next
      case (writes i k) then show thesis using move [of i Writing] by (simp add: allowed_def)
    next
      case (exits i) then show thesis using move [of i Exited] by (simp add: allowed_def)
    qed (use same in simp_all)
  next
    case 2
    then show thesis
    proof (cases rule: mp_crash.cases)
      case (crash i) then show thesis using move [of i Dead] by (simp add: allowed_def)
    qed
  qed
qed

lemma one_holder_step:
  assumes "faulty_step capacity payload s t" and "one_holder s"
  shows "one_holder t"
  using assms(1)
proof (cases rule: faulty_step_pc)
  case same
  then show ?thesis using assms(2) by (simp add: one_holder_def)
next
  case (move i pc)
  have "pc_of s i \<in> {Initializing, Dead} \<or> mutex_free s" if "pc \<in> {Initializing, Dead}"
    using that move(2) by (auto simp: allowed_def)
  then show ?thesis
    using assms(2) move(1) unfolding one_holder_def move(3,4) mutex_free_iff by (metis (full_types))
qed

lemma barriers_step:
  assumes "faulty_step capacity payload s t" and "barriers s"
  shows "barriers t"
  using assms(1)
proof (cases rule: faulty_step_pc)
  case same
  then show ?thesis using assms(2) by (simp add: barriers_def)
next
  case (move i pc)
  have up: "(3 \<le> progress (pc_of s i) \<longrightarrow> 3 \<le> progress pc) \<and> (5 \<le> progress (pc_of s i) \<longrightarrow> 5 \<le> progress pc)"
    using move(2) by (auto simp: allowed_def)
  have down: "(3 < progress pc \<longrightarrow> 3 < progress (pc_of s i) \<or> all_reached AtBarrier s) \<and>
      (5 < progress pc \<longrightarrow> 5 < progress (pc_of s i) \<or> all_reached AtEnd s)"
    using move(2) by (auto simp: allowed_def)
  show ?thesis
    unfolding barriers_def move(4)
  proof (intro allI impI)
    fix j k
    assume *: "j < length (mp_children s)" "k < length (mp_children s)"
    note b = assms(2) [unfolded barriers_def, rule_format]
    show "(progress AtBarrier < progress (pc_of t j) \<longrightarrow> progress AtBarrier \<le> progress (pc_of t k)) \<and>
      (progress AtEnd < progress (pc_of t j) \<longrightarrow> progress AtEnd \<le> progress (pc_of t k))"
      using b [OF *] b [OF move(1) *(2)] b [OF *(1) move(1)] up down *
      unfolding all_reached_iff move(3) by auto
  qed
qed

lemma faulty_step_reading:
  "faulty_step capacity payload s t \<Longrightarrow> mp_reading t = mp_reading s \<or>
     mp_reading t = Suc (mp_reading s) \<and> (\<forall>j. pc_of t j = pc_of s j) \<and> pc_of s (mp_reading s) \<in> {Exited, Dead}"
  unfolding faulty_step_def by (elim disjE mp_stepE mp_crashE) simp_all

lemma read_in_order_step:
  assumes "faulty_step capacity payload s t" and "read_in_order s"
  shows "read_in_order t"
proof -
  have "pc_of t i \<in> {Exited, Dead}" if "pc_of s i \<in> {Exited, Dead}" for i
    using assms(1) by (cases rule: faulty_step_pc) (use that in \<open>auto simp: allowed_def\<close>)
  moreover have "length (mp_children t) = length (mp_children s)"
    using assms(1) by (cases rule: faulty_step_pc)
  ultimately show ?thesis
    using assms(2) faulty_step_reading [OF assms(1)] unfolding read_in_order_def by (metis less_Suc_eq)
qed

lemma one_holderD:
  "one_holder s \<Longrightarrow> i < length (mp_children s) \<Longrightarrow> j < length (mp_children s) \<Longrightarrow>
     pc_of s i \<in> {Initializing, Dead} \<Longrightarrow> pc_of s j \<in> {Initializing, Dead} \<Longrightarrow> i = j"
  unfolding one_holder_def by blast

lemma barriersD:
  "barriers s \<Longrightarrow> i < length (mp_children s) \<Longrightarrow> j < length (mp_children s) \<Longrightarrow>
     progress AtBarrier < progress (pc_of s i) \<Longrightarrow> progress AtBarrier \<le> progress (pc_of s j)"
  unfolding barriers_def by blast

lemma reachable_invariants:
  assumes "(faulty_step capacity payload)\<^sup>*\<^sup>* (mp_start n) s"
  shows "shape n s \<and> one_holder s \<and> barriers s \<and> read_in_order s"
  using assms
proof (induction rule: rtranclp_induct)
  case base
  show ?case by (simp add: shape_def one_holder_def barriers_def read_in_order_def)
next
  case (step s t)
  then show ?case using shape_step one_holder_step barriers_step read_in_order_step by blast
qed

section \<open>Nothing is lost or duplicated\<close>

text \<open>What the manager has of child \<open>i\<close>, and what is true of the child, its pipe and the manager.\<close>

definition received :: "(nat \<Rightarrow> string) \<Rightarrow> mp_state \<Rightarrow> nat \<Rightarrow> string" where
  "received payload s i =
     (if i < mp_reading s then payload i else if i = mp_reading s then mp_serialized s else [])"

definition child_ok :: "(nat \<Rightarrow> string) \<Rightarrow> mp_state \<Rightarrow> nat \<Rightarrow> bool" where
  "child_ok payload s i \<longleftrightarrow> pc_of s i \<noteq> Dead \<and>
     (if progress (pc_of s i) < progress Writing
      then todo_of s i = [] \<and> mp_pipes s ! i = [] \<and> received payload s i = [] \<and> mp_reading s \<le> i
      else received payload s i @ mp_pipes s ! i @ todo_of s i = payload i) \<and>
     (pc_of s i = Exited \<longrightarrow> todo_of s i = []) \<and>
     (i < mp_reading s \<longrightarrow> pc_of s i = Exited \<and> mp_pipes s ! i = [])"

definition delivered :: "(nat \<Rightarrow> string) \<Rightarrow> mp_state \<Rightarrow> bool" where
  "delivered payload s \<longleftrightarrow> mp_messages s = map payload [0..<mp_reading s] \<and>
     (mp_reading s = length (mp_children s) \<longrightarrow> mp_serialized s = []) \<and>
     (\<forall>i < length (mp_children s). child_ok payload s i)"

lemma child_ok_frame:
  "pc_of t j = pc_of s j \<Longrightarrow> todo_of t j = todo_of s j \<Longrightarrow> mp_pipes t ! j = mp_pipes s ! j \<Longrightarrow>
     mp_reading t = mp_reading s \<Longrightarrow> mp_serialized t = mp_serialized s \<or> j \<noteq> mp_reading s \<Longrightarrow>
     child_ok payload t j \<longleftrightarrow> child_ok payload s j"
  by (auto simp: child_ok_def received_def)

lemma delivered_child:
  assumes "delivered payload s" and "i < length (mp_children s)"
    and "mp_messages t = mp_messages s" and "mp_reading t = mp_reading s"
    and "length (mp_children t) = length (mp_children s)"
    and "mp_serialized t = mp_serialized s \<or> i = mp_reading s"
    and "\<And>j. j \<noteq> i \<Longrightarrow> pc_of t j = pc_of s j \<and> todo_of t j = todo_of s j \<and> mp_pipes t ! j = mp_pipes s ! j"
    and "child_ok payload t i"
  shows "delivered payload t"
proof -
  have "child_ok payload t j" if "j < length (mp_children s)" for j
    using child_ok_frame [of t j s payload] assms that unfolding delivered_def by (cases "j = i") auto
  then show ?thesis using assms unfolding delivered_def by auto
qed

lemma take_drop_append: "take k xs @ drop k xs @ ys = xs @ ys"
  by (metis append_assoc append_take_drop_id)

lemma delivered_step:
  assumes "mp_step capacity payload s t" and "delivered payload s" and "shape (length (mp_children s)) s"
  shows "delivered payload t"
  using assms(1)
proof (cases rule: mp_step.cases)
  case (locks i)
  have "child_ok payload s i" using assms(2) locks by (simp add: delivered_def)
  then show ?thesis
    using locks by (intro delivered_child [OF assms(2)]) (auto simp: child_ok_def received_def)
next
  case (unlocks i)
  have "child_ok payload s i" using assms(2) unlocks by (simp add: delivered_def)
  then show ?thesis
    using unlocks by (intro delivered_child [OF assms(2)]) (auto simp: child_ok_def received_def)
next
  case (runs i)
  have "child_ok payload s i" using assms(2) runs by (simp add: delivered_def)
  then show ?thesis
    using runs by (intro delivered_child [OF assms(2)]) (auto simp: child_ok_def received_def)
next
  case (finishes i)
  have "child_ok payload s i" using assms(2) finishes by (simp add: delivered_def)
  then show ?thesis
    using finishes by (intro delivered_child [OF assms(2)]) (auto simp: child_ok_def received_def)
next
  case (collects i)
  have "child_ok payload s i" using assms(2) collects by (simp add: delivered_def)
  then show ?thesis
    using collects by (intro delivered_child [OF assms(2)]) (auto simp: child_ok_def received_def)
next
  case (writes i k)
  have "child_ok payload s i" using assms(2) writes by (simp add: delivered_def)
  then show ?thesis
    using writes assms(3)
    by (intro delivered_child [OF assms(2)]) (auto simp: child_ok_def received_def shape_def)
next
  case (exits i)
  have "child_ok payload s i" using assms(2) exits by (simp add: delivered_def)
  then show ?thesis
    using exits by (intro delivered_child [OF assms(2)]) (auto simp: child_ok_def received_def)
next
  case (reads k)
  have "child_ok payload s (mp_reading s)" using assms(2) reads by (simp add: delivered_def)
  then show ?thesis
    using reads assms(3)
    by (intro delivered_child [OF assms(2), of "mp_reading s"])
      (auto simp: child_ok_def received_def shape_def take_drop_append)
next
  case ends
  have *: "child_ok payload s i" if "i < length (mp_children s)" for i
    using assms(2) that by (simp add: delivered_def)
  have r: "mp_serialized s = payload (mp_reading s)" "pc_of s (mp_reading s) = Exited"
    using * [OF ends(2)] ends(3,4) by (auto simp: child_ok_def received_def)
  have "child_ok payload t i" if "i < length (mp_children s)" for i
    using * [OF that] r ends unfolding child_ok_def received_def
    by (auto simp: less_Suc_eq split: if_splits)
  then show ?thesis
    using assms(2) r ends by (auto simp: delivered_def)
qed

section \<open>Progress and termination\<close>

lemma early_child_moves:
  assumes "j < length (mp_children s)" and "progress (pc_of s j) < progress AtEnd"
    and "\<forall>i < length (mp_children s). pc_of s i \<noteq> Dead"
  shows "\<exists>t. mp_step capacity payload s t"
proof -
  consider i where "i < length (mp_children s)" "pc_of s i = Running \<or> pc_of s i = Initializing"
    | "\<forall>i < length (mp_children s). pc_of s i \<notin> {Running, Initializing}" "pc_of s j = Locking"
    | "\<forall>i < length (mp_children s). pc_of s i \<notin> {Running, Initializing}" "pc_of s j = AtBarrier"
        "\<forall>i < length (mp_children s). pc_of s i \<noteq> Locking"
    | i where "\<forall>i < length (mp_children s). pc_of s i \<notin> {Running, Initializing}" "i < length (mp_children s)"
        "pc_of s i = Locking"
    using assms by (cases "pc_of s j") auto
  then show ?thesis
  proof cases
    case (1 i)
    then show ?thesis using mp_step.unlocks mp_step.finishes by blast
  next
    case 2
    then have "mutex_free s" using assms(3) by (simp add: mutex_free_iff)
    then show ?thesis using 2 assms(1) mp_step.locks by blast
  next
    case 3
    have "progress AtBarrier \<le> progress (pc_of s i)" if "i < length (mp_children s)" for i
      using 3 assms(3) that by (cases "pc_of s i") auto
    then have "all_reached AtBarrier s" by (simp add: all_reached_iff)
    then show ?thesis using 3 assms(1) mp_step.runs by blast
  next
    case (4 i)
    then have "mutex_free s" using assms(3) by (simp add: mutex_free_iff)
    then show ?thesis using 4 mp_step.locks by blast
  qed
qed

lemma manager_moves:
  assumes "0 < capacity" and "delivered payload s" and "shape n s" and "mp_reading s < n"
  shows "\<exists>t. mp_step capacity payload s t"
proof -
  let ?r = "mp_reading s"
  have r: "?r < length (mp_children s)" using assms(3,4) by (simp add: shape_def)
  have alive: "\<forall>i < length (mp_children s). pc_of s i \<noteq> Dead"
    using assms(2) by (auto simp: delivered_def child_ok_def)
  consider "mp_pipes s ! ?r \<noteq> []" | "mp_pipes s ! ?r = []" "pc_of s ?r = Exited"
    | "mp_pipes s ! ?r = []" "pc_of s ?r = Writing" | "pc_of s ?r = AtEnd" | "progress (pc_of s ?r) < progress AtEnd"
    using alive r by (cases "pc_of s ?r") auto
  then show ?thesis
  proof cases
    case 1
    then show ?thesis using r mp_step.reads [of s 1] by (auto simp: Suc_le_eq)
  next
    case 2
    then show ?thesis using r mp_step.ends by auto
  next
    case 3
    show ?thesis
    proof (cases "todo_of s ?r = []")
      case True
      then show ?thesis using mp_step.exits [OF r 3(2)] by blast
    next
      case False
      then have "1 \<le> length (todo_of s ?r)" by (simp add: Suc_le_eq)
      then show ?thesis using mp_step.writes [OF r 3(2), of 1 capacity] 3(1) assms(1) by fastforce
    qed
  next
    case 4
    show ?thesis
    proof (cases "all_reached AtEnd s")
      case True
      then show ?thesis using 4 r mp_step.collects by blast
    next
      case False
      then obtain j where "j < length (mp_children s)" "progress (pc_of s j) < progress AtEnd"
        unfolding all_reached_iff by (auto simp: not_le)
      then show ?thesis using early_child_moves alive by blast
    qed
  next
    case 5
    then show ?thesis using early_child_moves r alive by blast
  qed
qed

text \<open>What is left to do: the places of the child, and two steps for each of its bytes.\<close>

definition child_left :: "(nat \<Rightarrow> string) \<Rightarrow> mp_state \<Rightarrow> nat \<Rightarrow> nat" where
  "child_left payload s i =
     (7 - progress (pc_of s i)) +
     2 * (if progress (pc_of s i) < progress Writing then length (payload i) else length (todo_of s i)) +
     length (mp_pipes s ! i)"

definition left :: "(nat \<Rightarrow> string) \<Rightarrow> mp_state \<Rightarrow> nat" where
  "left payload s = (\<Sum>i < length (mp_children s). child_left payload s i) + (length (mp_children s) - mp_reading s)"

lemma left_child:
  assumes "i < length (mp_children s)" and "length (mp_children t) = length (mp_children s)"
    and "mp_reading t = mp_reading s"
    and "\<And>j. j \<noteq> i \<Longrightarrow> pc_of t j = pc_of s j \<and> todo_of t j = todo_of s j \<and> mp_pipes t ! j = mp_pipes s ! j"
    and "child_left payload t i < child_left payload s i"
  shows "left payload t < left payload s"
proof -
  have "(\<Sum>i < length (mp_children s). child_left payload t i) < (\<Sum>i < length (mp_children s). child_left payload s i)"
  proof (rule sum_strict_mono_ex1)
    show "\<forall>j \<in> {..<length (mp_children s)}. child_left payload t j \<le> child_left payload s j"
    proof
      fix j
      show "child_left payload t j \<le> child_left payload s j"
        using assms(4) [of j] assms(5) by (cases "j = i") (simp_all add: child_left_def)
    qed
    show "\<exists>j \<in> {..<length (mp_children s)}. child_left payload t j < child_left payload s j"
      using assms(1,5) by auto
  qed simp
  then show ?thesis using assms(2,3) by (simp add: left_def)
qed

lemma left_step:
  assumes "mp_step capacity payload s t" and "shape (length (mp_children s)) s"
  shows "left payload t < left payload s"
  using assms(1)
proof (cases rule: mp_step.cases)
  case (locks i) then show ?thesis by (intro left_child [of i]) (auto simp: child_left_def)
next
  case (unlocks i) then show ?thesis by (intro left_child [of i]) (auto simp: child_left_def)
next
  case (runs i) then show ?thesis by (intro left_child [of i]) (auto simp: child_left_def)
next
  case (finishes i) then show ?thesis by (intro left_child [of i]) (auto simp: child_left_def)
next
  case (collects i) then show ?thesis by (intro left_child [of i]) (auto simp: child_left_def)
next
  case (writes i k) then show ?thesis
    using assms(2) by (intro left_child [of i]) (auto simp: child_left_def shape_def)
next
  case (exits i) then show ?thesis by (intro left_child [of i]) (auto simp: child_left_def)
next
  case (reads k) then show ?thesis
    using assms(2) by (intro left_child [of "mp_reading s"]) (auto simp: child_left_def shape_def)
next
  case ends
  then have "child_left payload t i = child_left payload s i" for i by (simp add: child_left_def)
  then show ?thesis using ends by (simp add: left_def diff_less_mono2)
qed

lemma reachable_steps:
  assumes "(mp_step capacity payload ^^ k) (mp_start n) s"
  shows "shape n s \<and> delivered payload s \<and> k + left payload s \<le> left payload (mp_start n)"
  using assms
proof (induction k arbitrary: s)
  case 0
  then show ?case by (auto simp: shape_def delivered_def child_ok_def received_def)
next
  case (Suc k)
  then obtain u where u: "(mp_step capacity payload ^^ k) (mp_start n) u" "mp_step capacity payload u s" by auto
  note ih = Suc.IH [OF u(1)]
  have "shape n s" using shape_step [of capacity payload u s n] u(2) ih by (simp add: faulty_step_def)
  moreover have "delivered payload s" using delivered_step [OF u(2)] ih by (simp add: shape_def)
  moreover have "left payload s < left payload u" using left_step [OF u(2)] ih by (simp add: shape_def)
  ultimately show ?case using ih by simp
qed

lemma left_start: "left payload (mp_start n) = 7 * n + 2 * (\<Sum>i < n. length (payload i))"
  by (simp add: left_def child_left_def sum.distrib sum_distrib_left)

lemma stuck_messages:
  assumes "0 < capacity" and "(mp_step capacity payload ^^ k) (mp_start n) s"
    and "\<not> (\<exists>t. mp_step capacity payload s t)"
  shows "mp_messages s = map payload [0..<n]"
proof -
  note r = reachable_steps [OF assms(2)]
  have "\<not> mp_reading s < n" using assms(3) manager_moves [OF assms(1), of payload s n] r by blast
  then show ?thesis using r by (simp add: delivered_def shape_def)
qed

section \<open>The messages\<close>

lemma child_message_Inr:
  assumes "child_message nth_el ser path b params cs i = Inr m"
  shows "\<exists>sub. CollectResults nth_el (tp_name (params ! i) @ ''/'') (cs ! i) = Inr sub \<and> ser (ToPb sub) = Some m"
proof -
  obtain r sub where *: "Instruction_CollectResults nth_el path b = Inr r"
      "CollectResults nth_el (tp_name (params ! i) @ ''/'') (cs ! i) = Inr sub"
      "(case pb_subs (ToPb (AddSubResult sub r)) of [] \<Rightarrow> Inl (Undefined OutOfBounds)
        | pb # _ \<Rightarrow> (case ser pb of None \<Rightarrow> Inl (Logf ''Failed decoding PB from pipe'') | Some m \<Rightarrow> Inr m)) = Inr m"
    using assms by (auto simp: child_message_def bindR_Inr_iff split: if_splits)
  have "re_subs r = []"
    using *(1) by (auto simp: Instruction_CollectResults_def bindR_Inr_iff AddMeasurement_def Result_ctor_def)
  then show ?thesis using * by (auto simp: AddSubResult_def split: option.splits)
qed

lemma read_results:
  assumes "\<forall>i \<in> set is. parse (payload i) = Some (ToPb (f i))"
  shows "foldR (read_result parse) r (map payload is) =
    Inr (foldl (\<lambda>r sub. AddSubResult (FromPb (ToPb sub)) r) r (map f is))"
  using assms by (induction "is" arbitrary: r) (simp_all add: read_result_def)

section \<open>Properties of the protocol\<close>

text \<open>
  C12: the processes always come to an end, after at most 7 steps for each child and 2 for each byte,
  and when no process can take a step the manager has the message of every child, in their order:
  no pipe that is full, and no order of the processes, leads to a deadlock, and no byte is lost.
\<close>

theorem messages_arrive:
  assumes "0 < capacity" and "(mp_step capacity payload ^^ k) (mp_start n) s"
  shows "k \<le> 7 * n + 2 * (\<Sum>i < n. length (payload i)) \<and>
    ((\<exists>t. mp_step capacity payload s t) \<or> mp_messages s = map payload [0..<n])"
  using reachable_steps [OF assms(2)] stuck_messages [OF assms] by (auto simp: left_start)

text \<open>
  C15: whether or not children die, only one process initialises its instruction at a time, and no
  child runs its instruction before every child has initialised its own.
\<close>

theorem initialisation_is_exclusive:
  assumes "(faulty_step capacity payload)\<^sup>*\<^sup>* (mp_start n) s" and "i < n" and "j < n"
  shows "(pc_of s i = Initializing \<longrightarrow> pc_of s j = Initializing \<longrightarrow> i = j) \<and>
    (pc_of s i = Running \<longrightarrow> pc_of s j \<notin> {Dead, Locking, Initializing})"
proof -
  note inv = reachable_invariants [OF assms(1)]
  then have "i < length (mp_children s)" "j < length (mp_children s)" using assms(2,3) by (auto simp: shape_def)
  then show ?thesis using one_holderD [of s i j] barriersD [of s i j] inv by (cases "pc_of s j") auto
qed

text \<open>
  A child that ends in its \<^verbatim>\<open>SetUp\<close> keeps the mutex, and the barrier counts on it: every other child
  waits for ever, and the manager waits for the first of them.
\<close>

theorem dead_child_blocks_the_others:
  assumes "(faulty_step capacity payload)\<^sup>*\<^sup>* (mp_start n) s" and "pc_of s j = Dead" and "j < n"
    and "i < n" and "i \<noteq> j"
  shows "pc_of s i \<in> {Locking, AtBarrier} \<and> mp_reading s \<le> i \<and> \<not> mutex_free s"
proof -
  note inv = reachable_invariants [OF assms(1)]
  then have l: "i < length (mp_children s)" "j < length (mp_children s)" using assms(3,4) by (auto simp: shape_def)
  have "pc_of s i \<notin> {Initializing, Dead}" using one_holderD [of s i j] inv l assms(2,5) by blast
  moreover have "\<not> progress AtBarrier < progress (pc_of s i)" using barriersD [of s i j] inv l assms(2) by auto
  ultimately have pc: "pc_of s i \<in> {Locking, AtBarrier}" by (cases "pc_of s i") auto
  have "\<not> i < mp_reading s"
  proof
    assume "i < mp_reading s"
    then have "pc_of s i \<in> {Exited, Dead}" using inv l(1) unfolding read_in_order_def by blast
    then show False using pc by auto
  qed
  then show ?thesis using pc l assms(2) by (auto simp: mutex_free_iff)
qed

lemma initialize_child_Inr:
  "initialize_child E new_address p ob s = (Inr (img, c), t) \<Longrightarrow> \<exists>s'. vSetUp E (snd ob) s' = (Inr c, t)"
  by (auto simp: initialize_child_def bindC_Inr_iff)


text \<open>
  C13: the results of the children come back to the manager in the order of the children, each as its own
  process collected it but for the samples, if the library reads back what it wrote.
\<close>

theorem manager_collects_the_children:
  assumes codec: "\<forall>pb m. ser pb = Some m \<longrightarrow> parse m = Some pb"
    and children: "\<forall>i < n. child_message nth_el ser path (bs i) params (css i) i = Inr (payload i)"
    and manager: "Instruction_CollectResults nth_el path b' = Inr r"
    and run: "0 < capacity" "(mp_step capacity payload ^^ k) (mp_start n) s" "\<not> (\<exists>t. mp_step capacity payload s t)"
  shows "\<exists>subs. length subs = n \<and>
    (\<forall>i < n. CollectResults nth_el (tp_name (params ! i) @ ''/'') (css i ! i) = Inr (subs ! i)) \<and>
    manager_CollectResults nth_el parse path b' (mp_messages s) =
      Inr (foldl (\<lambda>r sub. AddSubResult (FromPb (ToPb sub)) r) r subs)"
proof -
  have "\<forall>i \<in> {..<n}. \<exists>sub. CollectResults nth_el (tp_name (params ! i) @ ''/'') (css i ! i) = Inr sub \<and> ser (ToPb sub) = Some (payload i)"
    using children child_message_Inr by blast
  then obtain f where f: "\<forall>i \<in> {..<n}. CollectResults nth_el (tp_name (params ! i) @ ''/'') (css i ! i) = Inr (f i) \<and>
      ser (ToPb (f i)) = Some (payload i)"
    using bchoice by (metis (no_types, lifting))
  have "manager_CollectResults nth_el parse path b' (mp_messages s) =
      Inr (foldl (\<lambda>r sub. AddSubResult (FromPb (ToPb sub)) r) r (map f [0..<n]))"
    unfolding stuck_messages [OF run] manager_CollectResults_def manager bindR_simps
    by (rule read_results) (use codec f in auto)
  then show ?thesis using f by (intro exI [of _ "map f [0..<n]"]) auto
qed

section \<open>Examples\<close>

theorem one_writer_per_pipe_witness:
  "\<exists>ps. Multiprocessing_fork [True, True, True] (replicate 2 True) (\<lambda>_. True) 2 Multiprocessing_ctor = Inr ps \<and>
     length ps = 3 \<and> mp_writes (ps ! 2) \<inter> {0, 1} = {}"
proof -
  obtain ps where ps: "Multiprocessing_fork [True, True, True] (replicate 2 True) (\<lambda>_. True) 2 Multiprocessing_ctor = Inr ps"
      "length ps = Suc 2" "\<forall>i \<le> 2. \<forall>q < 2. q \<in> mp_writes (ps ! i) \<longleftrightarrow> q = i"
    using one_writer_per_pipe [of 2 Multiprocessing_ctor] by auto
  from ps(3) [rule_format, of 2] have "mp_writes (ps ! 2) \<inter> {0, 1} = {}" by auto
  with ps show ?thesis by simp
qed

theorem repeat_multiplies_processes_witness:
  "\<exists>ps. fork_rounds 2 3 Multiprocessing_ctor = Inr ps \<and> length ps = 27 \<and>
     length (filter (\<lambda>q. mp_is_manager q = Some True) ps) = 9"
  using repeat_multiplies_processes [of 2 3 Multiprocessing_ctor] by simp

text \<open>One child that sends one byte through a pipe of one byte.\<close>

definition one_child :: "child_pc \<Rightarrow> string \<Rightarrow> string \<Rightarrow> nat \<Rightarrow> string \<Rightarrow> string list \<Rightarrow> mp_state" where
  "one_child pc todo pipe r serialized messages =
     \<lparr>mp_children = [(pc, todo)], mp_pipes = [pipe], mp_reading = r, mp_serialized = serialized,
      mp_messages = messages\<rparr>"

lemma one_child_sim:
  "length (mp_children (one_child pc todo pipe r m ms)) = Suc 0" "pc_of (one_child pc todo pipe r m ms) 0 = pc"
  "todo_of (one_child pc todo pipe r m ms) 0 = todo" "mp_pipes (one_child pc todo pipe r m ms) = [pipe]"
  "mp_reading (one_child pc todo pipe r m ms) = r" "mp_serialized (one_child pc todo pipe r m ms) = m"
  "mp_messages (one_child pc todo pipe r m ms) = ms"
  "set_child 0 pc' todo' (one_child pc todo pipe r m ms) = one_child pc' todo' pipe r m ms"
  "mp_start (Suc 0) = one_child Locking [] [] 0 [] []"
  "mutex_free (one_child pc todo pipe r m ms) \<longleftrightarrow> pc \<noteq> Initializing \<and> pc \<noteq> Dead"
  "all_reached pc' (one_child pc todo pipe r m ms) \<longleftrightarrow> progress pc' \<le> progress pc"
  by (auto simp: one_child_def pc_of_def todo_of_def set_child_def mp_start_def mutex_free_def all_reached_def)

lemma first_step:
  "mp_step c f s t \<Longrightarrow> (mp_step c f ^^ n) t u \<Longrightarrow> (mp_step c f ^^ Suc n) s u"
  by (rule relpowp_Suc_I2)

lemma sample_run:
  "(mp_step 1 (\<lambda>_. ''x'') ^^ 9) (mp_start 1) (one_child Exited [] [] 1 [] [''x''])"
proof -
  let ?R = "mp_step 1 (\<lambda>_. ''x'')"
  have 1: "?R (mp_start 1) (one_child Initializing [] [] 0 [] [])"
    using mp_step.locks [of 0 "mp_start 1"] by (simp add: one_child_sim)
  have 2: "?R (one_child Initializing [] [] 0 [] []) (one_child AtBarrier [] [] 0 [] [])"
    using mp_step.unlocks [of 0 "one_child Initializing [] [] 0 [] []"] by (simp add: one_child_sim)
  have 3: "?R (one_child AtBarrier [] [] 0 [] []) (one_child Running [] [] 0 [] [])"
    using mp_step.runs [of 0 "one_child AtBarrier [] [] 0 [] []"] by (simp add: one_child_sim)
  have 4: "?R (one_child Running [] [] 0 [] []) (one_child AtEnd [] [] 0 [] [])"
    using mp_step.finishes [of 0 "one_child Running [] [] 0 [] []"] by (simp add: one_child_sim)
  have 5: "?R (one_child AtEnd [] [] 0 [] []) (one_child Writing ''x'' [] 0 [] [])"
    using mp_step.collects [of 0 "one_child AtEnd [] [] 0 [] []" 1 "\<lambda>_. ''x''"] by (simp add: one_child_sim)
  have 6: "?R (one_child Writing ''x'' [] 0 [] []) (one_child Writing [] ''x'' 0 [] [])"
    using mp_step.writes [of 0 "one_child Writing ''x'' [] 0 [] []" 1 1] by (simp add: one_child_sim) (simp add: one_child_def)
  have 7: "?R (one_child Writing [] ''x'' 0 [] []) (one_child Writing [] [] 0 ''x'' [])"
    using mp_step.reads [of "one_child Writing [] ''x'' 0 [] []" 1 1] by (simp add: one_child_sim) (simp add: one_child_def)
  have 8: "?R (one_child Writing [] [] 0 ''x'' []) (one_child Exited [] [] 0 ''x'' [])"
    using mp_step.exits [of 0 "one_child Writing [] [] 0 ''x'' []"] by (simp add: one_child_sim)
  have 9: "?R (one_child Exited [] [] 0 ''x'' []) (one_child Exited [] [] 1 [] [''x''])"
    using mp_step.ends [of "one_child Exited [] [] 0 ''x'' []"] by (simp add: one_child_sim) (simp add: one_child_def)
  have "(?R ^^ Suc (Suc (Suc (Suc (Suc (Suc (Suc (Suc (Suc 0))))))))) (mp_start 1) (one_child Exited [] [] 1 [] [''x''])"
    by (rule first_step [OF 1], rule first_step [OF 2], rule first_step [OF 3], rule first_step [OF 4],
        rule first_step [OF 5], rule first_step [OF 6], rule first_step [OF 7], rule first_step [OF 8],
        rule first_step [OF 9], rule relpowp_0_I)
  then show ?thesis by (simp add: eval_nat_numeral)
qed

theorem messages_arrive_witness:
  "\<exists>s. (mp_step 1 (\<lambda>_. ''x'') ^^ 9) (mp_start 1) s \<and> 9 \<le> 7 * 1 + 2 * (\<Sum>i < (1::nat). length ''x'') \<and> mp_messages s = [''x'']"
proof -
  have "9 \<le> 7 * 1 + 2 * (\<Sum>i < (1::nat). length ''x'')" using messages_arrive [OF zero_less_one sample_run] by blast
  then show ?thesis using sample_run one_child_sim(7) by blast
qed

definition sample_two :: mp_state where
  "sample_two = set_child 0 Initializing [] (mp_start 2)"

lemma sample_two_reachable: "(faulty_step 1 payload)\<^sup>*\<^sup>* (mp_start 2) sample_two"
proof -
  have "mutex_free (mp_start 2)" by (simp add: mutex_free_def mp_start_def)
  then have "faulty_step 1 payload (mp_start 2) sample_two"
    using mp_step.locks [of 0 "mp_start 2"] by (simp add: faulty_step_def sample_two_def)
  then show ?thesis by blast
qed

theorem initialisation_is_exclusive_witness:
  "pc_of sample_two 0 = Initializing \<and> pc_of sample_two 1 \<noteq> Initializing"
  using initialisation_is_exclusive [OF sample_two_reachable, of 0 1] by (simp add: sample_two_def)

theorem dead_child_blocks_the_others_witness:
  "\<exists>s. (faulty_step 1 (\<lambda>_. [])) \<^sup>*\<^sup>* (mp_start 2) s \<and> pc_of s 0 = Dead \<and> pc_of s 1 \<in> {Locking, AtBarrier} \<and> \<not> mutex_free s"
proof -
  let ?s = "set_child 0 Dead [] sample_two"
  have "mp_crash sample_two ?s" using mp_crash.crash [of 0 sample_two] by (simp add: sample_two_def)
  then have r: "(faulty_step 1 (\<lambda>_. []))\<^sup>*\<^sup>* (mp_start 2) ?s"
    using sample_two_reachable by (meson faulty_step_def rtranclp.rtrancl_into_rtrancl)
  have d: "pc_of ?s 0 = Dead" by (simp add: sample_two_def)
  from dead_child_blocks_the_others [OF r d, of 1] r d show ?thesis by auto
qed

text \<open>A child that took one sample.\<close>

definition sample_params :: "thread_params list" where
  "sample_params = [\<lparr>tp_name = ''0_0'', tp_sched_attr = \<lparr>sc_initialized = False, sc_raw = jk_sched_attr sample_junk\<rparr>,
     tp_sched_affinity = \<lparr>sf_initialized = False, sf_mask = 0\<rparr>\<rparr>]"

definition sample_child :: "nat instr" where
  "sample_child = sample_leaf 1 [Timespec 0 1000]"

lemma sample_child_collects: "\<exists>r. CollectResults nth_element_sorting path sample_child = Inr r"
proof -
  have "good sample_child"
    by (simp add: sample_child_def sample_leaf_def Instruction_ctor_def leaf_ok_def is_mem_def leaf_even_def)
  moreover have "ready sample_child"
    using small_readable [of "Timespec 0 1000"]
    by (simp add: sample_child_def sample_leaf_def readable_def small_ts_def)
  ultimately show ?thesis using collect by blast
qed

lemma sample_child_base:
  "CollectResults nth_element_sorting path sample_child =
     Instruction_CollectResults nth_element_sorting path (in_base sample_child)"
  by (simp add: sample_child_def sample_leaf_def leaf_CollectResults_def bindR_def split: sum.splits)

theorem manager_collects_the_children_witness:
  "\<exists>r sub. CollectResults nth_element_sorting ''0_0/'' sample_child = Inr sub \<and>
     manager_CollectResults nth_element_sorting (\<lambda>m. if m = ''x'' then Some (ToPb sub) else None) [] (in_base sample_child) [''x'']
       = Inr (AddSubResult (FromPb (ToPb sub)) r)"
proof -
  obtain r sub where r: "CollectResults nth_element_sorting [] sample_child = Inr r"
      and sub: "CollectResults nth_element_sorting ''0_0/'' sample_child = Inr sub"
    using sample_child_collects by metis
  let ?ser = "\<lambda>pb. if pb = ToPb sub then Some ''x'' else None"
  let ?parse = "\<lambda>m. if m = ''x'' then Some (ToPb sub) else None"
  have base: "Instruction_CollectResults nth_element_sorting [] (in_base sample_child) = Inr r"
    using r by (simp add: sample_child_base)
  have "re_subs r = []"
    using base by (auto simp: Instruction_CollectResults_def bindR_Inr_iff AddMeasurement_def Result_ctor_def)
  then have c: "\<forall>i < 1. child_message nth_element_sorting ?ser [] (in_base sample_child) sample_params [sample_child] i = Inr ''x''"
    using base sub by (simp add: child_message_def sample_params_def AddSubResult_def)
  have codec: "\<forall>pb m. ?ser pb = Some m \<longrightarrow> ?parse m = Some pb" by simp
  have stuck: "\<not> (\<exists>t. mp_step 1 (\<lambda>_. ''x'') (one_child Exited [] [] 1 [] [''x'']) t)"
    by (auto elim!: mp_stepE simp: one_child_sim less_Suc_eq)
  obtain subs where "length subs = 1"
      "\<forall>i < 1. CollectResults nth_element_sorting (tp_name (sample_params ! i) @ ''/'') ([sample_child] ! i) = Inr (subs ! i)"
      "manager_CollectResults nth_element_sorting ?parse [] (in_base sample_child) (mp_messages (one_child Exited [] [] 1 [] [''x''])) =
        Inr (foldl (\<lambda>r sub. AddSubResult (FromPb (ToPb sub)) r) r subs)"
    using manager_collects_the_children [OF codec c base zero_less_one sample_run stuck] by blast
  moreover from this have "subs = [sub]" using sub by (cases subs) (simp_all add: sample_params_def)
  ultimately show ?thesis using sub by (auto simp: one_child_sim)
qed

definition sample_image :: process_image where
  "sample_image = \<lparr>pi_argv = [(100, ''dittobench''), (111, ''a.ditto'')], pi_environ = Some [(119, ''HOME=/'')],
     pi_environ_terminated = True\<rparr>"


end
