(* ===== verification/Dittotrace.thy ===== *)
theory Dittotrace
  imports Benchmark_Parser
begin

text \<open>
  \<^verbatim>\<open>dittotrace.cpp\<close>: from the output of \<^verbatim>\<open>strace\<close> to a benchmark that repeats the accesses to the files
  below a directory. The strings are searched and cut with the positions of \<^verbatim>\<open>std::string\<close>, which are
  64 bit words with \<^verbatim>\<open>npos\<close> the last of them; the arithmetic on positions wraps.

  Uncaught exceptions of the standard library and accesses that the language leaves undefined are
  errors of the model.
\<close>

section \<open>Positions in strings\<close>

definition npos :: u64 where
  "npos = - 1"

definition find_pos :: "string \<Rightarrow> string \<Rightarrow> u64" where
  "find_pos pat s = (case str_find pat s of None \<Rightarrow> npos | Some i \<Rightarrow> word_of_nat i)"

definition contains :: "string \<Rightarrow> string \<Rightarrow> bool" where
  "contains pat s \<longleftrightarrow> str_find pat s \<noteq> None"

text \<open>\<^verbatim>\<open>s.substr(pos, n)\<close> throws when the position is behind the end.\<close>

definition substr :: "string \<Rightarrow> u64 \<Rightarrow> u64 \<Rightarrow> string res" where
  "substr s pos n =
     (if length s < unat pos then Inl Out_of_range else Inr (take (unat n) (drop (unat pos) s)))"

section \<open>Reading the trace\<close>

record syscall =
  sc_name :: string
  sc_arguments :: "string list"
  sc_return_value :: string

text \<open>\<^verbatim>\<open>ReadLines\<close>: \<^verbatim>\<open>getline\<close> on the contents of a file, which is empty when it cannot be opened.\<close>

fun get_lines :: "string \<Rightarrow> string \<Rightarrow> string list" where
  "get_lines line [] = (if line = [] then [] else [line])"
| "get_lines line (c # s) =
     (if c = CHR 0x0A then line # get_lines [] s else get_lines (line @ [c]) s)"

definition ReadLines :: "(string \<rightharpoonup> string) \<Rightarrow> string \<Rightarrow> string list" where
  "ReadLines files file_path = (case files file_path of None \<Rightarrow> [] | Some s \<Rightarrow> get_lines [] s)"

text \<open>The loop over the arguments, on the part behind \<^verbatim>\<open>last\<close>.\<close>

function split_arguments :: "string \<Rightarrow> string list" where
  "split_arguments s =
     (case str_find '', '' s of
        None \<Rightarrow> if s = [] then [] else [s]
      | Some i \<Rightarrow> (if i = 0 then [] else [take i s]) @ split_arguments (drop (i + 2) s))"
  by pat_completeness auto
termination
proof (relation "measure length")
  fix s i
  assume "str_find '', '' s = Some i"
  from str_find_bound [OF this] show "(drop (i + 2) s, s) \<in> measure length" by simp
qed simp

declare split_arguments.simps [simp del]

definition ProcessLine :: "string \<Rightarrow> syscall res" where
  "ProcessLine line =
     bindR (substr line 0 (find_pos ''('' line)) (\<lambda>name.
     bindR (substr line (find_pos ''('' line + 1) (find_pos '')'' line - find_pos ''('' line - 1)) (\<lambda>raw_arguments.
     bindR (substr line (find_pos '')'' line) npos) (\<lambda>rest.
     bindR (substr rest (find_pos ''= '' rest + 2) npos) (\<lambda>return_value.
     Inr \<lparr>sc_name = name, sc_arguments = split_arguments raw_arguments, sc_return_value = return_value\<rparr>))))"

definition pid_of :: "string \<Rightarrow> int res" where
  "pid_of line = bindR (substr line 0 (find_pos '' '' line)) (\<lambda>s. Inr (narrow32 (strtoll s)))"

definition SplitByPid :: "string list \<Rightarrow> (int, string list) smap res" where
  "SplitByPid lines =
     foldR (\<lambda>m line. bindR (pid_of line) (\<lambda>pid.
              Inr (map_put pid ((case map_find pid m of None \<Rightarrow> [] | Some ls \<Rightarrow> ls) @ [line]) m))) [] lines"

text \<open>A line with the tag \<^verbatim>\<open>unfinished\<close> and the one that follows it.\<close>

definition unite :: "string \<Rightarrow> string \<Rightarrow> string res" where
  "unite line second_line =
     bindR (substr line 0 (find_pos ''<unfinished ...>'' line)) (\<lambda>first.
     bindR (substr second_line (find_pos ''resumed>'' second_line + word_of_nat (length ''resumed>'')) npos) (\<lambda>second.
     Inr (first @ second)))"

definition process_without_pid :: "string \<Rightarrow> syscall list res" where
  "process_without_pid line =
     bindR (substr line (find_pos ''  '' line + 2) npos) (\<lambda>call.
     if length call \<ge> 3 \<and> (take 3 call = ''---'' \<or> take 3 call = ''+++'') then Inr []
     else bindR (ProcessLine call) (\<lambda>sc. Inr [sc]))"

fun process_pid :: "string list \<Rightarrow> syscall list res" where
  "process_pid [] = Inr []"
| "process_pid (line # lines) =
     (if contains ''resumed>'' line \<or> contains ''<detached ...>'' line then process_pid lines
      else if contains ''<unfinished ...>'' line then
        (case lines of
           [] \<Rightarrow> Inr []
         | second_line # lines' \<Rightarrow>
             bindR (bindR (unite line second_line) process_without_pid) (\<lambda>scs.
             bindR (process_pid lines') (\<lambda>rest. Inr (scs @ rest))))
      else
        bindR (process_without_pid line) (\<lambda>scs. bindR (process_pid lines) (\<lambda>rest. Inr (scs @ rest))))"

text \<open>A process without calls gets no entry.\<close>

definition ProcessLines :: "(int, string list) smap \<Rightarrow> (int \<times> syscall list) list res" where
  "ProcessLines lines_by_pid =
     bindR (mapR (\<lambda>(pid, lines). bindR (process_pid lines) (\<lambda>scs. Inr (pid, scs))) lines_by_pid) (\<lambda>m.
     Inr (filter (\<lambda>(pid, scs). scs \<noteq> []) m))"

section \<open>Making the benchmark\<close>

definition simple_instruction :: "pb_simple \<Rightarrow> pb_instruction" where
  "simple_instruction opt = PbInstruction 1 0 0 (PbSimple opt)"

definition open_message :: "string \<Rightarrow> pb_instruction" where
  "open_message path_name = simple_instruction (PbOpenFile
     \<lparr>po_file = PbPathName path_name, po_output_fd = Some ''fd'', po_create = True, po_direct_io = False,
      po_access_mode = READ_WRITE\<rparr>)"

definition access_message :: "int \<Rightarrow> int \<Rightarrow> pb_rw_file" where
  "access_message sz offset =
     \<lparr>pw_input_fd = ''fd'', pw_size = sz, pw_block_size = sz, pw_starting_offset = offset,
      pw_access_order = SEQUENTIAL, pw_seed = None, pw_reseeding = ONCE\<rparr>"

text \<open>
  The sets of the descriptors that are open, and the instructions of the main set. \<open>argument\<close> is
  \<^verbatim>\<open>syscall.arguments[i]\<close>, which is undefined out of range.
\<close>

type_synonym open_sets = "(int, pb_instruction list) smap"

definition argument :: "syscall \<Rightarrow> nat \<Rightarrow> string res" where
  "argument sc i = (if i < length (sc_arguments sc) then Inr (sc_arguments sc ! i) else Inl (Undefined OutOfBounds))"

definition fd_of :: "string \<Rightarrow> int" where
  "fd_of s = narrow32 (strtoll s)"

definition map_erase :: "'k \<Rightarrow> ('k, 'v) smap \<Rightarrow> ('k, 'v) smap" where
  "map_erase k m = filter (\<lambda>kv. fst kv \<noteq> k) m"

definition trace_open :: "string \<Rightarrow> syscall \<Rightarrow> string \<Rightarrow> open_sets \<Rightarrow> open_sets res" where
  "trace_open absolute_path sc arg sets =
     bindR (substr arg (word_of_nat (length absolute_path) + 2) npos) (\<lambda>path_name.
     if path_name = [] then Inl (Undefined EmptyContainer)
     else if contains ''-1'' (sc_return_value sc) then Inr sets
     else Inr (map_put (fd_of (sc_return_value sc)) [open_message (butlast path_name)] sets))"

definition trace_access :: "(pb_rw_file \<Rightarrow> pb_simple) \<Rightarrow> syscall \<Rightarrow> open_sets \<Rightarrow> open_sets res" where
  "trace_access message sc sets =
     bindR (argument sc 0) (\<lambda>a.
     if length (sc_arguments sc) \<noteq> 4 then Inr sets
     else case map_find (fd_of a) sets of
            None \<Rightarrow> Inr sets
          | Some set_of_fd \<Rightarrow>
              Inr (map_put (fd_of a) (set_of_fd @ [simple_instruction (message
                     (access_message (strtoll (sc_arguments sc ! 2)) (strtoll (sc_arguments sc ! 3))))]) sets))"

definition trace_close :: "syscall \<Rightarrow> open_sets \<times> pb_instruction list \<Rightarrow> (open_sets \<times> pb_instruction list) res" where
  "trace_close sc st =
     bindR (argument sc 0) (\<lambda>a.
     case map_find (fd_of a) (fst st) of
       None \<Rightarrow> Inr st
     | Some set_of_fd \<Rightarrow>
         Inr (map_erase (fd_of a) (fst st),
              snd st @ [PbInstruction 1 0 0 (PbInstructionSet
                (set_of_fd @ [simple_instruction (PbCloseFile ''fd'')]) None)]))"

text \<open>The second argument of \<^verbatim>\<open>openat\<close> is only looked at when the first comparison holds.\<close>

definition trace_step ::
  "string \<Rightarrow> open_sets \<times> pb_instruction list \<Rightarrow> syscall \<Rightarrow> (open_sets \<times> pb_instruction list) res" where
  "trace_step absolute_path st sc =
     (if sc_name sc = ''openat'' then
        bindR (argument sc 1) (\<lambda>arg.
        if contains absolute_path arg
        then bindR (trace_open absolute_path sc arg (fst st)) (\<lambda>sets. Inr (sets, snd st))
        else Inr st)
      else if sc_name sc = ''pread64'' then
        bindR (trace_access (\<lambda>opt. PbReadFile opt FADV_AUTOMATIC) sc (fst st)) (\<lambda>sets. Inr (sets, snd st))
      else if sc_name sc = ''pwrite64'' then
        bindR (trace_access (\<lambda>opt. PbWriteFile opt False) sc (fst st)) (\<lambda>sets. Inr (sets, snd st))
      else if sc_name sc = ''close'' then trace_close sc st
      else Inr st)"

definition trace_pid ::
  "string \<Rightarrow> pb_instruction list \<Rightarrow> int \<times> syscall list \<Rightarrow> pb_instruction list res" where
  "trace_pid absolute_path main pid_syscalls =
     bindR (foldR (trace_step absolute_path) ([], main) (snd pid_syscalls)) (\<lambda>st. Inr (snd st))"

definition trace_main :: "string \<Rightarrow> (int \<times> syscall list) list \<Rightarrow> pb_benchmark res" where
  "trace_main absolute_path processed =
     bindR (foldR (trace_pid absolute_path) [] processed) (\<lambda>main.
     Inr \<lparr>pb_init = None, pb_main = PbInstruction 1 0 0 (PbInstructionSet main None), pb_clean_up = None,
          pb_global = \<lparr>pg_absolute_path = absolute_path, pg_mutex = None\<rparr>\<rparr>)"

text \<open>The program; \<open>argv\<close> is without the name of the program. Its result is the message it prints.\<close>

definition dittotrace :: "(string \<rightharpoonup> string) \<Rightarrow> string list \<Rightarrow> pb_benchmark res" where
  "dittotrace files argv =
     (case argv of
        [file_path, absolute_path] \<Rightarrow>
          bindR (SplitByPid (ReadLines files file_path)) (\<lambda>lines_by_pid.
          bindR (ProcessLines lines_by_pid) (trace_main absolute_path))
      | _ \<Rightarrow> Inl (Exit_with 1 (''Invalid number of arguments.'' @ [CHR 0x0A])))"

end
