(* ===== verification/Dittotrace_Properties.thy ===== *)
theory Dittotrace_Properties
  imports Dittotrace
begin

text \<open>
  \<^verbatim>\<open>dittotrace.cpp\<close> reads back the calls that \<^verbatim>\<open>strace\<close> prints; the benchmarks it makes have one form; the
  factory makes of them trees that use one descriptor from open to close; and where the program
  leaves its strings.
\<close>

section \<open>Reading a call back\<close>

lemma find_pos_Some: "str_find pat s = Some i \<Longrightarrow> length s < 2 ^ 63 \<Longrightarrow> find_pos pat s = word_of_nat i \<and> i < 2 ^ 63"
  using str_find_bound [of pat s i] by (simp add: find_pos_def)

lemma unat_small: "i < 2 ^ 63 \<Longrightarrow> unat (word_of_nat i :: u64) = i"
  by (simp add: unat_of_nat take_bit_nat_eq_self)

lemma unat_npos: "unat npos = 2 ^ 64 - 1"
  unfolding npos_def by (simp add: unsigned_minus_1_eq_mask mask_eq_exp_minus_1)

lemma substr_from:
  assumes "i \<le> length s" and "length s < 2 ^ 63"
  shows "substr s (word_of_nat i) npos = Inr (drop i s)"
  using assms by (simp add: substr_def unat_small unat_npos)

lemma substr_range:
  assumes "i \<le> length s" and "n < 2 ^ 63" and "length s < 2 ^ 63"
  shows "substr s (word_of_nat i) (word_of_nat n) = Inr (take n (drop i s))"
  using assms by (simp add: substr_def unat_small)

lemma str_find_pair:
  assumes "c \<noteq> d" and "str_find [c, d] a = None"
  shows "str_find [c, d] (a @ c # d # s) = Some (length a)"
  using assms(2)
proof (induction a)
  case (Cons x a)
  then show ?case using assms(1) by (cases a) (auto split: if_splits)
qed simp

fun join_arguments :: "string list \<Rightarrow> string" where
  "join_arguments [] = []"
| "join_arguments [a] = a"
| "join_arguments (a # b # as) = a @ '', '' @ join_arguments (b # as)"

lemma split_join:
  "\<forall>a \<in> set as. a \<noteq> [] \<and> str_find '', '' a = None \<Longrightarrow> split_arguments (join_arguments as) = as"
proof (induction as rule: join_arguments.induct)
  case (3 a b as)
  have "str_find '', '' (a @ '', '' @ join_arguments (b # as)) = Some (length a)"
    using str_find_pair [of "CHR '',''" "CHR '' ''" a] 3 by simp
  then show ?case using 3 by (simp add: split_arguments.simps [of "a @ s" for s])
qed (simp_all add: split_arguments.simps)

lemma join_arguments_set: "set (join_arguments as) \<subseteq> (\<Union>a \<in> set as. set a) \<union> {CHR '','', CHR '' ''}"
  by (induction as rule: join_arguments.induct) auto

text \<open>A completed call as \<^verbatim>\<open>strace\<close> prints it.\<close>

definition show_call :: "syscall \<Rightarrow> nat \<Rightarrow> string" where
  "show_call sc k =
     sc_name sc @ ''('' @ join_arguments (sc_arguments sc) @ '')'' @ replicate k (CHR '' '') @ ''= '' @ sc_return_value sc"

lemma str_find_char: "c \<notin> set a \<Longrightarrow> str_find [c] (a @ c # s) = Some (length a)"
  using str_find_marked [of c a "[]" s] by simp

lemma ProcessLine_show_call:
  assumes "CHR ''('' \<notin> set (sc_name sc)" and "CHR '')'' \<notin> set (sc_name sc)"
    and "\<forall>a \<in> set (sc_arguments sc). a \<noteq> [] \<and> str_find '', '' a = None \<and> CHR '')'' \<notin> set a"
    and "length (show_call sc k) < 2 ^ 63"
  shows "ProcessLine (show_call sc k) = Inr sc"
proof -
  define n j r where "n = sc_name sc" and "j = join_arguments (sc_arguments sc)"
    and "r = '')'' @ replicate k (CHR '' '') @ ''= '' @ sc_return_value sc"
  define line where "line = show_call sc k"
  have line: "line = n @ ''('' @ j @ r" by (simp add: line_def show_call_def n_def j_def r_def)
  have len: "length line < 2 ^ 63" using assms(4) by (simp add: line_def)
  have "str_find ''('' line = Some (length n)"
    using str_find_char [of "CHR ''(''" n "j @ r"] assms(1) by (simp add: line n_def)
  from find_pos_Some [OF this len] have f1: "find_pos ''('' line = word_of_nat (length n)" by blast
  have "CHR '')'' \<notin> set (n @ ''('' @ j)"
    using assms(2,3) join_arguments_set [of "sc_arguments sc"] by (auto simp: n_def j_def)
  then have "str_find '')'' line = Some (length n + 1 + length j)"
    using str_find_char [of "CHR '')''" "n @ ''('' @ j" "tl r"] by (simp add: line r_def)
  from find_pos_Some [OF this len] have f2: "find_pos '')'' line = word_of_nat (length n + 1 + length j)" by blast
  have rl: "length r < 2 ^ 63" using len by (simp add: line)
  have "str_find ''= '' r = Some (Suc k)"
    using str_find_marked [of "CHR ''=''" "'')'' @ replicate k (CHR '' '')" "'' ''" "sc_return_value sc"] by (simp add: r_def)
  from find_pos_Some [OF this rl] have f3: "find_pos ''= '' r + 2 = word_of_nat (Suc k + 2)" by simp
  have 1: "substr line 0 (find_pos ''('' line) = Inr n"
    unfolding f1 using substr_range [of 0 line "length n"] len by (simp add: line)
  have p: "find_pos ''('' line + 1 = word_of_nat (length n + 1)"
      "find_pos '')'' line - find_pos ''('' line - 1 = word_of_nat (length j)"
    unfolding f1 f2 by simp_all
  have 2: "substr line (find_pos ''('' line + 1) (find_pos '')'' line - find_pos ''('' line - 1) = Inr j"
    unfolding p using substr_range [of "length n + 1" line "length j"] len by (simp add: line)
  have 3: "substr line (find_pos '')'' line) npos = Inr r"
    unfolding f2 using substr_from [of "length n + 1 + length j" line] len by (simp add: line)
  have 4: "substr r (find_pos ''= '' r + 2) npos = Inr (sc_return_value sc)"
    unfolding f3 using substr_from [of "Suc k + 2" r] rl by (simp add: r_def)
  have "split_arguments j = sc_arguments sc" unfolding j_def using assms(3) by (intro split_join) auto
  then show ?thesis using 1 2 3 4 by (simp add: ProcessLine_def n_def flip: line_def)
qed


section \<open>The benchmarks it makes\<close>

text \<open>Accesses by the one descriptor, and a set that opens a file, accesses it and closes it.\<close>

definition is_access :: "pb_instruction \<Rightarrow> bool" where
  "is_access i \<longleftrightarrow> (\<exists>sz offset.
     i = simple_instruction (PbReadFile (access_message sz offset) FADV_AUTOMATIC) \<or>
     i = simple_instruction (PbWriteFile (access_message sz offset) False))"

definition is_replay :: "pb_instruction \<Rightarrow> bool" where
  "is_replay i \<longleftrightarrow> (\<exists>path_name accesses.
     i = PbInstruction 1 0 0 (PbInstructionSet
           (open_message path_name # accesses @ [simple_instruction (PbCloseFile ''fd'')]) None) \<and>
     list_all is_access accesses)"

definition open_set_ok :: "pb_instruction list \<Rightarrow> bool" where
  "open_set_ok is \<longleftrightarrow> (\<exists>path_name accesses. is = open_message path_name # accesses \<and> list_all is_access accesses)"

definition sets_ok :: "open_sets \<times> pb_instruction list \<Rightarrow> bool" where
  "sets_ok st \<longleftrightarrow> (\<forall>kv \<in> set (fst st). open_set_ok (snd kv)) \<and> list_all is_replay (snd st)"

lemma set_put_snd: "kv \<in> set (map_put k v m) \<Longrightarrow> kv = (k, v) \<or> kv \<in> set m"
  by (induction k v m rule: map_put.induct) (auto split: if_splits)

lemma map_find_in: "map_find k m = Some v \<Longrightarrow> (k, v) \<in> set m"
  by (simp add: map_find_def map_of_SomeD)

lemma open_set_ok_append: "open_set_ok is \<Longrightarrow> is_access i \<Longrightarrow> open_set_ok (is @ [i])"
  by (auto simp: open_set_ok_def)

lemma trace_access_ok:
  assumes "trace_access message sc sets = Inr sets'" and "\<forall>kv \<in> set sets. open_set_ok (snd kv)"
    and "\<And>sz offset. is_access (simple_instruction (message (access_message sz offset)))"
  shows "\<forall>kv \<in> set sets'. open_set_ok (snd kv)"
proof -
  consider "sets' = sets" | k xs sz offset where "map_find k sets = Some xs"
      "sets' = map_put k (xs @ [simple_instruction (message (access_message sz offset))]) sets"
    using assms(1) by (auto simp: trace_access_def bindR_Inr_iff split: if_splits option.splits)
  then show ?thesis
  proof cases
    case 1
    then show ?thesis using assms(2) by simp
  next
    case (2 k xs sz offset)
    have "open_set_ok (xs @ [simple_instruction (message (access_message sz offset))])"
      using assms(2,3) map_find_in [OF 2(1)] open_set_ok_append by fastforce
    then show ?thesis using 2(2) assms(2) set_put_snd by fastforce
  qed
qed

lemma trace_open_ok:
  assumes "trace_open absolute_path sc arg sets = Inr sets'" and "\<forall>kv \<in> set sets. open_set_ok (snd kv)"
  shows "\<forall>kv \<in> set sets'. open_set_ok (snd kv)"
proof -
  consider "sets' = sets" | k path_name where "sets' = map_put k [open_message path_name] sets"
    using assms(1) by (auto simp: trace_open_def bindR_Inr_iff split: if_splits)
  then show ?thesis
  proof cases
    case 1
    then show ?thesis using assms(2) by simp
  next
    case (2 k path_name)
    have "open_set_ok [open_message path_name]" by (auto simp: open_set_ok_def)
    then show ?thesis using 2 assms(2) set_put_snd by fastforce
  qed
qed

lemma trace_close_ok:
  assumes "trace_close sc st = Inr st'" and "sets_ok st"
  shows "sets_ok st'"
proof -
  consider "st' = st" | k xs where "map_find k (fst st) = Some xs" "st' = (map_erase k (fst st),
      snd st @ [PbInstruction 1 0 0 (PbInstructionSet (xs @ [simple_instruction (PbCloseFile ''fd'')]) None)])"
    using assms(1) by (auto simp: trace_close_def bindR_Inr_iff split: option.splits)
  then show ?thesis
  proof cases
    case 1
    then show ?thesis using assms(2) by simp
  next
    case (2 k xs)
    have "open_set_ok xs" using assms(2) map_find_in [OF 2(1)] by (auto simp: sets_ok_def)
    then have "is_replay (PbInstruction 1 0 0 (PbInstructionSet (xs @ [simple_instruction (PbCloseFile ''fd'')]) None))"
      by (auto simp: open_set_ok_def is_replay_def)
    then show ?thesis using 2 assms(2) by (auto simp: sets_ok_def map_erase_def)
  qed
qed

lemma trace_step_ok:
  assumes "trace_step absolute_path st sc = Inr st'" and "sets_ok st"
  shows "sets_ok st'"
proof -
  have access: "is_access (simple_instruction (PbReadFile (access_message sz offset) FADV_AUTOMATIC))"
    "is_access (simple_instruction (PbWriteFile (access_message sz offset) False))" for sz offset
    by (auto simp: is_access_def)
  have old: "\<forall>kv \<in> set (fst st). open_set_ok (snd kv)" "list_all is_replay (snd st)"
    using assms(2) by (auto simp: sets_ok_def)
  have sets: "sets_ok (sets, snd st)" if "\<forall>kv \<in> set sets. open_set_ok (snd kv)" for sets
    using that old(2) by (simp add: sets_ok_def)
  consider "sc_name sc = ''openat''" | "sc_name sc = ''pread64''" | "sc_name sc = ''pwrite64''" | "sc_name sc = ''close''"
    | "st' = st"
    using assms(1) unfolding trace_step_def by (metis sum.inject(2))
  then show ?thesis
  proof cases
    case 1
    then show ?thesis
      using assms sets trace_open_ok [OF _ old(1)]
      by (auto simp: trace_step_def bindR_Inr_iff split: if_splits)
  next
    case 2
    then show ?thesis
      using assms(1) sets trace_access_ok [where message = "\<lambda>opt. PbReadFile opt FADV_AUTOMATIC", OF _ old(1) access(1)] by (auto simp: trace_step_def bindR_Inr_iff)
  next
    case 3
    then show ?thesis
      using assms(1) sets trace_access_ok [where message = "\<lambda>opt. PbWriteFile opt False", OF _ old(1) access(2)] by (auto simp: trace_step_def bindR_Inr_iff)
  next
    case 4
    then show ?thesis using assms(1) trace_close_ok [OF _ assms(2)] by (simp add: trace_step_def)
  qed (use assms(2) in simp)
qed

lemma foldR_invariant:
  "foldR f b xs = Inr b' \<Longrightarrow> I b \<Longrightarrow> (\<And>b x b'. x \<in> set xs \<Longrightarrow> f b x = Inr b' \<Longrightarrow> I b \<Longrightarrow> I b') \<Longrightarrow> I b'"
proof (induction xs arbitrary: b)
  case (Cons x xs)
  obtain b1 where b1: "f b x = Inr b1" "foldR f b1 xs = Inr b'" using Cons.prems(1) by (auto simp: bindR_Inr_iff)
  have "I b1" by (rule Cons.prems(3) [OF _ b1(1) Cons.prems(2)]) simp
  then show ?case by (rule Cons.IH [OF b1(2)]) (rule Cons.prems(3), simp_all)
qed simp

lemma trace_pid_ok:
  assumes "trace_pid absolute_path main ps = Inr main'" and "list_all is_replay main"
  shows "list_all is_replay main'"
proof -
  obtain st where st: "foldR (trace_step absolute_path) ([], main) (snd ps) = Inr st" "main' = snd st"
    using assms(1) by (auto simp: trace_pid_def bindR_Inr_iff)
  have "sets_ok st"
    by (rule foldR_invariant [OF st(1)]) (use assms(2) trace_step_ok in \<open>auto simp: sets_ok_def\<close>)
  then show ?thesis using st(2) by (simp add: sets_ok_def)
qed

text \<open>
  C31: whatever the trace, a benchmark that is made of it is one set of sets, each of which opens one
  file, reads and writes it, and closes it, by the name \<open>fd\<close>.
\<close>

theorem trace_makes_replays:
  assumes "dittotrace files argv = Inr b"
  shows "\<exists>sets. pb_main b = PbInstruction 1 0 0 (PbInstructionSet sets None) \<and> list_all is_replay sets \<and>
    pb_init b = None \<and> pb_clean_up b = None"
proof -
  obtain path processed where "trace_main path processed = Inr b"
    using assms by (auto simp: dittotrace_def bindR_Inr_iff split: list.splits)
  then obtain sets where s: "foldR (trace_pid path) [] processed = Inr sets"
      "b = \<lparr>pb_init = None, pb_main = PbInstruction 1 0 0 (PbInstructionSet sets None), pb_clean_up = None,
          pb_global = \<lparr>pg_absolute_path = path, pg_mutex = None\<rparr>\<rparr>"
    by (auto simp: trace_main_def bindR_Inr_iff)
  have "list_all is_replay sets"
    by (rule foldR_invariant [OF s(1), where I = "list_all is_replay"]) (simp_all add: trace_pid_ok)
  then show ?thesis using s(2) by simp
qed

text \<open>
  Opening the directory of the trace itself, as a program does to list it, makes the program cut a
  character off an empty string.
\<close>

theorem opening_the_directory_is_undefined:
  assumes "sc_name sc = ''openat''" and "sc_arguments sc = dir # (CHR 0x22 # path @ [CHR 0x22]) # flags"
    and "length path < 2 ^ 62"
  shows "trace_step path st sc = Inl (Undefined EmptyContainer)"
proof -
  have "str_find path (path @ [CHR 0x22]) = Some 0" by (cases path) auto
  then have c: "contains path (CHR 0x22 # path @ [CHR 0x22])" by (auto simp: contains_def)
  have "substr (CHR 0x22 # path @ [CHR 0x22]) (word_of_nat (length path) + 2) npos = Inr []"
    using substr_from [of "length path + 2" "CHR 0x22 # path @ [CHR 0x22]"] assms(3) by (simp add: add.commute)
  then show ?thesis
    using assms(1,2) c by (simp add: trace_step_def argument_def trace_open_def)
qed

section \<open>One descriptor from open to close\<close>

definition knows_fd :: "int list \<Rightarrow> int \<Rightarrow> 'w pstate \<Rightarrow> bool" where
  "knows_fd ids k s \<longleftrightarrow> GetKey ids ''fd'' (ps_vars s) = (Inr k, ps_vars s)"

definition accesses_fd :: "int \<Rightarrow> 'g instr \<Rightarrow> bool" where
  "accesses_fd k c \<longleftrightarrow> (\<exists>b f. ((\<exists>fadvise. c = Leaf b (ReadFile fadvise f)) \<or> (\<exists>fsync. c = Leaf b (WriteFile fsync f))) \<and>
     rw_input_fd_key f = k)"

lemma knows_fd_vars: "ps_vars t = ps_vars s \<Longrightarrow> knows_fd ids k s \<Longrightarrow> knows_fd ids k t"
  by (simp add: knows_fd_def)

lemma resolve_fd: "knows_fd ids k s \<Longrightarrow> resolve_key ids ''fd'' s = (Inr k, s)"
  by (simp add: resolve_key_def varsC_def knows_fd_def)

lemma resolve_fd_knows: "ids \<noteq> [] \<Longrightarrow> resolve_key ids ''fd'' s = (Inr k, t) \<Longrightarrow> knows_fd ids k t"
  using GetKey_again [of ids "''fd''" "ps_vars s" k] by (auto simp: knows_fd_def resolve_key_Inr_iff)

lemma seed_of_vars: "seed_of E None s = (Inr n, t) \<Longrightarrow> ps_vars t = ps_vars s"
  by (auto simp: seed_of_def bindC_Inr_iff sysC_Inr_iff)

lemma access_created:
  assumes "is_access i" and "knows_fd ids k (fst st)" and "CreateFromProtoInstruction E jk mp ids i st = (Inr c, st')"
  shows "accesses_fd k c \<and> ps_vars (fst st') = ps_vars (fst st)"
proof -
  obtain sz offset where "i = simple_instruction (PbReadFile (access_message sz offset) FADV_AUTOMATIC) \<or>
      i = simple_instruction (PbWriteFile (access_message sz offset) False)"
    using assms(1) by (auto simp: is_access_def)
  then show ?thesis
  proof
    assume i: "i = simple_instruction (PbReadFile (access_message sz offset) FADV_AUTOMATIC)"
    then obtain n u where n: "seed_of E None (fst st) = (Inr n, u)"
        and c: "bindC (resolve_key ids ''fd'') (\<lambda>fd_key. returnC (leaf_of (ReadFile (ConvertReadFAdvise kSequential FADV_AUTOMATIC))
          (ReadWriteFile_ctor E ''read_file'' (params_of i) sz sz offset kSequential n kOnce fd_key))) u = (Inr c, fst st')"
      using assms(3)
      by (auto simp: simple_instruction_def access_message_def CreateReadFile_def procC_Inr_iff bindC_Inr_iff)
    have "knows_fd ids k u" using knows_fd_vars [OF seed_of_vars [OF n] assms(2)] .
    then show ?thesis using c seed_of_vars [OF n]
      by (auto simp: bindC_Inr_iff resolve_fd leaf_of_def ReadWriteFile_ctor_def accesses_fd_def returnC_def)
  next
    assume i: "i = simple_instruction (PbWriteFile (access_message sz offset) False)"
    then obtain n u where n: "seed_of E None (fst st) = (Inr n, u)"
        and c: "bindC (resolve_key ids ''fd'') (\<lambda>fd_key. returnC (leaf_of (WriteFile False)
          (ReadWriteFile_ctor E ''write_file'' (params_of i) sz sz offset kSequential n kOnce fd_key))) u = (Inr c, fst st')"
      using assms(3)
      by (auto simp: simple_instruction_def access_message_def CreateWriteFile_def procC_Inr_iff bindC_Inr_iff)
    have "knows_fd ids k u" using knows_fd_vars [OF seed_of_vars [OF n] assms(2)] .
    then show ?thesis using c seed_of_vars [OF n]
      by (auto simp: bindC_Inr_iff resolve_fd leaf_of_def ReadWriteFile_ctor_def accesses_fd_def returnC_def)
  qed
qed

lemma accesses_created:
  assumes "list_all is_access is" and "knows_fd ids k (fst st)"
    and "mapC (CreateFromProtoInstruction E jk mp ids) is st = (Inr cs, st')"
  shows "list_all (accesses_fd k) cs \<and> knows_fd ids k (fst st')"
  using assms
proof (induction "is" arbitrary: st cs)
  case (Cons i xs)
  obtain c u cs' where *: "CreateFromProtoInstruction E jk mp ids i st = (Inr c, u)"
      "mapC (CreateFromProtoInstruction E jk mp ids) xs u = (Inr cs', st')" "cs = c # cs'"
    using Cons.prems(3) by (auto simp: bindC_Inr_iff)
  have "accesses_fd k c \<and> knows_fd ids k (fst u)"
    using access_created [OF _ Cons.prems(2) *(1)] Cons.prems(1,2) knows_fd_vars by auto
  then show ?case using Cons.IH [OF _ _ *(2)] Cons.prems(1) *(3) by simp
qed simp

lemma open_created:
  assumes "CreateFromProtoInstruction E jk mp ids (open_message path) st = (Inr c, st')" and "ids \<noteq> []"
  shows "\<exists>b f. c = Leaf b (OpenFile f) \<and> knows_fd ids (of_output_fd_key f) (fst st')"
proof -
  obtain k u base where *: "resolve_key ids ''fd'' (fst st) = (Inr k, u)" "GetAbsolutePath u = (Inr base, fst st')"
      "\<exists>b f. c = Leaf b (OpenFile f) \<and> of_output_fd_key f = k"
    using assms(1)
    by (auto simp: open_message_def simple_instruction_def CreateOpenFile_def procC_Inr_iff bindC_Inr_iff Let_def
        mapC_result_Inr_iff OpenFile_path_def leaf_of_def open_defaults_def)
  have "ps_vars (fst st') = ps_vars u" using keeps_varsD [OF keeps_shared(3) *(2)] by blast
  then have "knows_fd ids k (fst st')" using knows_fd_vars resolve_fd_knows [OF assms(2) *(1)] by blast
  then show ?thesis using *(3) by auto
qed

lemma close_created:
  assumes "CreateFromProtoInstruction E jk mp ids (simple_instruction (PbCloseFile ''fd'')) st = (Inr c, st')"
    and "knows_fd ids k (fst st)"
  shows "\<exists>b. c = Leaf b (CloseFile k)"
  using assms
  by (auto simp: leaf_of_def simple_instruction_def procC_Inr_iff bindC_Inr_iff resolve_fd)

text \<open>
  C32: the tree that the factory makes of such a set opens a file into the variable that all its accesses
  and its close read the descriptor from.
\<close>

theorem replay_uses_one_descriptor:
  assumes "is_replay i" and "ids \<noteq> []" and "CreateFromProtoInstruction E jk mp ids i st = (Inr c, st')"
  shows "\<exists>b s bo f accesses bc. c = InstructionSet b s (Leaf bo (OpenFile f) # accesses @ [Leaf bc (CloseFile (of_output_fd_key f))]) \<and>
    list_all (accesses_fd (of_output_fd_key f)) accesses"
proof -
  obtain path xs where i: "i = PbInstruction 1 0 0 (PbInstructionSet
      (open_message path # xs @ [simple_instruction (PbCloseFile ''fd'')]) None)" "list_all is_access xs"
    using assms(1) by (auto simp: is_replay_def)
  obtain o1 u1 cs u2 c1 u3 where *: "CreateFromProtoInstruction E jk mp ids (open_message path) st = (Inr o1, u1)"
      "mapC (CreateFromProtoInstruction E jk mp ids) xs u1 = (Inr cs, u2)"
      "CreateFromProtoInstruction E jk mp ids (simple_instruction (PbCloseFile ''fd'')) u2 = (Inr c1, u3)"
      "procC (make_set E jk ids (params_of i) (o1 # cs @ [c1]) None) u3 = (Inr c, st')"
    using assms(3) unfolding i(1) by (auto simp: mapC_append bindC_Inr_iff)
  obtain bo f where o1: "o1 = Leaf bo (OpenFile f)" "knows_fd ids (of_output_fd_key f) (fst u1)"
    using open_created [OF *(1) assms(2)] by blast
  note a = accesses_created [OF i(2) o1(2) *(2)]
  obtain bc where "c1 = Leaf bc (CloseFile (of_output_fd_key f))" using close_created [OF *(3)] a by blast
  moreover obtain b s where "c = InstructionSet b s (o1 # cs @ [c1])"
    using *(4) by (auto simp: make_set_def InstructionSet_plain_ctor_def procC_Inr_iff)
  ultimately show ?thesis using o1(1) a by auto
qed

section \<open>Examples\<close>

text \<open>A trace of one process that opens and closes a file.\<close>

definition sample_open :: syscall where
  "sample_open = \<lparr>sc_name = ''openat'', sc_arguments = [''A'', CHR 0x22 # ''/d/f'' @ [CHR 0x22]], sc_return_value = ''3''\<rparr>"

definition sample_close :: syscall where
  "sample_close = \<lparr>sc_name = ''close'', sc_arguments = [''3''], sc_return_value = ''0''\<rparr>"

definition sample_trace :: "string list" where
  "sample_trace = [''7  '' @ show_call sample_open 1, ''7  '' @ show_call sample_close 1]"

lemma sample_lines: "ProcessLine (show_call sample_open 1) = Inr sample_open" "ProcessLine (show_call sample_close 1) = Inr sample_close"
  by (rule ProcessLine_show_call; simp add: sample_open_def sample_close_def show_call_def)+

lemma sample_calls: "process_pid sample_trace = Inr [sample_open, sample_close]"
  using sample_lines
  by (simp add: sample_trace_def sample_open_def sample_close_def show_call_def contains_def process_without_pid_def find_pos_def
      substr_def unat_npos)

definition sample_file :: string where
  "sample_file = concat (map (\<lambda>l. l @ [CHR 0x0A]) sample_trace)"

lemma sample_pids: "SplitByPid (get_lines [] sample_file) = Inr [(7, sample_trace)]"
  by (simp add: sample_file_def sample_trace_def sample_open_def sample_close_def show_call_def
      SplitByPid_def pid_of_def find_pos_def substr_def npos_def narrow32_def strtoll_def is_space_def is_digit_def read_nat_def map_find_def)
lemma sample_main: "\<exists>b sets. trace_main ''/d'' [(7, [sample_open, sample_close])] = Inr b \<and> pb_main b = PbInstruction 1 0 0 (PbInstructionSet sets None) \<and> length sets = 1"
  by (simp add: sample_open_def sample_close_def trace_main_def trace_pid_def trace_step_def trace_open_def trace_close_def argument_def contains_def substr_def unat_npos fd_of_def narrow32_def strtoll_def is_space_def is_digit_def read_nat_def map_find_def map_erase_def)


theorem trace_makes_replays_witness:
  "\<exists>b sets. dittotrace [''t'' \<mapsto> sample_file] [''t'', ''/d''] = Inr b \<and>
     pb_main b = PbInstruction 1 0 0 (PbInstructionSet sets None) \<and> length sets = 1 \<and> list_all is_replay sets"
proof -
  obtain b sets where b: "dittotrace [''t'' \<mapsto> sample_file] [''t'', ''/d''] = Inr b"
      "pb_main b = PbInstruction 1 0 0 (PbInstructionSet sets None)" "length sets = 1"
    using sample_main by (auto simp: dittotrace_def ReadLines_def sample_pids ProcessLines_def sample_calls)
  from trace_makes_replays [OF b(1)] b show ?thesis by auto
qed

theorem opening_the_directory_is_undefined_witness:
  "trace_step ''/d'' ([], []) \<lparr>sc_name = ''openat'', sc_arguments = [''AT_FDCWD'', CHR 0x22 # ''/d'' @ [CHR 0x22], ''O_DIRECTORY''],
     sc_return_value = ''3''\<rparr> = Inl (Undefined EmptyContainer)"
  by (rule opening_the_directory_is_undefined [where dir = "''AT_FDCWD''" and flags = "[''O_DIRECTORY'']"]) simp_all

definition sample_replay :: pb_instruction where
  "sample_replay = PbInstruction 1 0 0 (PbInstructionSet
     [open_message ''f'', simple_instruction (PbReadFile (access_message 4096 0) FADV_AUTOMATIC),
      simple_instruction (PbCloseFile ''fd'')] None)"

lemma sample_replay_created:
  "\<exists>b s o1 a c1 st'. CreateFromProtoInstruction sample_env sample_junk Multithreading_ctor [0] sample_replay (sample_state, 1)
     = (Inr (InstructionSet b s [o1, a, c1]), st')"
  by (simp add: sample_replay_def open_message_def access_message_def simple_instruction_def bindC_app procC_def CreateOpenFile_def
      CreateReadFile_def seed_of_def resolve_key_def varsC_def GetKey_def sample_state_def grow_variables_def insert_key_def Let_def
      mapC_result_def OpenFile_path_def GetAbsolutePath_def shared_string_app valid_key_def get_string_def leaf_of_def
      sysC_def sample_env_def make_set_def InstructionSet_plain_ctor_def)

theorem replay_uses_one_descriptor_witness:
  "\<exists>b s bo f a bc st'. CreateFromProtoInstruction sample_env sample_junk Multithreading_ctor [0] sample_replay (sample_state, 1)
      = (Inr (InstructionSet b s [Leaf bo (OpenFile f), a, Leaf bc (CloseFile (of_output_fd_key f))]), st') \<and>
     accesses_fd (of_output_fd_key f) a"
proof -
  obtain b s o1 a c1 st' where c: "CreateFromProtoInstruction sample_env sample_junk Multithreading_ctor [0] sample_replay (sample_state, 1)
      = (Inr (InstructionSet b s [o1, a, c1]), st')"
    using sample_replay_created by blast
  have r: "is_replay sample_replay" by (auto simp: is_replay_def sample_replay_def is_access_def)
  obtain bo f as bc where "[o1, a, c1] = Leaf bo (OpenFile f) # as @ [Leaf bc (CloseFile (of_output_fd_key f))]"
      "list_all (accesses_fd (of_output_fd_key f)) as"
    using replay_uses_one_descriptor [OF r _ c] by auto
  moreover from this have "as = [a]" by (cases as rule: rev_cases) (auto simp: Cons_eq_append_conv)
  ultimately show ?thesis using c by auto
qed

end
